(* ===== verification/Prelude.thy ===== *)
theory Prelude
  imports Main "HOL-Library.Word" "HOL-Library.AList" "HOL-Library.Sublist"
    "HOL-Library.Multiset" "HOL-Library.Char_ord" "HOL-Library.List_Lexorder"
begin

text \<open>
  Shared vocabulary of the development: Go byte strings and the functions of the package
  \<open>strings\<close> the sources use, signed 64-bit wrap-around, big-endian integers, results that
  carry an error message, the values that travel in a \<open>map[string]any\<close>, and two
  contracts that several components meet: a step function that keeps an invariant, and an
  encoder with a prefix decoder.

  Strings are lists of bytes. Case folding and white space are those of ASCII, which is
  what host names, headers, keywords and configuration keys of this system are made of;
  Go's Unicode tables are not modelled.
\<close>

named_theorems go_string \<open>rewrite rules on Go strings\<close>
named_theorems wire \<open>rewrite rules on byte-level encodings\<close>

section \<open>Results\<close>

text \<open>A call returns \<open>Inl msg\<close> for \<open>return nil, err\<close> and \<open>Inr v\<close> for \<open>return v, nil\<close>.\<close>

type_synonym 'a result = "string + 'a"

definition rbind :: "'a result \<Rightarrow> ('a \<Rightarrow> 'b result) \<Rightarrow> 'b result" where
  "rbind m f = (case m of Inl e \<Rightarrow> Inl e | Inr x \<Rightarrow> f x)"

definition require :: "bool \<Rightarrow> string \<Rightarrow> unit result" where
  "require b msg = (if b then Inr () else Inl msg)"

fun rmap :: "('a \<Rightarrow> 'b result) \<Rightarrow> 'a list \<Rightarrow> 'b list result" where
  "rmap f [] = Inr []"
| "rmap f (x # xs) = rbind (f x) (\<lambda>y. rbind (rmap f xs) (\<lambda>ys. Inr (y # ys)))"

lemma rbind_Inr_iff [simp]:
  "rbind m f = Inr y \<longleftrightarrow> (\<exists>x. m = Inr x \<and> f x = Inr y)"
  by (cases m) (auto simp: rbind_def)

lemma guard_Inr_iff: "(if b then Inl e else m) = Inr y \<longleftrightarrow> \<not> b \<and> m = Inr y"
  by simp

lemma rbind_simps [simp]:
  "rbind (Inr x) f = f x"
  "rbind (Inl e) f = Inl e"
  by (auto simp: rbind_def)

lemma require_Inr_iff [simp]: "require b msg = Inr u \<longleftrightarrow> b"
  by (simp add: require_def)

lemma require_simps [simp]:
  "require True msg = Inr ()"
  "require False msg = Inl msg"
  by (auto simp: require_def)

lemma rmap_Inr_length: "rmap f xs = Inr ys \<Longrightarrow> length ys = length xs"
  by (induction xs arbitrary: ys) auto

lemma rmap_Inr_list_all2: "rmap f xs = Inr ys \<longleftrightarrow> list_all2 (\<lambda>x y. f x = Inr y) xs ys"
  by (induction xs arbitrary: ys) (auto simp: list_all2_Cons1)

lemma rmap_Inr_all:
  assumes "rmap f xs = Inr ys" and "\<And>x y. f x = Inr y \<Longrightarrow> P y"
  shows "list_all P ys"
  using assms(1)
proof (induction xs arbitrary: ys)
  case Nil
  then show ?case by simp
next
  case (Cons x xs)
  then obtain y zs where "f x = Inr y" and "rmap f xs = Inr zs" and "ys = y # zs"
    by auto
  then show ?case using Cons.IH assms(2) by auto
qed

section \<open>Strings\<close>

definition lower_char :: "char \<Rightarrow> char" where
  "lower_char c = (let n = of_char c :: int in
     if 65 \<le> n \<and> n \<le> 90 then char_of (n + 32) else c)"

definition ToLower :: "string \<Rightarrow> string" where
  "ToLower = map lower_char"

definition upper_char :: "char \<Rightarrow> char" where
  "upper_char c = (let n = of_char c :: int in
     if 97 \<le> n \<and> n \<le> 122 then char_of (n - 32) else c)"

definition ToUpper :: "string \<Rightarrow> string" where
  "ToUpper = map upper_char"

definition EqualFold :: "string \<Rightarrow> string \<Rightarrow> bool" where
  "EqualFold a b \<longleftrightarrow> ToLower a = ToLower b"

definition is_space :: "char \<Rightarrow> bool" where
  "is_space c = (let n = of_char c :: int in (9 \<le> n \<and> n \<le> 13) \<or> n = 32)"

definition is_digit :: "char \<Rightarrow> bool" where
  "is_digit c = (let n = of_char c :: int in 48 \<le> n \<and> n \<le> 57)"

definition digit_val :: "char \<Rightarrow> int" where
  "digit_val c = of_char c - 48"

definition TrimSpace :: "string \<Rightarrow> string" where
  "TrimSpace s = rev (dropWhile is_space (rev (dropWhile is_space s)))"

definition HasPrefix :: "string \<Rightarrow> string \<Rightarrow> bool" where
  "HasPrefix s p \<longleftrightarrow> prefix p s"

definition HasSuffix :: "string \<Rightarrow> string \<Rightarrow> bool" where
  "HasSuffix s p \<longleftrightarrow> suffix p s"

definition TrimPrefix :: "string \<Rightarrow> string \<Rightarrow> string" where
  "TrimPrefix s p = (if HasPrefix s p then drop (length p) s else s)"

definition TrimSuffix :: "string \<Rightarrow> string \<Rightarrow> string" where
  "TrimSuffix s p = (if HasSuffix s p then take (length s - length p) s else s)"

fun Split :: "char \<Rightarrow> string \<Rightarrow> string list" where
  "Split sep [] = [[]]"
| "Split sep (c # cs) = (if c = sep then [] # Split sep cs
     else (case Split sep cs of [] \<Rightarrow> [[c]] | w # ws \<Rightarrow> (c # w) # ws))"

fun Join :: "string list \<Rightarrow> string \<Rightarrow> string" where
  "Join [] sep = []"
| "Join [w] sep = w"
| "Join (w # ws) sep = w @ sep @ Join ws sep"

text \<open>\<open>net.SplitHostPort\<close>, without its error texts.\<close>

fun last_index :: "char \<Rightarrow> string \<Rightarrow> nat option" where
  "last_index c [] = None"
| "last_index c (x # xs) =
    (case last_index c xs of Some i \<Rightarrow> Some (Suc i) | None \<Rightarrow> if x = c then Some 0 else None)"

definition SplitHostPort :: "string \<Rightarrow> (string \<times> string) option" where
  "SplitHostPort hp =
    (case last_index CHR '':'' hp of
       None \<Rightarrow> None
     | Some i \<Rightarrow>
         if hd hp = CHR ''['' then
           (let stop = length (takeWhile (\<lambda>c. c \<noteq> CHR '']'') hp) in
            if stop = length hp then None
            else if stop + 1 \<noteq> i then None
            else if CHR ''['' \<in> set (drop 1 hp) \<or> CHR '']'' \<in> set (drop (stop + 1) hp) then None
            else Some (take (stop - 1) (drop 1 hp), drop (i + 1) hp))
         else if CHR '':'' \<in> set (take i hp) then None
         else if CHR ''['' \<in> set hp \<or> CHR '']'' \<in> set hp then None
         else Some (take i hp, drop (i + 1) hp))"

lemma of_char_lower_char:
  "(of_char (lower_char c) :: int) =
     (let n = of_char c in if 65 \<le> n \<and> n \<le> 90 then n + 32 else n)"
  by (simp add: lower_char_def Let_def)

lemma lower_char_idem [simp]: "lower_char (lower_char c) = lower_char c"
  by (simp add: lower_char_def Let_def)

lemma lower_char_eq_dot [simp]: "lower_char c = CHR ''.'' \<longleftrightarrow> c = CHR ''.''"
proof
  assume "lower_char c = CHR ''.''"
  then have "(of_char (lower_char c) :: int) = of_char CHR ''.''" by simp
  then have "(of_char c :: int) = of_char CHR ''.''"
    by (auto simp: of_char_lower_char Let_def split: if_splits)
  then show "c = CHR ''.''" by (simp only: of_char_eq_iff)
qed (simp add: lower_char_def)

lemma ToLower_idem [simp, go_string]: "ToLower (ToLower s) = ToLower s"
  by (simp add: ToLower_def o_def)

lemma ToLower_append [go_string]: "ToLower (a @ b) = ToLower a @ ToLower b"
  by (simp add: ToLower_def)

lemma length_ToLower [simp]: "length (ToLower s) = length s"
  by (simp add: ToLower_def)

lemma ToLower_Nil_iff [simp]: "ToLower s = [] \<longleftrightarrow> s = []"
  by (simp add: ToLower_def)

lemma EqualFold_refl [simp]: "EqualFold s s"
  by (simp add: EqualFold_def)

lemma Split_not_Nil [simp]: "Split sep s \<noteq> []"
  by (induction s) (auto split: list.splits)

lemma Split_no_sep: "sep \<notin> set s \<Longrightarrow> Split sep s = [s]"
  by (induction s) auto

lemma Split_append:
  "sep \<notin> set a \<Longrightarrow> Split sep (a @ sep # b) = a # Split sep b"
  by (induction a) auto

lemma Split_parts: "w \<in> set (Split sep s) \<Longrightarrow> sep \<notin> set w"
proof (induction s arbitrary: w)
  case Nil
  then show ?case by simp
next
  case (Cons c cs)
  then show ?case
    by (cases "Split sep cs") (auto split: if_splits)
qed

lemma Join_Split: "Join (Split sep s) [sep] = s"
proof (induction s)
  case Nil
  then show ?case by simp
next
  case (Cons c cs)
  obtain w ws where s: "Split sep cs = w # ws"
    by (meson Split_not_Nil neq_Nil_conv)
  with Cons show ?case by (cases ws) auto
qed

lemma Join_Cons: "ws \<noteq> [] \<Longrightarrow> Join (w # ws) sep = w @ sep @ Join ws sep"
  by (cases ws) auto

lemma Split_Join:
  "ws \<noteq> [] \<Longrightarrow> \<forall>w \<in> set ws. sep \<notin> set w \<Longrightarrow> Split sep (Join ws [sep]) = ws"
proof (induction ws)
  case Nil
  then show ?case by simp
next
  case (Cons w ws)
  then show ?case
    by (cases "ws = []") (auto simp: Join_Cons Split_no_sep Split_append)
qed

lemma dropWhile_rev_idem:
  "dropWhile P (rev (dropWhile P (rev (dropWhile P xs)))) = rev (dropWhile P (rev (dropWhile P xs)))"
proof -
  let ?t = "rev (dropWhile P (rev (dropWhile P xs)))"
  have "rev (dropWhile P xs) =
      takeWhile P (rev (dropWhile P xs)) @ dropWhile P (rev (dropWhile P xs))"
    by simp
  then have "dropWhile P xs = ?t @ rev (takeWhile P (rev (dropWhile P xs)))"
    by (metis rev_append rev_rev_ident)
  then have "?t \<noteq> [] \<Longrightarrow> hd ?t = hd (dropWhile P xs)" and "?t \<noteq> [] \<Longrightarrow> dropWhile P xs \<noteq> []"
    by (metis hd_append2, metis append_is_Nil_conv)
  then have "?t = [] \<or> \<not> P (hd ?t)"
    using hd_dropWhile [of P xs] by metis
  then show ?thesis
    by (metis (no_types) dropWhile.simps list.exhaust_sel)
qed

lemma TrimSpace_idem [simp, go_string]: "TrimSpace (TrimSpace s) = TrimSpace s"
  by (simp add: TrimSpace_def dropWhile_rev_idem)

lemma HasSuffix_append [simp]: "HasSuffix (a @ b) b"
  by (simp add: HasSuffix_def suffix_def)

lemma HasPrefix_append [simp]: "HasPrefix (a @ b) a"
  by (simp add: HasPrefix_def)

lemma TrimPrefix_append [simp]: "TrimPrefix (p @ s) p = s"
  by (simp add: TrimPrefix_def HasPrefix_def)

section \<open>Decimal numbers\<close>

text \<open>\<open>fmt\<close>'s \<open>%d\<close> and the value of a digit string.\<close>

function dec_digits :: "int \<Rightarrow> string" where
  "dec_digits n = (if n < 10 then [char_of (48 + n)]
     else dec_digits (n div 10) @ [char_of (48 + n mod 10)])"
  by pat_completeness auto
termination
  by (relation "measure nat") auto

declare dec_digits.simps [simp del]

definition show_int :: "int \<Rightarrow> string" where
  "show_int n = (if n < 0 then CHR ''-'' # dec_digits (- n) else dec_digits n)"

definition digits_val :: "string \<Rightarrow> int" where
  "digits_val s = foldl (\<lambda>x c. x * 10 + digit_val c) 0 s"

lemma digits_val_snoc [simp]: "digits_val (s @ [c]) = digits_val s * 10 + digit_val c"
  by (simp add: digits_val_def)

lemma of_char_digit: "0 \<le> d \<Longrightarrow> d < 10 \<Longrightarrow> (of_char (char_of (48 + d) :: char) :: int) = 48 + d"
  by simp

lemma digit_char [simp]:
  "0 \<le> d \<Longrightarrow> d < 10 \<Longrightarrow> is_digit (char_of (48 + d))"
  "0 \<le> d \<Longrightarrow> d < 10 \<Longrightarrow> digit_val (char_of (48 + d)) = d"
  unfolding is_digit_def digit_val_def Let_def by (simp_all only: of_char_digit) simp_all

lemma dec_digits_correct:
  "0 \<le> n \<Longrightarrow> digits_val (dec_digits n) = n \<and> list_all is_digit (dec_digits n) \<and> dec_digits n \<noteq> []"
proof (induction n rule: dec_digits.induct)
  case (1 n)
  show ?case
  proof (cases "n < 10")
    case True
    with "1.prems" show ?thesis
      by (simp add: dec_digits.simps [of n]) (simp add: digits_val_def)
  next
    case False
    with "1.IH" "1.prems" show ?thesis
      by (simp add: dec_digits.simps [of n])
  qed
qed

lemma dec_digits_no_leading_zero:
  "0 < n \<Longrightarrow> hd (dec_digits n) \<noteq> CHR ''0''"
proof (induction n rule: dec_digits.induct)
  case (1 n)
  show ?case
  proof (cases "n < 10")
    case True
    have "digit_val (char_of (48 + n)) \<noteq> digit_val CHR ''0''"
      using True "1.prems" by (simp add: digit_val_def)
    then show ?thesis using True by (auto simp: dec_digits.simps [of n])
  next
    case False
    then have "dec_digits (n div 10) \<noteq> []" and "hd (dec_digits (n div 10)) \<noteq> CHR ''0''"
      using "1.IH" dec_digits_correct [of "n div 10"] by auto
    with False show ?thesis by (simp add: dec_digits.simps [of n])
  qed
qed

lemma is_digit_digit_val:
  assumes "is_digit c"
  shows "0 \<le> digit_val c" and "digit_val c < 10" and "char_of (48 + digit_val c) = c"
  using assms by (auto simp: is_digit_def digit_val_def Let_def)

lemma char_of_48: "char_of (48 :: int) = CHR ''0''"
  by (simp add: char_of_def)

lemma digits_val_nonneg: "list_all is_digit s \<Longrightarrow> 0 \<le> digits_val s"
proof (induction s rule: rev_induct)
  case Nil
  then show ?case by (simp add: digits_val_def)
next
  case (snoc c s)
  then show ?case using is_digit_digit_val(1) [of c] by simp
qed

lemma digits_val_pos:
  "list_all is_digit s \<Longrightarrow> s \<noteq> [] \<Longrightarrow> hd s \<noteq> CHR ''0'' \<Longrightarrow> 0 < digits_val s"
proof (induction s rule: rev_induct)
  case Nil
  then show ?case by simp
next
  case (snoc c s)
  then have d: "0 \<le> digit_val c" "char_of (48 + digit_val c) = c"
    using is_digit_digit_val [of c] by auto
  show ?case
  proof (cases "s = []")
    case True
    then have "c \<noteq> CHR ''0''" using snoc.prems by simp
    then have "digit_val c \<noteq> 0" using d by (metis add_0_right char_of_48)
    then show ?thesis using True d by (simp add: digits_val_def)
  next
    case False
    then have "0 < digits_val s" using snoc by simp
    then show ?thesis using d by simp
  qed
qed

lemma dec_digits_digits_val:
  "list_all is_digit s \<Longrightarrow> s \<noteq> [] \<Longrightarrow> \<not> (length s > 1 \<and> hd s = CHR ''0'') \<Longrightarrow>
     dec_digits (digits_val s) = s"
proof (induction s rule: rev_induct)
  case Nil
  then show ?case by simp
next
  case (snoc c s)
  then have d: "0 \<le> digit_val c" "digit_val c < 10" "char_of (48 + digit_val c) = c"
    using is_digit_digit_val [of c] by auto
  show ?case
  proof (cases "s = []")
    case True
    then show ?thesis using d by (simp add: dec_digits.simps [of "digit_val c"] digits_val_def)
  next
    case False
    then have h: "hd s \<noteq> CHR ''0''" using snoc.prems by auto
    then have "dec_digits (digits_val s) = s" and "0 < digits_val s"
      using snoc False by (auto intro: digits_val_pos)
    then show ?thesis
      using d by (simp add: dec_digits.simps [of "digits_val s * 10 + digit_val c"])
  qed
qed

lemma digits_val_zeros: "digits_val (replicate k CHR ''0'' @ s) = digits_val s"
proof (induction s rule: rev_induct)
  case Nil
  show ?case by (induction k) (simp_all add: digits_val_def digit_val_def)
next
  case (snoc c s)
  then show ?case by (simp flip: append_assoc)
qed

section \<open>Machine integers\<close>

text \<open>
  Go's \<open>int\<close>, \<open>int64\<close> and \<open>time.Duration\<close> are signed 64-bit integers that wrap around. They are
  kept as \<open>int\<close> with \<open>wrap64\<close> written at every addition, subtraction or product of the
  source that could leave the range. \<open>time.Time.Sub\<close> saturates instead.
\<close>

definition wrap64 :: "int \<Rightarrow> int" where
  "wrap64 x = (x + 2 ^ 63) mod 2 ^ 64 - 2 ^ 63"

definition in_int64 :: "int \<Rightarrow> bool" where
  "in_int64 x \<longleftrightarrow> - (2 ^ 63) \<le> x \<and> x < 2 ^ 63"

definition saturate64 :: "int \<Rightarrow> int" where
  "saturate64 x = max (- (2 ^ 63)) (min (2 ^ 63 - 1) x)"

definition quot_trunc :: "int \<Rightarrow> int \<Rightarrow> int" where
  "quot_trunc a b = sgn a * sgn b * (\<bar>a\<bar> div \<bar>b\<bar>)"

lemma in_int64_wrap64: "in_int64 (wrap64 x)"
proof -
  have "0 \<le> (x + 2 ^ 63) mod 2 ^ 64" and "(x + 2 ^ 63) mod 2 ^ 64 < (2 ^ 64 :: int)"
    by simp_all
  then show ?thesis by (simp add: in_int64_def wrap64_def)
qed

lemma wrap64_id: "in_int64 x \<Longrightarrow> wrap64 x = x"
  by (simp add: in_int64_def wrap64_def)

lemma saturate64_id: "in_int64 x \<Longrightarrow> saturate64 x = x"
  by (simp add: in_int64_def saturate64_def)

lemma quot_trunc_nonneg: "0 \<le> a \<Longrightarrow> 0 < b \<Longrightarrow> quot_trunc a b = a div b"
  by (cases "a = 0") (auto simp: quot_trunc_def)

section \<open>Bytes and big-endian integers\<close>

type_synonym byte = "8 word"

definition bytes_of :: "string \<Rightarrow> byte list" where
  "bytes_of = map (\<lambda>c. of_nat (of_char c))"

definition string_of :: "byte list \<Rightarrow> string" where
  "string_of = map (\<lambda>b. char_of (unat b))"

lemma string_of_bytes_of [simp, wire]: "string_of (bytes_of s) = s"
  by (induction s) (simp_all add: string_of_def bytes_of_def unat_of_nat)

lemma bytes_of_string_of [simp, wire]: "bytes_of (string_of b) = b"
proof (induction b)
  case Nil
  then show ?case by (simp add: string_of_def bytes_of_def)
next
  case (Cons x xs)
  have "unat x < 256" using unsigned_less [of x] by simp
  then show ?case using Cons
    by (simp add: string_of_def bytes_of_def)
qed

lemma length_bytes_of [simp, wire]: "length (bytes_of s) = length s"
  by (simp add: bytes_of_def)

lemma length_string_of [simp, wire]: "length (string_of s) = length s"
  by (simp add: string_of_def)

lemma bytes_of_append [wire]: "bytes_of (a @ b) = bytes_of a @ bytes_of b"
  by (simp add: bytes_of_def)

lemma string_of_append [wire]: "string_of (a @ b) = string_of a @ string_of b"
  by (simp add: string_of_def)

definition byte_of_nat :: "nat \<Rightarrow> byte" where
  "byte_of_nat n = of_nat n"

lemma unat_byte_of_nat [wire]: "unat (byte_of_nat n) = n mod 256"
  by (simp add: byte_of_nat_def unat_of_nat)

text \<open>\<open>binary.BigEndian.AppendUint16\<close> and \<open>AppendUint32\<close>, and the reads they pair with.\<close>

definition be16 :: "nat \<Rightarrow> byte list" where
  "be16 n = [byte_of_nat (n div 256), byte_of_nat n]"

definition be32 :: "nat \<Rightarrow> byte list" where
  "be32 n = [byte_of_nat (n div 16777216), byte_of_nat (n div 65536),
             byte_of_nat (n div 256), byte_of_nat n]"

fun read16 :: "byte list \<Rightarrow> (nat \<times> byte list) option" where
  "read16 (a # b # r) = Some (unat a * 256 + unat b, r)"
| "read16 _ = None"

fun read32 :: "byte list \<Rightarrow> (nat \<times> byte list) option" where
  "read32 (a # b # c # d # r) =
     Some (unat a * 16777216 + unat b * 65536 + unat c * 256 + unat d, r)"
| "read32 _ = None"

lemma length_be16 [simp, wire]: "length (be16 n) = 2"
  by (simp add: be16_def)

lemma length_be32 [simp, wire]: "length (be32 n) = 4"
  by (simp add: be32_def)

lemma read16_be16 [wire]: "n < 65536 \<Longrightarrow> read16 (be16 n @ r) = Some (n, r)"
  by (simp add: be16_def unat_byte_of_nat)

lemma read32_be32 [wire]: "n < 4294967296 \<Longrightarrow> read32 (be32 n @ r) = Some (n, r)"
proof -
  assume "n < 4294967296"
  then have top: "n div 16777216 mod 256 = n div 16777216" by simp
  have "n div 65536 = (n div 16777216) * 256 + n div 65536 mod 256"
    using div_mult_mod_eq [of "n div 65536" 256] by (simp add: div_mult2_eq [symmetric])
  moreover have "n div 256 = (n div 65536) * 256 + n div 256 mod 256"
    using div_mult_mod_eq [of "n div 256" 256] by (simp add: div_mult2_eq [symmetric])
  moreover have "n = (n div 256) * 256 + n mod 256" by simp
  ultimately have "n div 16777216 * 16777216 + n div 65536 mod 256 * 65536 +
      n div 256 mod 256 * 256 + n mod 256 = n"
    by linarith
  then show ?thesis
    by (simp add: be32_def unat_byte_of_nat top)
qed

text \<open>\<open>IP.To4\<close>: four bytes as they are, or the tail of an IPv4-mapped 16-byte address.\<close>

definition To4 :: "byte list \<Rightarrow> byte list option" where
  "To4 ip = (if length ip = 4 then Some ip
     else if length ip = 16 \<and> take 12 ip = replicate 10 0 @ [255, 255] then Some (drop 12 ip)
     else None)"

section \<open>Dynamic values\<close>

text \<open>
  A \<open>map[string]any\<close> holds what \<open>encoding/json\<close> or Go code puts there: strings, numbers,
  booleans, durations, slices and nested maps. Maps are association lists without duplicate keys.
  Numbers decoded from JSON are floats; \<open>'f\<close> is their type.
\<close>

datatype 'f any =
    VNil
  | VBool bool
  | VString string
  | VFloat 'f
  | VInt int
  | VInt64 int
  | VDuration int
  | VStrMap "(string \<times> string) list"
  | VList "'f any list"
  | VMap "(string \<times> 'f any) list"

type_synonym 'f dict = "(string \<times> 'f any) list"

definition dget :: "'f dict \<Rightarrow> string \<Rightarrow> 'f any" where
  "dget d k = (case map_of d k of None \<Rightarrow> VNil | Some v \<Rightarrow> v)"

text \<open>\<open>s, _ := v.(string)\<close>: the string, or the empty string for any other value.\<close>

definition as_string :: "'f any \<Rightarrow> string" where
  "as_string v = (case v of VString s \<Rightarrow> s | _ \<Rightarrow> [])"

text \<open>Go maps are association lists; their updates and deletions as functions.\<close>

lemma map_of_AList_update [simp]: "map_of (AList.update k v r) = (map_of r)(k \<mapsto> v)"
  by (rule update_conv')

lemma map_of_AList_delete [simp]: "map_of (AList.delete k r) = (map_of r)(k := None)"
  by (rule delete_conv')

lemma in_map_filter: "n \<in> set (List.map_filter f xs) \<longleftrightarrow> (\<exists>x \<in> set xs. f x = Some n)"
  by (induction xs) (auto split: option.splits)

text \<open>
  The idiom \<open>if !seen[x] { seen[x] = true; out = append(out, x) }\<close>: the elements in the order of
  their first occurrence.
\<close>

definition add_new :: "'a list \<Rightarrow> 'a \<Rightarrow> 'a list" where
  "add_new out x = (if x \<in> set out then out else out @ [x])"

lemma set_add_new [simp]: "set (foldl add_new acc xs) = set acc \<union> set xs"
  by (induction xs arbitrary: acc) (auto simp: add_new_def)

lemma distinct_add_new: "distinct acc \<Longrightarrow> distinct (foldl add_new acc xs)"
  by (induction xs arbitrary: acc) (auto simp: add_new_def)

text \<open>A running maximum, as the loops \<open>if x > latest { latest = x }\<close> compute it.\<close>

lemma foldl_max_ge_init: "a \<le> foldl max a (xs :: 'a :: linorder list)"
  by (induction xs arbitrary: a) (auto intro: order_trans [OF max.cobounded1])

lemma foldl_max_upper: "x \<in> set xs \<Longrightarrow> (x :: 'a :: linorder) \<le> foldl max a xs"
proof (induction xs arbitrary: a)
  case (Cons y ys)
  then show ?case
    by (auto intro: order_trans [OF max.cobounded2 foldl_max_ge_init])
qed simp

lemma foldl_max_attained: "foldl max a (xs :: 'a :: linorder list) \<in> insert a (set xs)"
proof (induction xs arbitrary: a)
  case (Cons y ys)
  show ?case using Cons.IH [of "max a y"] by (auto simp: max_def split: if_splits)
qed simp

lemma foldl_max_map:
  "foldl (\<lambda>l x. if g x > l then g x else l) a xs = foldl max (a :: 'b :: linorder) (map g xs)"
  by (induction xs arbitrary: a) (auto simp: max_def)

section \<open>Contracts shared by several components\<close>

text \<open>A component whose operations are a step function on its state and keep an invariant.\<close>

locale invariant_machine =
  fixes step :: "'s \<Rightarrow> 'op \<Rightarrow> 's"
    and inv :: "'s \<Rightarrow> bool"
  assumes step_inv: "inv s \<Longrightarrow> inv (step s op)"
begin

lemma run_inv: "inv s \<Longrightarrow> inv (foldl step s ops)"
  by (induction ops arbitrary: s) (auto intro: step_inv)

lemma prefix_inv: "inv s \<Longrightarrow> inv (foldl step s (take n ops))"
  by (rule run_inv)

end

text \<open>
  An encoder into a list of symbols with a decoder that reads one value off the front and
  returns the rest. The law gives injectivity, prefix-freeness and decoding of sequences.
\<close>

fun decode_seq :: "('b list \<Rightarrow> ('a \<times> 'b list) option) \<Rightarrow> nat \<Rightarrow> 'b list \<Rightarrow> ('a list \<times> 'b list) option" where
  "decode_seq dec 0 bs = Some ([], bs)"
| "decode_seq dec (Suc n) bs = (case dec bs of None \<Rightarrow> None
     | Some (x, r) \<Rightarrow> (case decode_seq dec n r of None \<Rightarrow> None
        | Some (xs, r') \<Rightarrow> Some (x # xs, r')))"

locale prefix_codec =
  fixes enc :: "'a \<Rightarrow> 'b list"
    and dec :: "'b list \<Rightarrow> ('a \<times> 'b list) option"
    and ok :: "'a \<Rightarrow> bool"
  assumes dec_enc: "ok x \<Longrightarrow> dec (enc x @ r) = Some (x, r)"
begin

lemma dec_enc_all: "ok x \<Longrightarrow> dec (enc x) = Some (x, [])"
  using dec_enc [of x "[]"] by simp

lemma enc_prefix_free:
  assumes "ok x" and "ok y" and "enc x @ r = enc y @ r'"
  shows "x = y \<and> r = r'"
proof -
  from dec_enc [OF assms(1), of r] assms(3) have "dec (enc y @ r') = Some (x, r)" by metis
  with dec_enc [OF assms(2), of r'] show ?thesis by simp
qed

lemma enc_inj: "ok x \<Longrightarrow> ok y \<Longrightarrow> enc x = enc y \<Longrightarrow> x = y"
  using enc_prefix_free [of x y "[]" "[]"] by simp

lemma decode_seq_enc:
  "\<forall>x \<in> set xs. ok x \<Longrightarrow> decode_seq dec (length xs) (concat (map enc xs) @ r) = Some (xs, r)"
  by (induction xs) (auto simp: dec_enc)

end

interpretation be16_codec: prefix_codec be16 read16 "\<lambda>n. n < 65536"
  by unfold_locales (rule read16_be16)

interpretation be32_codec: prefix_codec be32 read32 "\<lambda>n. n < 4294967296"
  by unfold_locales (rule read32_be32)

end
