(* ===== verification/Float64.thy ===== *)
theory Float64
  imports Prelude Complex_Main "HOL-Library.Log_Nat"
begin

text \<open>
  IEEE 754 binary64 as the sources use it: finite values as the rationals they denote,
  the infinities and NaN, comparisons, and the two operations whose rounding the program
  depends on, multiplication and division (round to nearest, ties to even, gradual
  underflow). The sign of zero is not modelled. The rounding function is executable, exact
  on integers up to \<open>2 ^ 53\<close>, and monotone; the coverage threshold of the measurement pass and
  the scaling of campaign schedules rest on these two facts.
\<close>

datatype float64 = Fin rat | PInf | NInf | NaN

type_synonym params = "float64 dict"

fun flt :: "float64 \<Rightarrow> float64 \<Rightarrow> bool" where
  "flt NaN _ = False"
| "flt _ NaN = False"
| "flt (Fin a) (Fin b) = (a < b)"
| "flt (Fin _) PInf = True"
| "flt (Fin _) NInf = False"
| "flt PInf _ = False"
| "flt NInf NInf = False"
| "flt NInf _ = True"

fun feq :: "float64 \<Rightarrow> float64 \<Rightarrow> bool" where
  "feq NaN _ = False"
| "feq a b = (a = b)"

definition fle :: "float64 \<Rightarrow> float64 \<Rightarrow> bool" where
  "fle a b \<longleftrightarrow> flt a b \<or> feq a b"

lemma fle_simps [simp]:
  "fle (Fin a) (Fin b) = (a \<le> b)"
  "fle NaN y = False"
  "fle y NaN = False"
  "fle (Fin a) PInf"
  "\<not> fle (Fin a) NInf"
  "fle NInf (Fin a)"
  "\<not> fle PInf (Fin a)"
  by (auto simp: fle_def elim: flt.elims) (cases y; simp)+

lemma flt_NaN [simp]: "flt y NaN = False"
  by (cases y) auto

section \<open>Powers of two with integer exponents\<close>

definition pow2 :: "int \<Rightarrow> rat" where
  "pow2 e = (if 0 \<le> e then 2 ^ nat e else 1 / 2 ^ nat (- e))"

lemma pow2_eq_powi: "pow2 e = 2 powi e"
  by (auto simp: pow2_def power_int_def power_one_over)

lemma pow2_pos [simp]: "0 < pow2 e"
  by (simp add: pow2_eq_powi)

lemma pow2_nonneg [simp]: "0 \<le> pow2 e"
  using pow2_pos [of e] by linarith

lemma pow2_nonzero [simp]: "pow2 e \<noteq> 0"
  using pow2_pos [of e] by linarith

lemma pow2_add: "pow2 (a + b) = pow2 a * pow2 b"
  by (simp add: pow2_eq_powi power_int_add)

lemma pow2_diff: "pow2 (a - b) = pow2 a / pow2 b"
  by (simp add: pow2_eq_powi power_int_diff)

lemma pow2_le_iff [simp]: "pow2 a \<le> pow2 b \<longleftrightarrow> a \<le> b"
  unfolding pow2_eq_powi
  using power_int_increasing [of a b "2::rat"] power_int_strict_increasing [of b a "2::rat"]
  by force

lemma pow2_less_iff [simp]: "pow2 a < pow2 b \<longleftrightarrow> a < b"
  by (meson not_le pow2_le_iff)

lemma pow2_nat [simp]: "0 \<le> e \<Longrightarrow> pow2 e = of_int (2 ^ nat e)"
  by (simp add: pow2_def)

section \<open>The binary exponent of a positive rational\<close>

definition ilog2 :: "rat \<Rightarrow> int" where
  "ilog2 x = (let (n, d) = quotient_of x; e = bitlen n - bitlen d
              in if pow2 e \<le> x then e else e - 1)"

lemma bitlen_bounds_rat:
  assumes "0 < n"
  shows "pow2 (bitlen n - 1) \<le> rat_of_int n" and "rat_of_int n < pow2 (bitlen n)"
proof -
  have b: "2 ^ nat (bitlen n - 1) \<le> n" "n < 2 ^ nat (bitlen n)"
    using bitlen_bounds [OF assms] by auto
  have "0 \<le> bitlen n - 1" using assms by (simp add: bitlen_eq_zero_iff bitlen_nonneg int_one_le_iff_zero_less order_less_le)
  then show "pow2 (bitlen n - 1) \<le> rat_of_int n" "rat_of_int n < pow2 (bitlen n)"
    using b by (simp_all del: of_int_power)
qed

lemma ilog2_bounds:
  assumes "0 < x"
  shows "pow2 (ilog2 x) \<le> x" and "x < pow2 (ilog2 x + 1)"
proof -
  obtain n d where q: "quotient_of x = (n, d)" by (cases "quotient_of x")
  have d: "0 < d" using q by (rule quotient_of_denom_pos)
  have x: "x = of_int n / of_int d" using q by (rule quotient_of_div)
  have n: "0 < n" using assms x d by (simp add: zero_less_divide_iff)
  let ?e = "bitlen n - bitlen d"
  have "x < pow2 (bitlen n) / pow2 (bitlen d - 1)"
    unfolding x using bitlen_bounds_rat [OF n] bitlen_bounds_rat [OF d] d n
    by (intro frac_less) auto
  then have up: "x < pow2 (?e + 1)" by (simp add: pow2_diff [symmetric] algebra_simps)
  have "pow2 (bitlen n - 1) / pow2 (bitlen d) \<le> x"
    unfolding x using bitlen_bounds_rat [OF n] bitlen_bounds_rat [OF d] d n
    by (intro frac_le) auto
  then have lo: "pow2 (?e - 1) \<le> x" by (simp add: pow2_diff [symmetric] algebra_simps)
  show "pow2 (ilog2 x) \<le> x" and "x < pow2 (ilog2 x + 1)"
    using up lo by (auto simp: ilog2_def q Let_def)
qed

lemma ilog2_mono: "0 < x \<Longrightarrow> x \<le> y \<Longrightarrow> ilog2 x \<le> ilog2 y"
proof -
  assume "0 < x" and "x \<le> y"
  then have "pow2 (ilog2 x) < pow2 (ilog2 y + 1)"
    using ilog2_bounds [of x] ilog2_bounds [of y] by linarith
  then show ?thesis by simp
qed

section \<open>Rounding to nearest, ties to even\<close>

definition rne :: "rat \<Rightarrow> int" where
  "rne q = (let f = \<lfloor>q\<rfloor>; d = q - of_int f in
     if d < 1 / 2 then f else if 1 / 2 < d then f + 1
     else if even f then f else f + 1)"

lemma rne_of_int [simp]: "rne (of_int n) = n"
  by (simp add: rne_def)

lemma rne_floor_cases: "rne q = \<lfloor>q\<rfloor> \<or> rne q = \<lfloor>q\<rfloor> + 1"
  by (auto simp: rne_def Let_def)

lemma rne_le_int: "q \<le> of_int n \<Longrightarrow> rne q \<le> n"
proof (cases "q = of_int n")
  case False
  assume "q \<le> of_int n"
  with False have "\<lfloor>q\<rfloor> < n" by (simp add: floor_less_iff)
  then show ?thesis using rne_floor_cases [of q] by linarith
qed simp

lemma int_le_rne: "of_int n \<le> q \<Longrightarrow> n \<le> rne q"
  using rne_floor_cases [of q] le_floor_iff [of n q] by linarith

lemma rne_mono:
  assumes "p \<le> q"
  shows "rne p \<le> rne q"
proof (cases "\<lfloor>p\<rfloor> = \<lfloor>q\<rfloor>")
  case True
  with assms show ?thesis by (auto simp: rne_def Let_def)
next
  case False
  with assms have "\<lfloor>p\<rfloor> + 1 \<le> \<lfloor>q\<rfloor>" using floor_mono [OF assms] by linarith
  then show ?thesis using rne_floor_cases [of p] rne_floor_cases [of q] by linarith
qed

lemma rne_error: "\<bar>of_int (rne q) - q\<bar> \<le> 1 / 2"
  unfolding rne_def Let_def by (auto simp: abs_if) linarith+

definition fexp :: "rat \<Rightarrow> int" where
  "fexp x = (if x = 0 then - 1074 else max (ilog2 \<bar>x\<bar> - 52) (- 1074))"

definition rnd :: "rat \<Rightarrow> rat" where
  "rnd x = of_int (rne (x / pow2 (fexp x))) * pow2 (fexp x)"

definition fl :: "rat \<Rightarrow> float64" where
  "fl x = (let r = rnd x in
     if r \<ge> 2 ^ 1024 then PInf else if r \<le> - (2 ^ 1024) then NInf else Fin r)"

lemma rnd_0 [simp]: "rnd 0 = 0"
  by (simp add: rnd_def rne_def)

lemma fexp_mono: "0 < x \<Longrightarrow> x \<le> y \<Longrightarrow> fexp x \<le> fexp y"
  using ilog2_mono [of x y] by (auto simp: fexp_def)

lemma rnd_grid:
  assumes "x = of_int n * pow2 e" and "fexp x \<le> e"
  shows "rnd x = x"
proof -
  have "x / pow2 (fexp x) = of_int n * pow2 (e - fexp x)"
    using assms(1) by (simp add: pow2_diff)
  also have "\<dots> = of_int (n * 2 ^ nat (e - fexp x))"
    using assms(2) by simp
  finally have i: "x / pow2 (fexp x) = of_int (n * 2 ^ nat (e - fexp x))" .
  then have "rnd x = of_int (n * 2 ^ nat (e - fexp x)) * pow2 (fexp x)"
    unfolding rnd_def by (simp only: rne_of_int)
  also have "\<dots> = x" by (simp only: i [symmetric]) simp
  finally show ?thesis .
qed

lemma fexp_int:
  assumes "0 \<le> n" and "n < 2 ^ 53"
  shows "fexp (of_int n) \<le> 0"
proof (cases "n = 0")
  case True
  then show ?thesis by (simp add: fexp_def)
next
  case False
  with assms have pos: "0 < rat_of_int n" by simp
  have "pow2 (ilog2 (of_int n)) \<le> rat_of_int n" using ilog2_bounds(1) [OF pos] .
  also have "\<dots> < pow2 53"
    using assms(2) by (simp del: of_int_power)
  finally have "ilog2 (rat_of_int n) < 53" by (simp only: pow2_less_iff)
  then show ?thesis using assms False by (simp add: fexp_def)
qed

lemma rnd_of_int: "0 \<le> n \<Longrightarrow> n < 2 ^ 53 \<Longrightarrow> rnd (of_int n) = of_int n"
  by (rule rnd_grid [where e = 0]) (auto simp: fexp_int)

lemma rnd_nonneg: "0 \<le> x \<Longrightarrow> 0 \<le> rnd x"
  unfolding rnd_def
  by (intro mult_nonneg_nonneg) (auto intro!: int_le_rne simp: less_imp_le)

lemma rnd_le_grid:
  assumes "x \<le> of_int n * pow2 e" and "fexp x \<le> e"
  shows "rnd x \<le> of_int n * pow2 e"
proof -
  have "x / pow2 (fexp x) \<le> of_int n * pow2 (e - fexp x)"
    using assms(1) by (simp add: pow2_diff divide_right_mono)
  then have "x / pow2 (fexp x) \<le> of_int (n * 2 ^ nat (e - fexp x))"
    using assms(2) by simp
  then have "rne (x / pow2 (fexp x)) \<le> n * 2 ^ nat (e - fexp x)"
    by (rule rne_le_int)
  then have "rat_of_int (rne (x / pow2 (fexp x))) \<le> of_int n * pow2 (e - fexp x)"
    using assms(2) by (simp flip: of_int_mult del: of_int_power)
  then show ?thesis
    unfolding rnd_def by (simp add: pow2_diff field_simps)
qed

lemma grid_le_rnd:
  assumes "of_int n * pow2 e \<le> x" and "fexp x \<le> e"
  shows "of_int n * pow2 e \<le> rnd x"
proof -
  have "of_int n * pow2 (e - fexp x) \<le> x / pow2 (fexp x)"
    using assms(1) by (simp add: pow2_diff divide_right_mono)
  then have "of_int (n * 2 ^ nat (e - fexp x)) \<le> x / pow2 (fexp x)"
    using assms(2) by simp
  then have "n * 2 ^ nat (e - fexp x) \<le> rne (x / pow2 (fexp x))"
    by (rule int_le_rne)
  then have "of_int n * pow2 (e - fexp x) \<le> rat_of_int (rne (x / pow2 (fexp x)))"
    using assms(2) by (simp flip: of_int_mult del: of_int_power)
  then show ?thesis
    unfolding rnd_def by (simp add: pow2_diff field_simps)
qed

lemma rnd_mono:
  assumes "0 \<le> x" and "x \<le> y"
  shows "rnd x \<le> rnd y"
proof (cases "x = 0")
  case True
  then show ?thesis using assms rnd_nonneg [of y] by simp
next
  case False
  with assms have x: "0 < x" and y: "0 < y" by auto
  show ?thesis
  proof (cases "fexp x = fexp y")
    case True
    have "rne (x / pow2 (fexp y)) \<le> rne (y / pow2 (fexp y))"
      using assms(2) by (intro rne_mono divide_right_mono) (auto simp: less_imp_le)
    then show ?thesis unfolding rnd_def True by (simp add: less_imp_le)
  next
    case False
    with fexp_mono [OF x assms(2)] have lt: "fexp x < fexp y" by simp
    then have ey: "fexp y = ilog2 y - 52" and "ilog2 x < ilog2 y"
      using x y by (auto simp: fexp_def split: if_splits)
    let ?p = "of_int 1 * pow2 (ilog2 y)"
    have "x < pow2 (ilog2 x + 1)" using ilog2_bounds [OF x] by simp
    also have "\<dots> \<le> pow2 (ilog2 y)" using \<open>ilog2 x < ilog2 y\<close> by simp
    finally have "rnd x \<le> ?p"
      using lt ey by (intro rnd_le_grid) auto
    also have "?p \<le> rnd y"
      using ilog2_bounds [OF y] ey by (intro grid_le_rnd) auto
    finally show ?thesis .
  qed
qed

section \<open>The operations\<close>

definition float_of_int :: "int \<Rightarrow> float64" where
  "float_of_int n = fl (of_int n)"

fun fdiv :: "float64 \<Rightarrow> float64 \<Rightarrow> float64" where
  "fdiv (Fin a) (Fin b) =
     (if b = 0 then (if a = 0 then NaN else if 0 < a then PInf else NInf) else fl (a / b))"
| "fdiv (Fin a) PInf = Fin 0"
| "fdiv (Fin a) NInf = Fin 0"
| "fdiv PInf (Fin b) = (if 0 \<le> b then PInf else NInf)"
| "fdiv NInf (Fin b) = (if 0 \<le> b then NInf else PInf)"
| "fdiv _ _ = NaN"

fun fadd :: "float64 \<Rightarrow> float64 \<Rightarrow> float64" where
  "fadd (Fin a) (Fin b) = fl (a + b)"
| "fadd (Fin a) y = y"
| "fadd x (Fin b) = x"
| "fadd x y = (if x = y then x else NaN)"

fun fmul :: "float64 \<Rightarrow> float64 \<Rightarrow> float64" where
  "fmul (Fin a) (Fin b) = fl (a * b)"
| "fmul (Fin a) y = (case y of NaN \<Rightarrow> NaN
     | PInf \<Rightarrow> (if a = 0 then NaN else if 0 < a then PInf else NInf)
     | _ \<Rightarrow> (if a = 0 then NaN else if 0 < a then NInf else PInf))"
| "fmul x (Fin b) = (case x of NaN \<Rightarrow> NaN
     | PInf \<Rightarrow> (if b = 0 then NaN else if 0 < b then PInf else NInf)
     | _ \<Rightarrow> (if b = 0 then NaN else if 0 < b then NInf else PInf))"
| "fmul PInf PInf = PInf"
| "fmul NInf NInf = PInf"
| "fmul PInf NInf = NInf"
| "fmul NInf PInf = NInf"
| "fmul _ _ = NaN"

text \<open>
  \<open>int64(f)\<close> truncates towards zero. Out of range and for NaN the language leaves the value to
  the implementation; amd64 yields the smallest integer.
\<close>

fun int64_of_float :: "float64 \<Rightarrow> int" where
  "int64_of_float (Fin r) =
     (let t = (if 0 \<le> r then \<lfloor>r\<rfloor> else \<lceil>r\<rceil>) in if in_int64 t then t else - (2 ^ 63))"
| "int64_of_float _ = - (2 ^ 63)"

lemma fl_of_int: "0 \<le> n \<Longrightarrow> n < 2 ^ 53 \<Longrightarrow> fl (of_int n) = Fin (of_int n)"
proof -
  assume n: "0 \<le> n" "n < 2 ^ 53"
  then have "rat_of_int n < of_int (2 ^ 53)" by (simp only: of_int_less_iff)
  also have "\<dots> \<le> (2 ^ 1024 :: rat)" by simp
  finally have "rat_of_int n < 2 ^ 1024" .
  with n show ?thesis by (simp add: fl_def rnd_of_int)
qed

lemma float_of_int_exact [simp]:
  "0 \<le> n \<Longrightarrow> n < 2 ^ 53 \<Longrightarrow> float_of_int n = Fin (of_int n)"
  by (simp add: float_of_int_def fl_of_int)

lemma fl_bounded:
  assumes "0 \<le> x" and "x \<le> of_int n" and "0 \<le> n" and "n < 2 ^ 53"
  shows "fl x = Fin (rnd x)" and "0 \<le> rnd x" and "rnd x \<le> of_int n"
proof -
  show lo: "0 \<le> rnd x" using assms(1) by (rule rnd_nonneg)
  show hi: "rnd x \<le> of_int n"
    using rnd_mono [OF assms(1,2)] rnd_of_int [OF assms(3,4)] by simp
  have "rat_of_int n < of_int (2 ^ 53)" using assms(4) by (simp only: of_int_less_iff)
  also have "\<dots> \<le> (2 ^ 1024 :: rat)" by simp
  finally have "rnd x < 2 ^ 1024" using hi by simp
  with lo show "fl x = Fin (rnd x)" by (simp add: fl_def)
qed

lemma fl_nonneg: "0 \<le> x \<Longrightarrow> fle (Fin 0) (fl x)"
  using rnd_nonneg [of x] by (auto simp: fl_def Let_def)

lemma fadd_nonneg: "fle (Fin 0) a \<Longrightarrow> fle (Fin 0) b \<Longrightarrow> fle (Fin 0) (fadd a b)"
  by (cases a; cases b) (auto intro: fl_nonneg)

lemma fdiv_nonneg: "0 \<le> a \<Longrightarrow> 0 < b \<Longrightarrow> fle (Fin 0) (fdiv (fl a) (Fin b))"
  using fl_nonneg [of a] by (cases "fl a") (auto intro!: fl_nonneg)

lemma fdiv_unit:
  assumes "0 \<le> a" and "a \<le> b" and "0 < b" and "b < 2 ^ 53"
  shows "fdiv (float_of_int a) (float_of_int b) = Fin (rnd (of_int a / of_int b))"
    and "0 \<le> rnd (of_int a / of_int b)" and "rnd (of_int a / of_int b) \<le> 1"
proof -
  let ?q = "rat_of_int a / of_int b"
  have q: "0 \<le> ?q" "?q \<le> of_int 1" using assms by simp_all
  note b = fl_bounded [OF q]
  show "fdiv (float_of_int a) (float_of_int b) = Fin (rnd ?q)"
    using assms b by simp
  show "0 \<le> rnd ?q" "rnd ?q \<le> 1" using b by simp_all
qed

end
