(* ===== verification/GoTime.thy ===== *)
theory GoTime
  imports Float64
begin

text \<open>
  The part of Go's package \<open>time\<close> the sources use. An instant is the number of nanoseconds
  since the zero \<open>time.Time\<close> (year 1), so \<open>t.IsZero()\<close> is \<open>t = 0\<close>; a \<open>time.Duration\<close> is a signed
  64-bit number of nanoseconds. \<open>ParseDuration\<close> is the library's parser with its overflow
  checks and its floating-point treatment of fractions; every duration of a scenario,
  campaign or failure parameter goes through it.
\<close>

type_synonym instant = int
type_synonym duration = int

abbreviation Nanosecond :: duration where "Nanosecond \<equiv> 1"
abbreviation Millisecond :: duration where "Millisecond \<equiv> 1000000"
abbreviation Second :: duration where "Second \<equiv> 1000000000"
abbreviation Minute :: duration where "Minute \<equiv> 60000000000"
abbreviation Hour :: duration where "Hour \<equiv> 3600000000000"

definition IsZero :: "instant \<Rightarrow> bool" where
  "IsZero t \<longleftrightarrow> t = 0"

definition time_Add :: "instant \<Rightarrow> duration \<Rightarrow> instant" where
  "time_Add t d = t + d"

definition time_Sub :: "instant \<Rightarrow> instant \<Rightarrow> duration" where
  "time_Sub t u = saturate64 (t - u)"

lemma time_Sub_exact: "in_int64 (t - u) \<Longrightarrow> time_Sub t u = t - u"
  by (simp add: time_Sub_def saturate64_id)

text \<open>\<open>Duration.Seconds\<close>: whole seconds plus the remaining nanoseconds as a fraction.\<close>

definition Seconds :: "duration \<Rightarrow> float64" where
  "Seconds d = (let sec = quot_trunc d Second in
     fadd (float_of_int sec) (fdiv (float_of_int (d - sec * Second)) (Fin 1000000000)))"

lemma Seconds_nonneg: "0 \<le> d \<Longrightarrow> fle (Fin 0) (Seconds d)"
proof -
  assume d: "0 \<le> d"
  have q: "quot_trunc d Second = d div Second" using d by (intro quot_trunc_nonneg) simp_all
  have "0 \<le> d - d div Second * Second" by (simp add: minus_div_mult_eq_mod)
  then show ?thesis
    using d unfolding Seconds_def Let_def q float_of_int_def
    by (intro fadd_nonneg fl_nonneg fdiv_nonneg) simp_all
qed

section \<open>Parsing durations\<close>

definition unit_ns :: "string \<Rightarrow> int option" where
  "unit_ns u =
    (if u = ''ns'' then Some 1
     else if u = ''us'' then Some 1000
     else if u = [CHR 0xC2, CHR 0xB5, CHR ''s''] then Some 1000
     else if u = [CHR 0xCE, CHR 0xBC, CHR ''s''] then Some 1000
     else if u = ''ms'' then Some 1000000
     else if u = ''s'' then Some 1000000000
     else if u = ''m'' then Some 60000000000
     else if u = ''h'' then Some 3600000000000
     else None)"

fun leadingInt :: "int \<Rightarrow> string \<Rightarrow> (int \<times> string) option" where
  "leadingInt x [] = Some (x, [])"
| "leadingInt x (c # cs) =
     (if \<not> is_digit c then Some (x, c # cs)
      else if x > 2 ^ 63 div 10 then None
      else (let y = x * 10 + digit_val c in
        if y > 2 ^ 63 then None else leadingInt y cs))"

text \<open>The scale \<open>10 ^ k\<close> of a fraction is exact in binary64: at most 19 digits are kept.\<close>

fun leadingFraction :: "int \<Rightarrow> int \<Rightarrow> bool \<Rightarrow> string \<Rightarrow> int \<times> int \<times> string" where
  "leadingFraction x scale ov [] = (x, scale, [])"
| "leadingFraction x scale ov (c # cs) =
     (if \<not> is_digit c then (x, scale, c # cs)
      else if ov then leadingFraction x scale ov cs
      else if x > (2 ^ 63 - 1) div 10 then leadingFraction x scale True cs
      else (let y = x * 10 + digit_val c in
        if y > 2 ^ 63 then leadingFraction x scale True cs
        else leadingFraction y (scale * 10) ov cs))"

definition fraction_ns :: "int \<Rightarrow> int \<Rightarrow> int \<Rightarrow> int" where
  "fraction_ns f unit scale =
     int64_of_float (fmul (float_of_int f)
       (fdiv (float_of_int unit) (float_of_int scale)))"

definition not_unit_char :: "char \<Rightarrow> bool" where
  "not_unit_char c \<longleftrightarrow> c = CHR ''.'' \<or> is_digit c"

text \<open>One \<open>number unit\<close> group: the value in nanoseconds and the rest of the input.\<close>

definition parse_group :: "string \<Rightarrow> (int \<times> string) option" where
  "parse_group s =
    (if s = [] \<or> \<not> not_unit_char (hd s) then None
     else case leadingInt 0 s of None \<Rightarrow> None | Some (v, s1) \<Rightarrow>
      (let pre = (length s1 \<noteq> length s);
           (f, scale, s2) = (if s1 \<noteq> [] \<and> hd s1 = CHR ''.''
              then leadingFraction 0 1 False (tl s1) else (0, 1, s1));
           post = (s1 \<noteq> [] \<and> hd s1 = CHR ''.'' \<and> length s2 \<noteq> length (tl s1))
       in if \<not> pre \<and> \<not> post then None
       else let u = takeWhile (\<lambda>c. \<not> not_unit_char c) s2;
                rest = dropWhile (\<lambda>c. \<not> not_unit_char c) s2
            in if u = [] then None
               else case unit_ns u of None \<Rightarrow> None | Some unit \<Rightarrow>
                 (if v > 2 ^ 63 div unit then None
                  else let w = (if f > 0 then v * unit + fraction_ns f unit scale else v * unit)
                       in if f > 0 \<and> w > 2 ^ 63 then None else Some (w, rest))))"

lemma leadingInt_length: "leadingInt x s = Some (v, r) \<Longrightarrow> length r \<le> length s"
  by (induction x s rule: leadingInt.induct) (auto simp: Let_def split: if_splits)

lemma leadingFraction_length:
  "leadingFraction x sc ov s = (f, sc', r) \<Longrightarrow> length r \<le> length s"
  by (induction x sc ov s rule: leadingFraction.induct) (auto simp: Let_def split: if_splits)

lemma dropWhile_shorter: "takeWhile P s \<noteq> [] \<Longrightarrow> length (dropWhile P s) < length s"
  by (cases s) (auto simp: length_dropWhile_le le_imp_less_Suc split: if_splits)

lemma parse_group_length:
  assumes "parse_group s = Some (w, r)"
  shows "length r < length s"
proof -
  obtain v s1 f sc s2 where li: "leadingInt 0 s = Some (v, s1)"
    and s2: "(if s1 \<noteq> [] \<and> hd s1 = CHR ''.'' then leadingFraction 0 1 False (tl s1) else (0, 1, s1))
               = (f, sc, s2)"
    and tw: "takeWhile (\<lambda>c. \<not> not_unit_char c) s2 \<noteq> []"
    and r: "r = dropWhile (\<lambda>c. \<not> not_unit_char c) s2"
    using assms unfolding parse_group_def Let_def
    by (auto split: if_splits option.splits prod.splits)
  have "length s2 \<le> length s1"
    using s2 by (auto split: if_splits dest!: leadingFraction_length intro: le_trans)
  with leadingInt_length [OF li] dropWhile_shorter [OF tw] r show ?thesis by simp
qed

function parse_groups :: "int \<Rightarrow> string \<Rightarrow> int option" where
  "parse_groups d s =
    (if s = [] then Some d
     else case parse_group s of None \<Rightarrow> None | Some (w, r) \<Rightarrow>
       (let d' = (d + w) mod 2 ^ 64 in if d' > 2 ^ 63 then None else parse_groups d' r))"
  by pat_completeness auto
termination
  by (relation "measure (\<lambda>(d, s). length s)") (auto dest: parse_group_length)

declare parse_groups.simps [simp del]

definition ParseDuration :: "string \<Rightarrow> duration option" where
  "ParseDuration str =
    (let neg = (str \<noteq> [] \<and> hd str = CHR ''-'');
         s = (if str \<noteq> [] \<and> (hd str = CHR ''-'' \<or> hd str = CHR ''+'') then tl str else str)
     in if s = ''0'' then Some 0
        else if s = [] then None
        else case parse_groups 0 s of None \<Rightarrow> None | Some d \<Rightarrow>
          if neg then Some (- d)
          else if d > 2 ^ 63 - 1 then None else Some d)"

lemma parse_groups_bound:
  "0 \<le> d \<and> d \<le> 2 ^ 63 \<Longrightarrow> parse_groups d s = Some r \<Longrightarrow> 0 \<le> r \<and> r \<le> 2 ^ 63"
proof (induction d s rule: parse_groups.induct)
  case (1 d s)
  show ?case
  proof (cases "s = []")
    case True
    with 1 show ?thesis by (simp add: parse_groups.simps)
  next
    case False
    with "1.prems"(2) obtain w t where g: "parse_group s = Some (w, t)"
      and d': "(d + w) mod 2 ^ 64 \<le> 2 ^ 63"
      and rec: "parse_groups ((d + w) mod 2 ^ 64) t = Some r"
      by (subst (asm) parse_groups.simps)
        (auto simp: Let_def not_less split: option.splits if_splits)
    from "1.IH" [OF False g refl refl] d' rec show ?thesis by simp
  qed
qed

lemma ParseDuration_in_int64: "ParseDuration s = Some d \<Longrightarrow> in_int64 d"
  by (auto simp: ParseDuration_def Let_def in_int64_def
      dest!: parse_groups_bound [rotated] split: option.splits if_splits)

section \<open>Printing durations\<close>

text \<open>
  \<open>Duration.String\<close>: \<open>fmtFrac\<close> takes the low \<open>n\<close> digits of \<open>v\<close> as a fraction without its trailing
  zeros, \<open>pr\<close> says that a digit has been printed and \<open>acc\<close> is what follows. Below a second the
  unit is ns, the micro sign with s, or ms; above it, hours, minutes and seconds.
\<close>

fun fmtFrac :: "nat \<Rightarrow> int \<Rightarrow> bool \<Rightarrow> string \<Rightarrow> string \<times> int" where
  "fmtFrac 0 v pr acc = (if pr then CHR ''.'' # acc else acc, v)"
| "fmtFrac (Suc n) v pr acc =
    (let digit = v mod 10; pr' = (pr \<or> digit \<noteq> 0)
     in fmtFrac n (v div 10) pr' (if pr' then char_of (48 + digit) # acc else acc))"

definition fmt_small :: "nat \<Rightarrow> int \<Rightarrow> string \<Rightarrow> string" where
  "fmt_small prec u unit = (let (frac, v) = fmtFrac prec u False unit in dec_digits v @ frac)"

definition fmt_large :: "int \<Rightarrow> string" where
  "fmt_large u0 =
    (let (frac, u) = fmtFrac 9 u0 False ''s'';
         secs = dec_digits (u mod 60) @ frac; u1 = u div 60
     in if u1 > 0 then
          (let mins = dec_digits (u1 mod 60) @ ''m'' @ secs; u2 = u1 div 60
           in if u2 > 0 then dec_digits u2 @ ''h'' @ mins else mins)
        else secs)"

definition duration_String :: "duration \<Rightarrow> string" where
  "duration_String d =
    (let u = \<bar>d\<bar>;
         s = (if u < Second then
                (if u = 0 then ''0s''
                 else if u < 1000 then fmt_small 0 u ''ns''
                 else if u < Millisecond then fmt_small 3 u [CHR 0xC2, CHR 0xB5, CHR ''s'']
                 else fmt_small 6 u ''ms'')
              else fmt_large u)
     in if d < 0 then CHR ''-'' # s else s)"

end
