(* ===== verification/Registry.thy ===== *)
theory Registry
  imports GoTime
begin

unbundle bit_operations_syntax

text \<open>
  The failure registry of a fleet member (\<open>internal/control/registry.go\<close>) and the failure
  specification of the control protocol (\<open>internal/control/control.go\<close>).

  The registry is the association list of its Go map. Every operation runs under the
  registry's mutex, so a concurrent execution is a sequence of these operations; each takes
  the value \<open>time.Now()\<close> had in it. The loops that range over the map take the order in which
  Go visits the keys, \<open>ks\<close>, as an argument. A seeded \<open>rand.Rand\<close> is its seed together with the number
  of values drawn so far; \<open>draw seed n\<close> is the \<open>n\<close>-th \<open>Float64()\<close> of that source. \<open>net.ParseCIDR\<close> is
  the argument \<open>pc\<close>; \<open>IPNet.Contains\<close> is modelled on byte lists.
\<close>

section \<open>The failure specification\<close>

record FailureSpec =
  fs_Type :: string
  fs_Host :: string
  fs_Path :: string
  fs_Duration :: duration
  fs_Rate :: float64
  fs_Params :: params
  fs_SourceCIDRs :: "string list"

definition specOf :: "string \<Rightarrow> string \<Rightarrow> string \<Rightarrow> FailureSpec" where
  "specOf t h p = \<lparr>fs_Type = t, fs_Host = h, fs_Path = p, fs_Duration = 0, fs_Rate = Fin 0,
     fs_Params = [], fs_SourceCIDRs = []\<rparr>"

definition failureKey :: "FailureSpec \<Rightarrow> string" where
  "failureKey s = fs_Type s @ '':'' @ fs_Host s @ '':'' @ fs_Path s"

text \<open>
  \<open>for _, c := range s\<close> ranges over the runes of a string: its bytes are read as UTF-8, and a byte that
  starts no valid encoding is U+FFFD. \<open>rune_at\<close> gives the first rune and how many bytes follow its
  first one.
\<close>

definition byte_in :: "nat list \<Rightarrow> nat \<Rightarrow> nat \<Rightarrow> nat \<Rightarrow> bool" where
  "byte_in bs i lo hi \<longleftrightarrow> i < length bs \<and> lo \<le> bs ! i \<and> bs ! i \<le> hi"

definition rune_at :: "nat \<Rightarrow> nat list \<Rightarrow> nat \<times> nat" where
  "rune_at b bs =
    (if b < 128 then (b, 0)
     else if 194 \<le> b \<and> b \<le> 223 \<and> byte_in bs 0 128 191 then ((b - 192) * 64 + (bs ! 0 - 128), 1)
     else if 224 \<le> b \<and> b \<le> 239 \<and> byte_in bs 0 (if b = 224 then 160 else 128) (if b = 237 then 159 else 191) \<and> byte_in bs 1 128 191
     then (((b - 224) * 64 + (bs ! 0 - 128)) * 64 + (bs ! 1 - 128), 2)
     else if 240 \<le> b \<and> b \<le> 244 \<and> byte_in bs 0 (if b = 240 then 144 else 128) (if b = 244 then 143 else 191) \<and>
       byte_in bs 1 128 191 \<and> byte_in bs 2 128 191
     then ((((b - 240) * 64 + (bs ! 0 - 128)) * 64 + (bs ! 1 - 128)) * 64 + (bs ! 2 - 128), 3)
     else (65533, 0))"

fun runes :: "nat list \<Rightarrow> nat list" where
  "runes [] = []"
| "runes (b # bs) = fst (rune_at b bs) # runes (drop (snd (rune_at b bs)) bs)"

definition strHash :: "string \<Rightarrow> 64 word" where
  "strHash s = foldl (\<lambda>h c. h * 31 + of_nat c) 0 (runes (map of_char s))"

section \<open>Addresses\<close>

record ipnet =
  ipn_IP :: "byte list"
  ipn_Mask :: "byte list"

definition networkNumberAndMask :: "ipnet \<Rightarrow> (byte list \<times> byte list) option" where
  "networkNumberAndMask n =
    (let ip = (case To4 (ipn_IP n) of Some x \<Rightarrow> Some x
               | None \<Rightarrow> if length (ipn_IP n) = 16 then Some (ipn_IP n) else None)
     in case ip of None \<Rightarrow> None | Some i \<Rightarrow>
       (if length (ipn_Mask n) = 4 then (if length i = 4 then Some (i, ipn_Mask n) else None)
        else if length (ipn_Mask n) = 16
             then Some (i, if length i = 4 then drop 12 (ipn_Mask n) else ipn_Mask n)
        else None))"

definition net_Contains :: "ipnet \<Rightarrow> byte list \<Rightarrow> bool" where
  "net_Contains n ip0 =
    (let ip = (case To4 ip0 of Some x \<Rightarrow> x | None \<Rightarrow> ip0)
     in case networkNumberAndMask n of None \<Rightarrow> ip = []
        | Some (nn, m) \<Rightarrow> length ip = length nn \<and>
            list_all (\<lambda>((a, b), c). a AND b = c AND b) (zip (zip nn m) ip))"

section \<open>The registry\<close>

record activeFailure =
  af_spec :: FailureSpec
  af_expires :: instant
  af_rng :: "(64 word \<times> nat) option"
  af_nets :: "ipnet list"

type_synonym registry = "(string \<times> activeFailure) list"
type_synonym draws = "64 word \<Rightarrow> nat \<Rightarrow> rat"
type_synonym cidr_parser = "string \<Rightarrow> ipnet option"

definition NewRegistry :: registry where
  "NewRegistry = []"

definition registry_Set ::
  "cidr_parser \<Rightarrow> instant \<Rightarrow> registry \<Rightarrow> FailureSpec \<Rightarrow> 64 word \<Rightarrow> registry" where
  "registry_Set pc now r spec seed =
    (let rate = (if fle (fs_Rate spec) (Fin 0) \<or> fle (Fin 1) (fs_Rate spec)
                 then Fin 1 else fs_Rate spec);
         af = \<lparr>af_spec = spec,
               af_expires = time_Add now (fs_Duration spec),
               af_rng = (if flt rate (Fin 1)
                         then Some (seed XOR strHash (fs_Type spec), 0) else None),
               af_nets = List.map_filter pc (fs_SourceCIDRs spec)\<rparr>
     in AList.update (failureKey spec) af r)"

definition registry_Remove :: "registry \<Rightarrow> string \<Rightarrow> string \<Rightarrow> string \<Rightarrow> registry" where
  "registry_Remove r t h p = AList.delete (failureKey (specOf t h p)) r"

fun registry_Active :: "instant \<Rightarrow> registry \<Rightarrow> string list \<Rightarrow> FailureSpec list \<times> registry" where
  "registry_Active now r [] = ([], r)"
| "registry_Active now r (k # ks) =
    (case map_of r k of
       None \<Rightarrow> registry_Active now r ks
     | Some af \<Rightarrow>
         (if now > af_expires af then registry_Active now (AList.delete k r) ks
          else (let (out, r') = registry_Active now r ks in (af_spec af # out, r'))))"

text \<open>
  The rate test shared by \<open>Lookup\<close> and \<open>LookupForIP\<close>: draw once when the entry has a source,
  and report nothing when the value is not below the rate.
\<close>

definition roll :: "draws \<Rightarrow> registry \<Rightarrow> string \<Rightarrow> activeFailure \<Rightarrow> FailureSpec option \<times> registry" where
  "roll draw r k af =
    (case af_rng af of
       None \<Rightarrow> (Some (af_spec af), r)
     | Some (seed, n) \<Rightarrow>
         (let r' = AList.update k (af\<lparr>af_rng := Some (seed, Suc n)\<rparr>) r
          in if fle (fs_Rate (af_spec af)) (Fin (draw seed n)) then (None, r')
             else (Some (af_spec af), r')))"

definition candidates :: "string \<Rightarrow> string \<Rightarrow> string \<Rightarrow> string list" where
  "candidates t h p =
    [failureKey (specOf t h p), failureKey (specOf t h []), failureKey (specOf t [] [])]"

fun lookup_loop ::
  "draws \<Rightarrow> instant \<Rightarrow> registry \<Rightarrow> string list \<Rightarrow> FailureSpec option \<times> registry" where
  "lookup_loop draw now r [] = (None, r)"
| "lookup_loop draw now r (k # ks) =
    (case map_of r k of
       None \<Rightarrow> lookup_loop draw now r ks
     | Some af \<Rightarrow>
         (if now > af_expires af then lookup_loop draw now (AList.delete k r) ks
          else if fs_SourceCIDRs (af_spec af) \<noteq> [] then lookup_loop draw now r ks
          else roll draw r k af))"

definition registry_Lookup ::
  "draws \<Rightarrow> instant \<Rightarrow> registry \<Rightarrow> string \<Rightarrow> string \<Rightarrow> string \<Rightarrow> FailureSpec option \<times> registry" where
  "registry_Lookup draw now r t h p = lookup_loop draw now r (candidates t h p)"

fun registry_LookupForIP ::
  "draws \<Rightarrow> instant \<Rightarrow> registry \<Rightarrow> string list \<Rightarrow> byte list \<Rightarrow> FailureSpec option \<times> registry" where
  "registry_LookupForIP draw now r [] ip = (None, r)"
| "registry_LookupForIP draw now r (k # ks) ip =
    (case map_of r k of
       None \<Rightarrow> registry_LookupForIP draw now r ks ip
     | Some af \<Rightarrow>
         (if now > af_expires af then registry_LookupForIP draw now (AList.delete k r) ks ip
          else if list_ex (\<lambda>n. net_Contains n ip) (af_nets af) then roll draw r k af
          else registry_LookupForIP draw now r ks ip))"

section \<open>What a client of a registry may rely on\<close>

text \<open>
  \<open>view r t k\<close> is the failure stored under key \<open>k\<close> that is still active at time \<open>t\<close>.
  \<open>first_live\<close> is the documented match priority: exact, then host wildcard, then full
  wildcard, geo-restricted failures left out.
\<close>

fun first_live_in :: "(string \<Rightarrow> FailureSpec option) \<Rightarrow> string list \<Rightarrow> FailureSpec option" where
  "first_live_in v [] = None"
| "first_live_in v (k # ks) = (case v k of
     Some s \<Rightarrow> (if fs_SourceCIDRs s = [] then Some s else first_live_in v ks)
   | None \<Rightarrow> first_live_in v ks)"

definition first_live ::
  "(string \<Rightarrow> FailureSpec option) \<Rightarrow> string \<Rightarrow> string \<Rightarrow> string \<Rightarrow> FailureSpec option" where
  "first_live v t h p = first_live_in v (candidates t h p)"

locale failure_store =
  fixes view :: "'r \<Rightarrow> instant \<Rightarrow> string \<Rightarrow> FailureSpec option"
    and set :: "instant \<Rightarrow> 'r \<Rightarrow> FailureSpec \<Rightarrow> 64 word \<Rightarrow> 'r"
    and remove :: "'r \<Rightarrow> string \<Rightarrow> string \<Rightarrow> string \<Rightarrow> 'r"
    and lookup :: "instant \<Rightarrow> 'r \<Rightarrow> string \<Rightarrow> string \<Rightarrow> string \<Rightarrow> FailureSpec option \<times> 'r"
  assumes view_set: "view (set now r s seed) t k =
      (if k = failureKey s then (if t > now + fs_Duration s then None else Some s)
       else view r t k)"
    and view_remove: "view (remove r ty h p) t k =
      (if k = failureKey (specOf ty h p) then None else view r t k)"
    and view_lookup: "now \<le> t \<Longrightarrow> view (snd (lookup now r ty h p)) t k = view r t k"
    and lookup_Some: "fst (lookup now r ty h p) = Some s \<Longrightarrow>
      first_live (view r now) ty h p = Some s"
begin

lemma lookup_None: "first_live (view r now) ty h p = None \<Longrightarrow> fst (lookup now r ty h p) = None"
  by (metis lookup_Some option.exhaust)

lemma lookup_inactive:
  assumes "\<And>k. k \<in> List.set (candidates ty h p) \<Longrightarrow> view r now k = None"
  shows "fst (lookup now r ty h p) = None"
  by (rule lookup_None) (simp add: first_live_def candidates_def assms)

lemma set_expires: "t > now + fs_Duration s \<Longrightarrow> view (set now r s seed) t (failureKey s) = None"
  by (simp add: view_set)

lemma set_then_remove:
  "view (remove (set now r s seed) (fs_Type s) (fs_Host s) (fs_Path s)) t (failureKey s) = None"
  by (simp add: view_remove failureKey_def specOf_def)

lemma view_lookups:
  assumes "now \<le> t"
  shows "view (foldl (\<lambda>r (ty, h, p). snd (lookup now r ty h p)) r qs) t k = view r t k"
  using assms by (induction qs arbitrary: r) (auto simp: view_lookup split: prod.splits)

end

definition registry_view :: "registry \<Rightarrow> instant \<Rightarrow> string \<Rightarrow> FailureSpec option" where
  "registry_view r t k = (case map_of r k of None \<Rightarrow> None
     | Some af \<Rightarrow> if t > af_expires af then None else Some (af_spec af))"

lemma view_delete_expired:
  "map_of r k = Some af \<Longrightarrow> now > af_expires af \<Longrightarrow> now \<le> t \<Longrightarrow>
     registry_view (AList.delete k r) t = registry_view r t"
  by (auto simp: registry_view_def fun_eq_iff)

lemma view_roll:
  "map_of r k = Some af \<Longrightarrow> registry_view (snd (roll draw r k af)) = registry_view r"
  by (auto simp: registry_view_def roll_def fun_eq_iff Let_def split: option.splits)

lemma roll_Some: "fst (roll draw r k af) = Some s \<Longrightarrow> s = af_spec af"
  by (auto simp: roll_def Let_def split: option.splits if_splits)

lemma view_lookup_loop:
  "now \<le> t \<Longrightarrow> registry_view (snd (lookup_loop draw now r ks)) t = registry_view r t"
proof (induction draw now r ks rule: lookup_loop.induct)
  case (1 draw now r)
  then show ?case by simp
next
  case (2 draw now r k ks)
  then show ?case
    by (cases "map_of r k") (auto simp: view_delete_expired view_roll)
qed

lemma lookup_loop_Some:
  "fst (lookup_loop draw now r ks) = Some s \<Longrightarrow> first_live_in (registry_view r now) ks = Some s"
proof (induction draw now r ks rule: lookup_loop.induct)
  case (1 draw now r)
  then show ?case by simp
next
  case (2 draw now r k ks)
  show ?case
  proof (cases "map_of r k")
    case None
    with 2 show ?thesis by (simp add: registry_view_def)
  next
    case (Some af)
    show ?thesis
    proof (cases "now > af_expires af")
      case True
      with 2 Some have "first_live_in (registry_view (AList.delete k r) now) ks = Some s" by simp
      then have "first_live_in (registry_view r now) ks = Some s"
        by (simp add: view_delete_expired [OF Some True])
      moreover have "registry_view r now k = None" using Some True by (simp add: registry_view_def)
      ultimately show ?thesis by simp
    next
      case False
      then have v: "registry_view r now k = Some (af_spec af)"
        using Some by (simp add: registry_view_def)
      then show ?thesis
        using 2 Some False by (auto split: if_splits dest: roll_Some)
    qed
  qed
qed

lemma lookup_loop_other:
  "k' \<notin> set ks \<Longrightarrow> map_of (snd (lookup_loop draw now r ks)) k' = map_of r k'"
proof (induction draw now r ks rule: lookup_loop.induct)
  case (1 draw now r)
  then show ?case by simp
next
  case (2 draw now r k ks)
  then show ?case by (cases "map_of r k") (auto simp: roll_def Let_def split: option.splits)
qed

lemma lookup_loop_cong:
  "\<forall>k \<in> set ks. map_of r k = map_of r' k \<Longrightarrow>
     fst (lookup_loop draw now r ks) = fst (lookup_loop draw now r' ks)"
proof (induction ks arbitrary: r r')
  case Nil
  then show ?case by simp
next
  case (Cons k ks)
  show ?case
  proof (cases "map_of r' k")
    case None
    with Cons show ?thesis by simp
  next
    case (Some af)
    then have k: "map_of r k = Some af" using Cons.prems by simp
    have del: "fst (lookup_loop draw now (AList.delete k r) ks) = fst (lookup_loop draw now (AList.delete k r') ks)"
      using Cons.prems by (intro Cons.IH) simp
    have "fst (roll draw r k af) = fst (roll draw r' k af)"
      by (simp add: roll_def Let_def split: option.split)
    then show ?thesis using Some k del Cons by simp
  qed
qed

interpretation reg: failure_store registry_view "registry_Set pc" registry_Remove "registry_Lookup draw"
  for pc draw
proof unfold_locales
  fix now r s seed t k
  show "registry_view (registry_Set pc now r s seed) t k =
      (if k = failureKey s then (if t > now + fs_Duration s then None else Some s)
       else registry_view r t k)"
    by (simp add: registry_view_def registry_Set_def Let_def time_Add_def)
next
  fix r ty h p t k
  show "registry_view (registry_Remove r ty h p) t k =
      (if k = failureKey (specOf ty h p) then None else registry_view r t k)"
    by (simp add: registry_view_def registry_Remove_def)
next
  fix now t :: instant and r ty h p k
  assume "now \<le> t"
  then show "registry_view (snd (registry_Lookup draw now r ty h p)) t k = registry_view r t k"
    by (simp add: registry_Lookup_def view_lookup_loop)
next
  fix now r ty h p s
  assume "fst (registry_Lookup draw now r ty h p) = Some s"
  then show "first_live (registry_view r now) ty h p = Some s"
    by (simp add: registry_Lookup_def first_live_def lookup_loop_Some)
qed

section \<open>Executions and their history\<close>

text \<open>
  An execution is a sequence of operations with the time each of them read. The abstract
  registry is the history itself: what is active under a key is what the most recent
  activation or removal of that key says, until its duration has passed.
\<close>

datatype reg_op =
    RSet FailureSpec "64 word"
  | RRemove string string string
  | RLookup string string string
  | RLookupForIP "byte list" "string list"
  | RActive "string list"

fun registry_step :: "cidr_parser \<Rightarrow> draws \<Rightarrow> registry \<Rightarrow> instant \<times> reg_op \<Rightarrow> registry" where
  "registry_step pc draw r (now, RSet s seed) = registry_Set pc now r s seed"
| "registry_step pc draw r (now, RRemove t h p) = registry_Remove r t h p"
| "registry_step pc draw r (now, RLookup t h p) = snd (registry_Lookup draw now r t h p)"
| "registry_step pc draw r (now, RLookupForIP ip ks) = snd (registry_LookupForIP draw now r ks ip)"
| "registry_step pc draw r (now, RActive ks) = snd (registry_Active now r ks)"

definition registry_run :: "cidr_parser \<Rightarrow> draws \<Rightarrow> (instant \<times> reg_op) list \<Rightarrow> registry" where
  "registry_run pc draw ops = foldl (registry_step pc draw) NewRegistry ops"

text \<open>The history is read newest operation first.\<close>

fun history_view :: "(instant \<times> reg_op) list \<Rightarrow> instant \<Rightarrow> string \<Rightarrow> FailureSpec option" where
  "history_view [] now k = None"
| "history_view ((t, op) # h) now k = (case op of
     RSet s seed \<Rightarrow> (if failureKey s = k
        then (if now > t + fs_Duration s then None else Some s) else history_view h now k)
   | RRemove ty ho p \<Rightarrow> (if failureKey (specOf ty ho p) = k then None else history_view h now k)
   | _ \<Rightarrow> history_view h now k)"

lemma view_LookupForIP:
  "now \<le> t \<Longrightarrow> registry_view (snd (registry_LookupForIP draw now r ks ip)) t = registry_view r t"
proof (induction draw now r ks ip rule: registry_LookupForIP.induct)
  case (1 draw now r ip)
  then show ?case by simp
next
  case (2 draw now r k ks ip)
  then show ?case
    by (cases "map_of r k") (auto simp: view_delete_expired view_roll)
qed

lemma view_Active:
  "now \<le> t \<Longrightarrow> registry_view (snd (registry_Active now r ks)) t = registry_view r t"
proof (induction now r ks rule: registry_Active.induct)
  case (1 now r)
  then show ?case by simp
next
  case (2 now r k ks)
  then show ?case
    by (cases "map_of r k") (auto simp: view_delete_expired split: prod.splits)
qed

lemma registry_step_view:
  assumes "fst op \<le> now"
  shows "registry_view (registry_step pc draw r op) now k =
    (case snd op of
       RSet s seed \<Rightarrow> (if failureKey s = k
          then (if now > fst op + fs_Duration s then None else Some s) else registry_view r now k)
     | RRemove ty h p \<Rightarrow> (if failureKey (specOf ty h p) = k then None else registry_view r now k)
     | _ \<Rightarrow> registry_view r now k)"
proof (cases op)
  case (Pair t o')
  with assms show ?thesis
    by (cases o') (auto simp: reg.view_set reg.view_remove reg.view_lookup
        view_LookupForIP view_Active)
qed

lemma history_refinement:
  assumes "\<forall>op \<in> set ops. fst op \<le> now"
  shows "registry_view (registry_run pc draw ops) now k = history_view (rev ops) now k"
  using assms
proof (induction ops rule: rev_induct)
  case Nil
  then show ?case by (simp add: registry_run_def NewRegistry_def registry_view_def)
next
  case (snoc op ops)
  obtain t o' where op: "op = (t, o')" by (cases op)
  have "registry_view (registry_run pc draw ops) now k = history_view (rev ops) now k"
    using snoc by simp
  then show ?case
    using snoc.prems registry_step_view [of op now pc draw "registry_run pc draw ops" k]
    by (simp add: registry_run_def op split: reg_op.splits)
qed

section \<open>Well-formed registries\<close>

text \<open>
  Every entry sits under its own key, holds exactly the networks its CIDR strings parse to,
  and has a random source just when its rate is a proper fraction.
\<close>

fun entry_wf :: "cidr_parser \<Rightarrow> string \<times> activeFailure \<Rightarrow> bool" where
  "entry_wf pc (k, af) \<longleftrightarrow>
     k = failureKey (af_spec af) \<and>
     af_nets af = List.map_filter pc (fs_SourceCIDRs (af_spec af)) \<and>
     (af_rng af \<noteq> None \<longleftrightarrow>
        flt (Fin 0) (fs_Rate (af_spec af)) \<and> flt (fs_Rate (af_spec af)) (Fin 1))"

definition registry_wf :: "cidr_parser \<Rightarrow> registry \<Rightarrow> bool" where
  "registry_wf pc r \<longleftrightarrow> distinct (map fst r) \<and> list_all (entry_wf pc) r"

lemma fle_flt_total:
  "x \<noteq> NaN \<Longrightarrow> \<not> fle x (Fin a) \<longleftrightarrow> flt (Fin a) x"
  "x \<noteq> NaN \<Longrightarrow> \<not> fle (Fin a) x \<longleftrightarrow> flt x (Fin a)"
  by (cases x; auto simp: fle_def)+

lemma rate_rng_iff:
  "flt (if fle x (Fin 0) \<or> fle (Fin 1) x then Fin 1 else x) (Fin 1) \<longleftrightarrow>
     flt (Fin 0) x \<and> flt x (Fin 1)"
  by (cases x) (auto simp: fle_def)

lemma list_all_update:
  assumes "list_all P r" and "P (k, v)"
  shows "list_all P (AList.update k v r)"
  using assms by (induction r) auto

lemma list_all_delete: "list_all P r \<Longrightarrow> list_all P (AList.delete k r)"
  by (auto simp: list_all_iff AList.delete_eq)

lemma map_of_list_all: "list_all P r \<Longrightarrow> map_of r k = Some v \<Longrightarrow> P (k, v)"
  by (auto simp: list_all_iff dest: map_of_SomeD)

lemma registry_wf_delete: "registry_wf pc r \<Longrightarrow> registry_wf pc (AList.delete k r)"
  by (simp add: registry_wf_def list_all_delete distinct_delete)

lemma registry_wf_update:
  "registry_wf pc r \<Longrightarrow> entry_wf pc (k, af) \<Longrightarrow> registry_wf pc (AList.update k af r)"
  by (simp add: registry_wf_def list_all_update distinct_update)

lemma registry_wf_entry: "registry_wf pc r \<Longrightarrow> map_of r k = Some af \<Longrightarrow> entry_wf pc (k, af)"
  unfolding registry_wf_def by (blast intro: map_of_list_all)

lemma registry_wf_roll:
  "registry_wf pc r \<Longrightarrow> map_of r k = Some af \<Longrightarrow> registry_wf pc (snd (roll draw r k af))"
  using registry_wf_entry [of pc r k af]
  by (auto simp: roll_def Let_def entry_wf.simps split: option.splits intro!: registry_wf_update)

lemma registry_wf_Set: "registry_wf pc r \<Longrightarrow> registry_wf pc (registry_Set pc now r s seed)"
  unfolding registry_Set_def Let_def
  by (rule registry_wf_update) (auto simp: entry_wf.simps rate_rng_iff)

lemma registry_wf_lookup_loop: "registry_wf pc r \<Longrightarrow> registry_wf pc (snd (lookup_loop draw now r ks))"
proof (induction draw now r ks rule: lookup_loop.induct)
  case (1 draw now r)
  then show ?case by simp
next
  case (2 draw now r k ks)
  then show ?case
    by (cases "map_of r k") (auto simp: registry_wf_delete registry_wf_roll)
qed

lemma registry_wf_LookupForIP:
  "registry_wf pc r \<Longrightarrow> registry_wf pc (snd (registry_LookupForIP draw now r ks ip))"
proof (induction draw now r ks ip rule: registry_LookupForIP.induct)
  case (1 draw now r ip)
  then show ?case by simp
next
  case (2 draw now r k ks ip)
  then show ?case
    by (cases "map_of r k") (auto simp: registry_wf_delete registry_wf_roll)
qed

lemma registry_wf_Active: "registry_wf pc r \<Longrightarrow> registry_wf pc (snd (registry_Active now r ks))"
proof (induction now r ks rule: registry_Active.induct)
  case (1 now r)
  then show ?case by simp
next
  case (2 now r k ks)
  then show ?case
    by (cases "map_of r k") (auto simp: registry_wf_delete split: prod.splits)
qed

interpretation reg_inv: invariant_machine "registry_step pc draw" "registry_wf pc" for pc draw
proof unfold_locales
  fix r and op :: "instant \<times> reg_op"
  assume wf: "registry_wf pc r"
  obtain t o' where "op = (t, o')" by (cases op)
  then show "registry_wf pc (registry_step pc draw r op)"
    using wf by (cases o') (simp_all add: registry_wf_Set registry_Remove_def registry_wf_delete
        registry_Lookup_def registry_wf_lookup_loop registry_wf_LookupForIP registry_wf_Active)
qed

lemma registry_wf_run: "registry_wf pc (registry_run pc draw ops)"
  unfolding registry_run_def
  by (rule reg_inv.run_inv) (simp add: registry_wf_def NewRegistry_def)

section \<open>What the read operations return\<close>

definition fractional :: "float64 \<Rightarrow> bool" where
  "fractional x \<longleftrightarrow> flt (Fin 0) x \<and> flt x (Fin 1)"

lemma roll_cases:
  assumes "entry_wf pc (k, af)"
  shows "fst (roll draw r k af) = Some (af_spec af) \<or>
    fst (roll draw r k af) = None \<and> fractional (fs_Rate (af_spec af))"
  using assms by (auto simp: roll_def Let_def entry_wf.simps fractional_def split: option.splits)

lemma lookup_loop_complete:
  "registry_wf pc r \<Longrightarrow> first_live_in (registry_view r now) ks = Some s \<Longrightarrow>
     fst (lookup_loop draw now r ks) = Some s \<or>
     fst (lookup_loop draw now r ks) = None \<and> fractional (fs_Rate s)"
proof (induction draw now r ks rule: lookup_loop.induct)
  case (1 draw now r)
  then show ?case by simp
next
  case (2 draw now r k ks)
  show ?case
  proof (cases "map_of r k")
    case None
    with 2 show ?thesis by (simp add: registry_view_def)
  next
    case (Some af)
    show ?thesis
    proof (cases "now > af_expires af")
      case True
      then have "registry_view r now k = None" using Some by (simp add: registry_view_def)
      with "2.prems" have "first_live_in (registry_view (AList.delete k r) now) ks = Some s"
        by (simp add: view_delete_expired [OF Some True])
      with "2.IH"(2) [OF Some True] "2.prems"(1) Some True show ?thesis
        by (simp add: registry_wf_delete)
    next
      case False
      then have v: "registry_view r now k = Some (af_spec af)"
        using Some by (simp add: registry_view_def)
      show ?thesis
        using 2 Some False v roll_cases [OF registry_wf_entry [OF "2.prems"(1) Some], of draw r]
        by (auto split: if_splits)
    qed
  qed
qed

lemma first_live_in_Some:
  "first_live_in v ks = Some s \<Longrightarrow> fs_SourceCIDRs s = [] \<and> (\<exists>k \<in> set ks. v k = Some s)"
  by (induction ks) (auto split: option.splits if_splits)

lemma view_key: "registry_wf pc r \<Longrightarrow> registry_view r now k = Some s \<Longrightarrow> k = failureKey s"
  by (auto simp: registry_view_def entry_wf.simps split: option.splits if_splits
      dest: registry_wf_entry)

lemma Lookup_live:
  assumes "registry_wf pc r" and "fst (registry_Lookup draw now r t h p) = Some s"
  shows "registry_view r now (failureKey s) = Some s \<and> fs_SourceCIDRs s = []"
proof -
  have "first_live_in (registry_view r now) (candidates t h p) = Some s"
    using assms(2) by (simp add: registry_Lookup_def lookup_loop_Some)
  then obtain k where "registry_view r now k = Some s" and "fs_SourceCIDRs s = []"
    by (auto dest: first_live_in_Some)
  with view_key [OF assms(1)] show ?thesis by blast
qed

lemma LookupForIP_live:
  "registry_wf pc r \<Longrightarrow> fst (registry_LookupForIP draw now r ks ip) = Some s \<Longrightarrow>
     registry_view r now (failureKey s) = Some s \<and>
     (\<exists>c \<in> set (fs_SourceCIDRs s). \<exists>n. pc c = Some n \<and> net_Contains n ip)"
proof (induction draw now r ks ip rule: registry_LookupForIP.induct)
  case (1 draw now r ip)
  then show ?case by simp
next
  case (2 draw now r k ks ip)
  show ?case
  proof (cases "map_of r k")
    case None
    with 2 show ?thesis by simp
  next
    case (Some af)
    note wf = registry_wf_entry [OF "2.prems"(1) Some]
    show ?thesis
    proof (cases "now > af_expires af")
      case True
      with "2.IH"(2) [OF Some True] "2.prems" Some show ?thesis
        by (simp add: registry_wf_delete view_delete_expired [OF Some True])
    next
      case False
      show ?thesis
      proof (cases "list_ex (\<lambda>n. net_Contains n ip) (af_nets af)")
        case True
        have s: "s = af_spec af"
          using "2.prems"(2) Some False True by (auto dest: roll_Some)
        have "registry_view r now (failureKey s) = Some s"
          using Some False wf s by (auto simp: registry_view_def entry_wf.simps)
        then show ?thesis using True wf s
          by (fastforce simp: entry_wf.simps list_ex_iff in_map_filter)
      next
        case nonet: False
        with "2.IH"(3) [OF Some False] "2.prems" Some False show ?thesis by simp
      qed
    qed
  qed
qed

lemma Active_live:
  "registry_wf pc r \<Longrightarrow> s \<in> set (fst (registry_Active now r ks)) \<Longrightarrow>
     registry_view r now (failureKey s) = Some s"
proof (induction now r ks rule: registry_Active.induct)
  case (1 now r)
  then show ?case by simp
next
  case (2 now r k ks)
  show ?case
  proof (cases "map_of r k")
    case None
    with 2 show ?thesis by simp
  next
    case (Some af)
    show ?thesis
    proof (cases "now > af_expires af")
      case True
      with "2.IH"(2) [OF Some True] "2.prems" Some show ?thesis
        by (simp add: registry_wf_delete view_delete_expired [OF Some True])
    next
      case False
      have "registry_view r now (failureKey (af_spec af)) = Some (af_spec af)"
        using registry_wf_entry [OF "2.prems"(1) Some] Some False
        by (auto simp: registry_view_def entry_wf.simps)
      then show ?thesis
        using 2 Some False by (auto split: prod.splits)
    qed
  qed
qed

lemma history_view_expired:
  assumes "\<forall>op \<in> set h1. \<forall>s' seed'. snd op = RSet s' seed' \<longrightarrow> failureKey s' \<noteq> failureKey s"
    and "t + fs_Duration s < now"
  shows "history_view (h1 @ (t, RSet s seed) # h2) now (failureKey s) = None"
  using assms
proof (induction h1)
  case Nil
  then show ?case by simp
next
  case (Cons op h1)
  then show ?case by (cases op; cases "snd op") (auto split: reg_op.splits)
qed

section \<open>Properties\<close>

text \<open>
  C1. Lookup follows the history: after any sequence of operations on a fresh registry, a
  lookup at a time not before theirs returns the failure that the documented match
  priority (exact, host wildcard, full wildcard; geo-restricted failures left out) selects
  from the activations and removals so far, or nothing when none is active; a failure that
  is selected is withheld only if its rate is a proper fraction.
\<close>

theorem lookup_follows_history:
  assumes "\<forall>op \<in> set ops. fst op \<le> now"
  shows "case first_live (history_view (rev ops) now) t h p of
      None \<Rightarrow> fst (registry_Lookup draw now (registry_run pc draw ops) t h p) = None
    | Some s \<Rightarrow> fst (registry_Lookup draw now (registry_run pc draw ops) t h p) = Some s \<or>
        fst (registry_Lookup draw now (registry_run pc draw ops) t h p) = None \<and>
        flt (Fin 0) (fs_Rate s) \<and> flt (fs_Rate s) (Fin 1)"
proof -
  let ?r = "registry_run pc draw ops"
  have v: "registry_view ?r now = history_view (rev ops) now"
    using history_refinement [OF assms] by (simp add: fun_eq_iff)
  show ?thesis
  proof (cases "first_live (history_view (rev ops) now) t h p")
    case None
    then show ?thesis using reg.lookup_None [of ?r now t h p draw] v by simp
  next
    case (Some s)
    then have "first_live_in (registry_view ?r now) (candidates t h p) = Some s"
      using v by (simp add: first_live_def)
    from lookup_loop_complete [OF registry_wf_run this, of draw] Some show ?thesis
      by (simp add: registry_Lookup_def fractional_def)
  qed
qed

definition demo_spec :: FailureSpec where
  "demo_spec = \<lparr>fs_Type = ''t'', fs_Host = ''h'', fs_Path = [], fs_Duration = 10,
     fs_Rate = Fin 1, fs_Params = [], fs_SourceCIDRs = []\<rparr>"

theorem lookup_follows_history_witness:
  "fst (registry_Lookup (\<lambda>_ _. 0) 8 (registry_run (\<lambda>_. None) (\<lambda>_ _. 0)
      [(1, RSet demo_spec 7), (3, RRemove ''u'' ''h'' [])]) ''t'' ''h'' ''/x'') = Some demo_spec"
  using lookup_follows_history [where ops = "[(1, RSet demo_spec 7), (3, RRemove ''u'' ''h'' [])]"
      and now = 8 and t = "''t''" and h = "''h''" and p = "''/x''" and draw = "\<lambda>_ _. 0"
      and pc = "\<lambda>_. None"]
  by (simp add: first_live_def candidates_def failureKey_def specOf_def demo_spec_def)

text \<open>
  C22. The safety net: once the duration of an activated failure has elapsed, and unless its
  key is activated again, no read operation returns a failure under that key, whatever
  other operations ran in between and even though nobody deactivated it.
\<close>

theorem failure_expires:
  assumes "\<forall>op \<in> set (ops1 @ (t0, RSet s seed) # ops2). fst op \<le> now"
    and "\<forall>op \<in> set ops2. \<forall>s' seed'. snd op = RSet s' seed' \<longrightarrow> failureKey s' \<noteq> failureKey s"
    and "t0 + fs_Duration s < now"
    and "r = registry_run pc draw (ops1 @ (t0, RSet s seed) # ops2)"
    and "fst (registry_Lookup draw now r t h p) = Some s' \<or>
         fst (registry_LookupForIP draw now r ks ip) = Some s' \<or>
         s' \<in> set (fst (registry_Active now r ks))"
  shows "failureKey s' \<noteq> failureKey s"
proof
  assume eq: "failureKey s' = failureKey s"
  have wf: "registry_wf pc r" using assms(4) registry_wf_run by simp
  have "registry_view r now (failureKey s') = Some s'"
    using assms(5) Lookup_live [OF wf] LookupForIP_live [OF wf] Active_live [OF wf] by blast
  moreover have "registry_view r now (failureKey s) = None"
    using history_refinement [OF assms(1), of pc draw "failureKey s"] assms(2,3,4)
    by (simp add: history_view_expired)
  ultimately show False using eq by simp
qed

theorem failure_expires_witness:
  "let other = demo_spec\<lparr>fs_Type := ''u'', fs_Duration := 50\<rparr>;
       r = registry_run (\<lambda>_. None) (\<lambda>_ _. 0) ([] @ (1, RSet demo_spec 7) # [(2, RSet other 7)])
   in fst (registry_Active 20 r [failureKey demo_spec, failureKey other]) = [other] \<and>
      failureKey other \<noteq> failureKey demo_spec"
proof -
  let ?other = "demo_spec\<lparr>fs_Type := ''u'', fs_Duration := 50\<rparr>"
  let ?r = "registry_run (\<lambda>_. None) (\<lambda>_ _. 0) ([] @ (1, RSet demo_spec 7) # [(2, RSet ?other 7)])"
  have act: "fst (registry_Active 20 ?r [failureKey demo_spec, failureKey ?other]) = [?other]"
    by (simp add: registry_run_def NewRegistry_def registry_Set_def Let_def time_Add_def
        failureKey_def demo_spec_def fle_def)
  have "failureKey ?other \<noteq> failureKey demo_spec"
    by (rule failure_expires [where ?ops1.0 = "[]" and ?t0.0 = 1 and s = demo_spec and seed = 7
          and ?ops2.0 = "[(2, RSet ?other 7)]" and now = 20 and r = ?r
          and ks = "[failureKey demo_spec, failureKey ?other]", OF _ _ _ refl])
      (simp_all only: act list.set, simp_all add: failureKey_def demo_spec_def)
  with act show ?thesis by (simp add: Let_def)
qed

text \<open>
  C23. Geo isolation: in every reachable registry a lookup by type, host and path never
  returns a failure restricted to source networks, and a lookup by address returns only
  failures with a network that parses and contains the address. So a failure all of whose
  networks fail to parse is returned by neither.
\<close>

theorem geo_isolation:
  assumes "r = registry_run pc draw ops"
  shows "(fst (registry_Lookup draw now r t h p) = Some s \<longrightarrow> fs_SourceCIDRs s = []) \<and>
    (fst (registry_LookupForIP draw now r ks ip) = Some s \<longrightarrow>
      (\<exists>c \<in> set (fs_SourceCIDRs s). \<exists>n. pc c = Some n \<and> net_Contains n ip)) \<and>
    (fs_SourceCIDRs s \<noteq> [] \<and> (\<forall>c \<in> set (fs_SourceCIDRs s). pc c = None) \<longrightarrow>
      fst (registry_Lookup draw now r t h p) \<noteq> Some s \<and>
      fst (registry_LookupForIP draw now r ks ip) \<noteq> Some s)"
proof -
  have wf: "registry_wf pc r" using assms registry_wf_run by simp
  show ?thesis
    using Lookup_live [OF wf, of draw now t h p s] LookupForIP_live [OF wf, of draw now ks ip s]
    by fastforce
qed

definition demo_net :: ipnet where
  "demo_net = \<lparr>ipn_IP = [192, 0, 2, 0], ipn_Mask = [255, 255, 255, 0]\<rparr>"

theorem geo_isolation_witness:
  "let s = demo_spec\<lparr>fs_SourceCIDRs := [''192.0.2.0/24'']\<rparr>;
       pc = (\<lambda>c. if c = ''192.0.2.0/24'' then Some demo_net else None);
       r = registry_run pc (\<lambda>_ _. 0) [(1, RSet s 7)]
   in fst (registry_LookupForIP (\<lambda>_ _. 0) 5 r [failureKey s] [192, 0, 2, 77]) = Some s \<and>
      (\<exists>c \<in> set (fs_SourceCIDRs s). \<exists>n. pc c = Some n \<and> net_Contains n [192, 0, 2, 77])"
proof -
  let ?s = "demo_spec\<lparr>fs_SourceCIDRs := [''192.0.2.0/24'']\<rparr>"
  let ?pc = "\<lambda>c. if c = ''192.0.2.0/24'' then Some demo_net else None"
  let ?r = "registry_run ?pc (\<lambda>_ _. 0) [(1, RSet ?s 7)]"
  have "fst (registry_LookupForIP (\<lambda>_ _. 0) 5 ?r [failureKey ?s] [192, 0, 2, 77]) = Some ?s"
    by (simp add: registry_run_def NewRegistry_def registry_Set_def Let_def time_Add_def
        demo_spec_def demo_net_def roll_def net_Contains_def networkNumberAndMask_def To4_def)
  then show ?thesis
    using geo_isolation [where pc = ?pc and draw = "\<lambda>_ _. 0" and ops = "[(1, RSet ?s 7)]"
        and now = 5 and s = ?s and ks = "[failureKey ?s]" and ip = "[192, 0, 2, 77]", OF refl]
    unfolding Let_def by blast
qed

section \<open>Rates and keys\<close>

text \<open>A client that asks the same question at each of the given times.\<close>

fun lookups ::
  "draws \<Rightarrow> registry \<Rightarrow> instant list \<Rightarrow> string \<Rightarrow> string \<Rightarrow> string \<Rightarrow> FailureSpec option list" where
  "lookups draw r [] t h p = []"
| "lookups draw r (now # ts) t h p =
     (let (res, r') = registry_Lookup draw now r t h p in res # lookups draw r' ts t h p)"

lemma failureKey_specOf [simp]:
  "failureKey (specOf (fs_Type s) (fs_Host s) (fs_Path s)) = failureKey s"
  by (simp add: failureKey_def specOf_def)

lemma lookups_from:
  assumes "map_of r (failureKey s) = Some af" and "af_spec af = s" and "fs_SourceCIDRs s = []"
    and "af_rng af = Some (sd, n)" and "\<forall>t \<in> set ts. t \<le> af_expires af"
  shows "lookups draw r ts (fs_Type s) (fs_Host s) (fs_Path s) =
    map (\<lambda>i. if fle (fs_Rate s) (Fin (draw sd i)) then None else Some s) [n ..< n + length ts]"
  using assms
proof (induction ts arbitrary: r af n)
  case Nil
  then show ?case by simp
next
  case (Cons t ts)
  let ?af = "af\<lparr>af_rng := Some (sd, Suc n)\<rparr>"
  let ?r = "AList.update (failureKey s) ?af r"
  have l: "registry_Lookup draw t r (fs_Type s) (fs_Host s) (fs_Path s) =
      (if fle (fs_Rate s) (Fin (draw sd n)) then None else Some s, ?r)"
    using Cons.prems by (simp add: registry_Lookup_def candidates_def roll_def Let_def)
  have "lookups draw ?r ts (fs_Type s) (fs_Host s) (fs_Path s) =
    map (\<lambda>i. if fle (fs_Rate s) (Fin (draw sd i)) then None else Some s) [Suc n ..< Suc n + length ts]"
    by (rule Cons.IH [where af = ?af]) (use Cons.prems in auto)
  then show ?case by (simp add: l upt_conv_Cons del: upt_Suc)
qed

text \<open>
  Reproducible rates: the outcomes of successive lookups of a failure with a fractional
  rate, while it is active, are the comparisons of the rate with the successive values of
  the source seeded with the run seed and the hash of the failure type. They depend on
  nothing else in the registry, so a rerun with the same seed sees the same outcomes.
\<close>

theorem rate_outcomes:
  assumes "fs_SourceCIDRs s = []" and "flt (Fin 0) (fs_Rate s)" and "flt (fs_Rate s) (Fin 1)"
    and "\<forall>t \<in> set ts. t \<le> t0 + fs_Duration s"
  shows "lookups draw (registry_Set pc t0 r s seed) ts (fs_Type s) (fs_Host s) (fs_Path s) =
    map (\<lambda>i. if fle (fs_Rate s) (Fin (draw (seed XOR strHash (fs_Type s)) i)) then None else Some s)
      [0 ..< length ts]"
proof -
  have "flt (if fle (fs_Rate s) (Fin 0) \<or> fle (Fin 1) (fs_Rate s) then Fin 1 else fs_Rate s) (Fin 1)"
    using assms(2,3) by (simp only: rate_rng_iff)
  then show ?thesis
    using assms by (subst lookups_from [where n = 0 and sd = "seed XOR strHash (fs_Type s)"])
      (auto simp: registry_Set_def Let_def time_Add_def split del: if_split)
qed

theorem rate_outcomes_witness:
  "let s = demo_spec\<lparr>fs_Rate := Fin (1 / 2)\<rparr>
   in lookups (\<lambda>sd n. if even n then 0 else 3 / 4) (registry_Set (\<lambda>_. None) 1 [] s 7) [2, 3, 4]
        ''t'' ''h'' [] = [Some s, None, Some s]"
  using rate_outcomes [where s = "demo_spec\<lparr>fs_Rate := Fin (1 / 2)\<rparr>" and ts = "[2, 3, 4]"
      and ?t0.0 = 1 and seed = 7 and r = "[]" and pc = "\<lambda>_. None"
      and draw = "\<lambda>sd n. if even n then 0 else 3 / 4"]
  by (simp add: demo_spec_def Let_def upt_rec)

lemma colon_free_split:
  "c \<notin> set a \<Longrightarrow> c \<notin> set b \<Longrightarrow> a @ c # x = b @ c # y \<Longrightarrow> a = b \<and> x = y"
proof (induction a arbitrary: b)
  case Nil
  then show ?case by (cases b) auto
next
  case (Cons d a)
  then show ?case by (cases b) auto
qed

text \<open>
  Keys are unambiguous: two failures whose types and hosts contain no colon share a
  registry key only if they agree on type, host and path, so activating or removing one
  never touches the other.
\<close>

theorem failureKey_injective:
  assumes "CHR '':'' \<notin> set (fs_Type s) \<union> set (fs_Host s)"
    and "CHR '':'' \<notin> set (fs_Type s') \<union> set (fs_Host s')"
    and "failureKey s = failureKey s'"
  shows "fs_Type s = fs_Type s' \<and> fs_Host s = fs_Host s' \<and> fs_Path s = fs_Path s'"
proof -
  have "fs_Type s @ CHR '':'' # (fs_Host s @ CHR '':'' # fs_Path s) =
      fs_Type s' @ CHR '':'' # (fs_Host s' @ CHR '':'' # fs_Path s')"
    using assms(3) by (simp add: failureKey_def)
  then have t: "fs_Type s = fs_Type s'"
    and r: "fs_Host s @ CHR '':'' # fs_Path s = fs_Host s' @ CHR '':'' # fs_Path s'"
    using assms(1,2) by (auto dest!: colon_free_split [rotated 2])
  from colon_free_split [OF _ _ r] assms(1,2) t show ?thesis by simp
qed

theorem failureKey_injective_witness:
  "let s = demo_spec; s' = demo_spec\<lparr>fs_Duration := 99\<rparr>
   in failureKey s = failureKey s' \<and>
      fs_Type s = fs_Type s' \<and> fs_Host s = fs_Host s' \<and> fs_Path s = fs_Path s'"
  using failureKey_injective [where s = demo_spec and s' = "demo_spec\<lparr>fs_Duration := 99\<rparr>"]
  by (simp add: demo_spec_def failureKey_def Let_def)

end
