(* ===== verification/ControlPlane.thy ===== *)
theory ControlPlane
  imports Registry
begin

text \<open>
  The control plane between harness and fleet members: the server of
  \<open>internal/control/server.go\<close> and the client of \<open>internal/control/client.go\<close>.

  A request body is represented by what \<open>json.Decoder.Decode\<close> yields for it at each of the two
  request types (\<open>None\<close> when decoding fails). \<open>json_spec\<close> is the effect of marshalling a failure
  specification and decoding it again: numbers inside \<open>Params\<close> come back as floats, maps as
  generic maps, and values JSON cannot express make \<open>json.Marshal\<close> fail. The HTTP transport of the
  client is an argument: it maps a request to a response, or fails.
\<close>

section \<open>Messages\<close>

record ActivateRequest =
  ar_RunID :: string
  ar_Seed :: "64 word"
  ar_Failure :: FailureSpec

record DeactivateRequest =
  dr_RunID :: string
  dr_FailureType :: string
  dr_Host :: string
  dr_Path :: string

record StatusResponse =
  sr_MemberID :: string
  sr_ActiveFailures :: "FailureSpec list"

record http_body =
  hb_activate :: "ActivateRequest option"
  hb_deactivate :: "DeactivateRequest option"

record http_request =
  hr_Method :: string
  hr_Path :: string
  hr_Authorization :: string
  hr_Body :: http_body

record http_response =
  rs_StatusCode :: nat
  rs_Status :: "StatusResponse option"

definition http_Error :: "nat \<Rightarrow> http_response" where
  "http_Error code = \<lparr>rs_StatusCode = code, rs_Status = None\<rparr>"

section \<open>The server\<close>

record Server =
  sv_memberID :: string
  sv_token :: string
  sv_registry :: registry

definition NewServer :: "string \<Rightarrow> string \<Rightarrow> registry \<Rightarrow> Server" where
  "NewServer memberID token reg = \<lparr>sv_memberID = memberID, sv_token = token, sv_registry = reg\<rparr>"

definition handleActivate ::
  "cidr_parser \<Rightarrow> instant \<Rightarrow> Server \<Rightarrow> http_request \<Rightarrow> http_response \<times> Server" where
  "handleActivate pc now s q =
    (case hb_activate (hr_Body q) of
       None \<Rightarrow> (http_Error 400, s)
     | Some req \<Rightarrow>
         if fs_Type (ar_Failure req) = [] then (http_Error 400, s)
         else if fs_Duration (ar_Failure req) \<le> 0 then (http_Error 400, s)
         else (\<lparr>rs_StatusCode = 204, rs_Status = None\<rparr>,
               s\<lparr>sv_registry := registry_Set pc now (sv_registry s) (ar_Failure req) (ar_Seed req)\<rparr>))"

definition handleDeactivate :: "Server \<Rightarrow> http_request \<Rightarrow> http_response \<times> Server" where
  "handleDeactivate s q =
    (case hb_deactivate (hr_Body q) of
       None \<Rightarrow> (http_Error 400, s)
     | Some req \<Rightarrow>
         (\<lparr>rs_StatusCode = 204, rs_Status = None\<rparr>,
          s\<lparr>sv_registry := registry_Remove (sv_registry s) (dr_FailureType req) (dr_Host req) (dr_Path req)\<rparr>))"

definition handleStatus ::
  "instant \<Rightarrow> string list \<Rightarrow> Server \<Rightarrow> http_response \<times> Server" where
  "handleStatus now ks s =
    (let (active, reg) = registry_Active now (sv_registry s) ks
     in (\<lparr>rs_StatusCode = 200,
          rs_Status = Some \<lparr>sr_MemberID = sv_memberID s, sr_ActiveFailures = active\<rparr>\<rparr>,
         s\<lparr>sv_registry := reg\<rparr>))"

text \<open>
  The three routes on a \<open>http.ServeMux\<close>: a known path with another method is 405, any other
  path 404; a \<open>GET\<close> pattern also serves \<open>HEAD\<close>.
\<close>

definition RegisterRoutes ::
  "cidr_parser \<Rightarrow> instant \<Rightarrow> string list \<Rightarrow> Server \<Rightarrow> http_request \<Rightarrow> http_response \<times> Server" where
  "RegisterRoutes pc now ks s q =
    (if hr_Path q = ''/activate'' then
       (if hr_Method q = ''POST'' then handleActivate pc now s q else (http_Error 405, s))
     else if hr_Path q = ''/deactivate'' then
       (if hr_Method q = ''POST'' then handleDeactivate s q else (http_Error 405, s))
     else if hr_Path q = ''/status'' then
       (if hr_Method q = ''GET'' \<or> hr_Method q = ''HEAD'' then handleStatus now ks s
        else (http_Error 405, s))
     else (http_Error 404, s))"

definition AuthMiddleware ::
  "string \<Rightarrow> ('s \<Rightarrow> http_request \<Rightarrow> http_response \<times> 's) \<Rightarrow> 's \<Rightarrow> http_request \<Rightarrow> http_response \<times> 's" where
  "AuthMiddleware token next s q =
    (if \<not> HasPrefix (hr_Authorization q) ''Bearer '' then (http_Error 401, s)
     else if TrimPrefix (hr_Authorization q) ''Bearer '' \<noteq> token then (http_Error 401, s)
     else next s q)"

definition Handler ::
  "cidr_parser \<Rightarrow> instant \<Rightarrow> string list \<Rightarrow> Server \<Rightarrow> http_request \<Rightarrow> http_response \<times> Server" where
  "Handler pc now ks s q = AuthMiddleware (sv_token s) (RegisterRoutes pc now ks) s q"

section \<open>The client\<close>

fun json_any :: "float64 any \<Rightarrow> float64 any option" where
  "json_any (VFloat (Fin x)) = Some (VFloat (Fin x))"
| "json_any (VFloat f) = None"
| "json_any (VInt n) = Some (VFloat (float_of_int n))"
| "json_any (VInt64 n) = Some (VFloat (float_of_int n))"
| "json_any (VDuration n) = Some (VFloat (float_of_int n))"
| "json_any (VStrMap m) = Some (VMap (map (\<lambda>(k, v). (k, VString v)) m))"
| "json_any (VList l) = map_option VList (those (map json_any l))"
| "json_any (VMap m) =
     (case those (map (\<lambda>(k, v). map_option (Pair k) (json_any v)) m) of
        None \<Rightarrow> None | Some m' \<Rightarrow> Some (VMap m'))"
| "json_any v = Some v"

definition json_params :: "params \<Rightarrow> params option" where
  "json_params ps = those (map (\<lambda>(k, v). map_option (Pair k) (json_any v)) ps)"

definition json_spec :: "FailureSpec \<Rightarrow> FailureSpec option" where
  "json_spec s =
    (case fs_Rate s of
       Fin x \<Rightarrow> map_option (\<lambda>ps. s\<lparr>fs_Params := ps\<rparr>) (json_params (fs_Params s))
     | _ \<Rightarrow> None)"

type_synonym 's transport = "'s \<Rightarrow> http_request \<Rightarrow> http_response option \<times> 's"

record Client =
  cl_token :: string

definition client_post :: "Client \<Rightarrow> 's transport \<Rightarrow> 's \<Rightarrow> string \<Rightarrow> http_body option \<Rightarrow> unit result \<times> 's" where
  "client_post c do s path body =
    (case body of
       None \<Rightarrow> (Inl ''control: client: marshal'', s)
     | Some b \<Rightarrow>
         (case do s \<lparr>hr_Method = ''POST'', hr_Path = path,
                     hr_Authorization = ''Bearer '' @ cl_token c, hr_Body = b\<rparr> of
            (None, s') \<Rightarrow> (Inl ''control: client'', s')
          | (Some rsp, s') \<Rightarrow>
              (if rs_StatusCode rsp \<noteq> 204 then (Inl ''control: client: unexpected'', s')
               else (Inr (), s'))))"

definition client_Activate :: "Client \<Rightarrow> 's transport \<Rightarrow> 's \<Rightarrow> ActivateRequest \<Rightarrow> unit result \<times> 's" where
  "client_Activate c do s req = client_post c do s ''/activate''
    (map_option (\<lambda>f. \<lparr>hb_activate = Some (req\<lparr>ar_Failure := f\<rparr>),
        hb_deactivate = Some \<lparr>dr_RunID = ar_RunID req, dr_FailureType = [], dr_Host = [], dr_Path = []\<rparr>\<rparr>)
      (json_spec (ar_Failure req)))"

definition client_Deactivate :: "Client \<Rightarrow> 's transport \<Rightarrow> 's \<Rightarrow> DeactivateRequest \<Rightarrow> unit result \<times> 's" where
  "client_Deactivate c do s req = client_post c do s ''/deactivate''
    (Some \<lparr>hb_activate = Some \<lparr>ar_RunID = dr_RunID req, ar_Seed = 0, ar_Failure = specOf [] [] []\<rparr>,
       hb_deactivate = Some req\<rparr>)"

definition client_Status :: "Client \<Rightarrow> 's transport \<Rightarrow> 's \<Rightarrow> StatusResponse result \<times> 's" where
  "client_Status c do s =
    (case do s \<lparr>hr_Method = ''GET'', hr_Path = ''/status'',
               hr_Authorization = ''Bearer '' @ cl_token c,
               hr_Body = \<lparr>hb_activate = None, hb_deactivate = None\<rparr>\<rparr> of
       (None, s') \<Rightarrow> (Inl ''control: client: status'', s')
     | (Some rsp, s') \<Rightarrow>
         (if rs_StatusCode rsp \<noteq> 200 then (Inl ''control: client: status: unexpected'', s')
          else case rs_Status rsp of
            None \<Rightarrow> (Inl ''control: client: status: decode'', s')
          | Some out \<Rightarrow> (Inr out, s')))"

text \<open>A transport that reaches the server directly, at the given time and map order.\<close>

definition direct :: "cidr_parser \<Rightarrow> instant \<Rightarrow> string list \<Rightarrow> Server transport" where
  "direct pc now ks s q = (let (rsp, s') = Handler pc now ks s q in (Some rsp, s'))"

section \<open>Lemmas\<close>

lemma HasPrefix_TrimPrefix_iff:
  "HasPrefix a p \<and> TrimPrefix a p = s \<longleftrightarrow> a = p @ s"
  by (auto simp: HasPrefix_def TrimPrefix_def prefix_def)

lemma Handler_cases:
  "Handler pc now ks s q =
    (if hr_Authorization q = ''Bearer '' @ sv_token s then RegisterRoutes pc now ks s q
     else (http_Error 401, s))"
  using HasPrefix_TrimPrefix_iff [of "hr_Authorization q" "''Bearer ''" "sv_token s"]
  by (auto simp: Handler_def AuthMiddleware_def)

lemma Active_complete:
  "registry_view r now k = Some s \<Longrightarrow> k \<in> set ks \<Longrightarrow> s \<in> set (fst (registry_Active now r ks))"
proof (induction now r ks rule: registry_Active.induct)
  case (1 now r)
  then show ?case by simp
next
  case (2 now r k' ks)
  show ?case
  proof (cases "map_of r k'")
    case None
    then show ?thesis using 2 by (auto simp: registry_view_def)
  next
    case (Some af)
    show ?thesis
    proof (cases "now > af_expires af")
      case True
      then have "k \<noteq> k'" using "2.prems" Some by (auto simp: registry_view_def)
      with 2 Some True show ?thesis by (simp add: view_delete_expired [OF Some True])
    next
      case False
      then show ?thesis
        using 2 Some by (auto simp: registry_view_def split: prod.splits)
    qed
  qed
qed

lemma json_spec_fields:
  "json_spec s = Some f \<Longrightarrow>
     fs_Type f = fs_Type s \<and> fs_Host f = fs_Host s \<and> fs_Path f = fs_Path s \<and>
     fs_Duration f = fs_Duration s \<and> fs_Rate f = fs_Rate s \<and> fs_SourceCIDRs f = fs_SourceCIDRs s"
  by (auto simp: json_spec_def split: float64.splits)

lemma client_Activate_direct:
  assumes "cl_token c = sv_token s" and "json_spec (ar_Failure req) = Some f"
  shows "client_Activate c (direct pc now ks) s req =
    (if fs_Type f \<noteq> [] \<and> fs_Duration f > 0
     then (Inr (), s\<lparr>sv_registry := registry_Set pc now (sv_registry s) f (ar_Seed req)\<rparr>)
     else (Inl ''control: client: unexpected'', s))"
  using assms
  by (simp add: client_Activate_def client_post_def direct_def Handler_cases
      RegisterRoutes_def handleActivate_def http_Error_def)

lemma client_Deactivate_direct:
  assumes "cl_token c = sv_token s"
  shows "client_Deactivate c (direct pc now ks) s req =
    (Inr (), s\<lparr>sv_registry :=
       registry_Remove (sv_registry s) (dr_FailureType req) (dr_Host req) (dr_Path req)\<rparr>)"
  using assms
  by (simp add: client_Deactivate_def client_post_def direct_def Handler_cases
      RegisterRoutes_def handleDeactivate_def)

section \<open>Properties\<close>


text \<open>
  C6. Activation, from the client's call to the member's registry: with the shared token and
  a specification JSON can carry, the client reports success exactly when the failure has a
  type and a positive duration, and then the failure is active under its key until its
  duration has passed and every other key is as before; otherwise the client gets an error
  and the member is unchanged.
\<close>

theorem activate_contract:
  assumes "cl_token c = sv_token s" and "json_spec (ar_Failure req) = Some f"
    and "client_Activate c (direct pc now ks) s req = (res, s')"
  shows "if fs_Type (ar_Failure req) \<noteq> [] \<and> fs_Duration (ar_Failure req) > 0
    then res = Inr () \<and>
      registry_view (sv_registry s') t k =
        (if k = failureKey (ar_Failure req)
         then (if t > now + fs_Duration (ar_Failure req) then None else Some f)
         else registry_view (sv_registry s) t k)
    else (\<exists>e. res = Inl e) \<and> s' = s"
proof -
  note f = json_spec_fields [OF assms(2)]
  then have "failureKey f = failureKey (ar_Failure req)" by (simp add: failureKey_def)
  then show ?thesis
    using assms(3) client_Activate_direct [OF assms(1,2), of pc now ks] f
    by (auto simp: reg.view_set split: if_splits)
qed

theorem activate_contract_witness:
  "let req = \<lparr>ar_RunID = ''run'', ar_Seed = 7, ar_Failure = demo_spec\<rparr>;
       s = NewServer ''m1'' ''tok'' NewRegistry;
       (res, s') = client_Activate \<lparr>cl_token = ''tok''\<rparr> (direct (\<lambda>_. None) 5 []) s req
   in res = Inr () \<and> registry_view (sv_registry s') 12 (failureKey demo_spec) = Some demo_spec"
proof -
  let ?req = "\<lparr>ar_RunID = ''run'', ar_Seed = 7, ar_Failure = demo_spec\<rparr>"
  let ?s = "NewServer ''m1'' ''tok'' NewRegistry"
  obtain res s' where c: "client_Activate \<lparr>cl_token = ''tok''\<rparr> (direct (\<lambda>_. None) 5 []) ?s ?req = (res, s')"
    by (metis surj_pair)
  have "json_spec (ar_Failure ?req) = Some demo_spec"
    by (simp add: json_spec_def json_params_def demo_spec_def)
  from activate_contract [OF _ this c, where t = 12 and k = "failureKey demo_spec"] c
  show ?thesis by (simp add: NewServer_def demo_spec_def)
qed

text \<open>
  Deactivation: with the shared token the call succeeds, afterwards no lookup of exactly
  that type, host and path returns a failure under the removed key, whatever the random
  source, and every other key is as before.
\<close>

theorem deactivate_contract:
  assumes "cl_token c = sv_token s" and "registry_wf pc (sv_registry s)"
    and "client_Deactivate c (direct pc now ks) s req = (res, s')"
  shows "res = Inr () \<and>
    (\<forall>f. fst (registry_Lookup draw t (sv_registry s') (dr_FailureType req) (dr_Host req) (dr_Path req)) = Some f
       \<longrightarrow> failureKey f \<noteq> failureKey (specOf (dr_FailureType req) (dr_Host req) (dr_Path req))) \<and>
    (\<forall>k. k \<noteq> failureKey (specOf (dr_FailureType req) (dr_Host req) (dr_Path req)) \<longrightarrow>
       registry_view (sv_registry s') t k = registry_view (sv_registry s) t k)"
proof -
  let ?r = "registry_Remove (sv_registry s) (dr_FailureType req) (dr_Host req) (dr_Path req)"
  have s': "res = Inr ()" "sv_registry s' = ?r"
    using assms(3) client_Deactivate_direct [OF assms(1), of pc now ks req] by auto
  have wf: "registry_wf pc ?r"
    using assms(2) by (simp add: registry_Remove_def registry_wf_delete)
  show ?thesis
    using s' Lookup_live [OF wf, of draw t] reg.view_remove by fastforce
qed

theorem deactivate_contract_witness:
  "let s = NewServer ''m1'' ''tok'' (registry_Set (\<lambda>_. None) 5 NewRegistry demo_spec 7);
       req = \<lparr>dr_RunID = ''run'', dr_FailureType = ''t'', dr_Host = ''h'', dr_Path = []\<rparr>
   in fst (client_Deactivate \<lparr>cl_token = ''tok''\<rparr> (direct (\<lambda>_. None) 6 []) s req) = Inr ()"
proof -
  let ?s = "NewServer ''m1'' ''tok'' (registry_Set (\<lambda>_. None) 5 NewRegistry demo_spec 7)"
  let ?req = "\<lparr>dr_RunID = ''run'', dr_FailureType = ''t'', dr_Host = ''h'', dr_Path = []\<rparr>"
  obtain res s' where c:
    "client_Deactivate \<lparr>cl_token = ''tok''\<rparr> (direct (\<lambda>_. None) 6 []) ?s ?req = (res, s')"
    by (metis surj_pair)
  have "registry_wf (\<lambda>_. None) (sv_registry ?s)"
    unfolding NewServer_def
    by (simp, rule registry_wf_Set) (simp add: registry_wf_def NewRegistry_def)
  from deactivate_contract [OF _ this c] c show ?thesis by (simp add: NewServer_def Let_def)
qed

text \<open>
  Status: when the map order lists every key, a client with the token is told the member's
  identity and exactly the failures active at that moment, and no expired entry under a
  listed key survives the call.
\<close>

theorem status_contract:
  assumes "cl_token c = sv_token s" and "registry_wf pc (sv_registry s)"
    and "fst ` set (sv_registry s) \<subseteq> set ks"
  shows "\<exists>out s'. client_Status c (direct pc now ks) s = (Inr out, s') \<and>
    sr_MemberID out = sv_memberID s \<and>
    set (sr_ActiveFailures out) = {f. registry_view (sv_registry s) now (failureKey f) = Some f} \<and>
    (\<forall>t k. now \<le> t \<longrightarrow> registry_view (sv_registry s') t k = registry_view (sv_registry s) t k)"
proof -
  let ?r = "sv_registry s"
  have "f \<in> set (fst (registry_Active now ?r ks))"
    if "registry_view ?r now (failureKey f) = Some f" for f
  proof (rule Active_complete [OF that])
    from that have "map_of ?r (failureKey f) \<noteq> None" by (auto simp: registry_view_def split: option.splits)
    then show "failureKey f \<in> set ks"
      using assms(3) by (metis map_of_eq_None_iff subsetD)
  qed
  then have "set (fst (registry_Active now ?r ks)) = {f. registry_view ?r now (failureKey f) = Some f}"
    using Active_live [OF assms(2)] by blast
  then show ?thesis
    using assms(1) view_Active [of now _ ?r ks]
    by (auto simp: client_Status_def direct_def Handler_cases RegisterRoutes_def
        handleStatus_def split: prod.splits)
qed

theorem status_contract_witness:
  "\<exists>out s'. client_Status \<lparr>cl_token = ''tok''\<rparr> (direct (\<lambda>_. None) 6 [failureKey demo_spec])
      (NewServer ''m1'' ''tok'' (registry_Set (\<lambda>_. None) 5 NewRegistry demo_spec 7)) = (Inr out, s') \<and>
    demo_spec \<in> set (sr_ActiveFailures out)"
proof -
  let ?s = "NewServer ''m1'' ''tok'' (registry_Set (\<lambda>_. None) 5 NewRegistry demo_spec 7)"
  have wf: "registry_wf (\<lambda>_. None) (sv_registry ?s)"
    unfolding NewServer_def
    by (simp, rule registry_wf_Set) (simp add: registry_wf_def NewRegistry_def)
  have "registry_view (sv_registry ?s) 6 (failureKey demo_spec) = Some demo_spec"
    by (simp add: NewServer_def reg.view_set) (simp add: demo_spec_def)
  with status_contract [OF _ wf, of "\<lparr>cl_token = ''tok''\<rparr>" "[failureKey demo_spec]" 6]
  show ?thesis
    by (auto simp: NewServer_def registry_Set_def NewRegistry_def Let_def)
qed

end
