(* ===== verification/Dns_Wire.thy ===== *)
theory Dns_Wire
  imports Prelude
begin

unbundle bit_operations_syntax

text \<open>
  The wire format of the authoritative DNS server: the question parser, the encoders of names,
  TXT strings, SOA data and resource records, and the response builders of
  \<open>internal/dnsserver/dnsserver.go\<close> and \<open>internal/dnsserver/zones.go\<close>, with the TCP framing.

  A Go slice expression \<open>q[a:b]\<close> panics out of range; \<open>slice\<close> returns \<open>None\<close> there, and a builder
  that slices the query returns \<open>None\<close> for a panic. (Go checks the upper bound against the
  capacity; the model is stricter and checks the length.)

  The second half is a reader of responses written from RFC 1035, independent of the code:
  it splits a message into header, question and resource records and rejects trailing
  bytes. The builders are proved against it.
\<close>

section \<open>Slices\<close>

definition slice :: "'a list \<Rightarrow> nat \<Rightarrow> nat \<Rightarrow> 'a list option" where
  "slice xs a b = (if a \<le> b \<and> b \<le> length xs then Some (take (b - a) (drop a xs)) else None)"

lemma slice_append: "slice (p @ m @ r) (length p) (length p + length m) = Some m"
  by (simp add: slice_def)

section \<open>The question\<close>

function qname_loop :: "byte list \<Rightarrow> nat \<Rightarrow> string list \<Rightarrow> (string list \<times> nat) option" where
  "qname_loop msg pos labels =
    (if pos < length msg then
       (let llen = unat (msg ! pos) in
        if llen = 0 then Some (labels, pos + 1)
        else if (msg ! pos) AND 0xC0 \<noteq> 0 then None
        else if pos + 1 + llen > length msg then None
        else qname_loop msg (pos + 1 + llen)
               (labels @ [string_of (take llen (drop (pos + 1) msg))]))
     else Some (labels, pos))"
  by pat_completeness auto
termination
  by (relation "measure (\<lambda>(msg, pos, labels). length msg - pos)") auto

declare qname_loop.simps [simp del]

definition parseQueryName :: "byte list \<Rightarrow> string \<times> nat \<times> nat" where
  "parseQueryName msg =
    (if length msg < 12 then ([], 0, 0)
     else case qname_loop msg 12 [] of
       None \<Rightarrow> ([], 0, 0)
     | Some (labels, pos) \<Rightarrow>
         (if pos + 4 > length msg then ([], 0, 0)
          else (ToLower (Join labels ''.''),
                unat (msg ! pos) * 256 + unat (msg ! (pos + 1)), pos + 4)))"

section \<open>Encoders\<close>

definition encode_label :: "string \<Rightarrow> byte list" where
  "encode_label l = byte_of_nat (length l) # bytes_of l"

definition encodeName :: "string \<Rightarrow> byte list" where
  "encodeName name0 =
    (let name = TrimSuffix name0 ''.''
     in if name = [] then [0] else concat (map encode_label (Split CHR ''.'' name)) @ [0])"

function encodeTXTStrings :: "byte list \<Rightarrow> byte list" where
  "encodeTXTStrings value =
    (if length value > 255 then 255 # take 255 value @ encodeTXTStrings (drop 255 value)
     else byte_of_nat (length value) # value)"
  by pat_completeness auto
termination
  by (relation "measure length") auto

declare encodeTXTStrings.simps [simp del]

record SOA =
  soa_MName :: string
  soa_RName :: string
  soa_Serial :: nat
  soa_Refresh :: nat
  soa_Retry :: nat
  soa_Expire :: nat
  soa_Minimum :: nat

definition soaRDATA :: "SOA \<Rightarrow> byte list" where
  "soaRDATA s = encodeName (soa_MName s) @ encodeName (soa_RName s) @ be32 (soa_Serial s) @
     be32 (soa_Refresh s) @ be32 (soa_Retry s) @ be32 (soa_Expire s) @ be32 (soa_Minimum s)"

text \<open>
  One resource record of class IN as the builders append it: owner name, type, class, TTL,
  the length of the data in 16 bits, and the data. \<open>qptr\<close> is the compression pointer to the
  question name at offset 12.
\<close>

definition rr_bytes :: "byte list \<Rightarrow> nat \<Rightarrow> nat \<Rightarrow> byte list \<Rightarrow> byte list" where
  "rr_bytes owner ty ttl rdata =
     owner @ be16 ty @ be16 1 @ be32 ttl @ be16 (length rdata) @ rdata"

definition qptr :: "byte list" where
  "qptr = [0xC0, 0x0C]"

text \<open>The header every builder writes: transaction id, flags, and the four counts.\<close>

definition header :: "byte list \<Rightarrow> byte \<Rightarrow> nat \<Rightarrow> nat \<Rightarrow> nat \<Rightarrow> byte list" where
  "header query rcode qd an ns =
     take 2 query @ [0x84, rcode] @ be16 qd @ be16 an @ be16 ns @ be16 0"

section \<open>Response builders\<close>

definition aResponse :: "byte list \<Rightarrow> nat \<Rightarrow> byte list \<Rightarrow> nat \<Rightarrow> byte list option" where
  "aResponse query qEnd ip ttl =
    (case slice query 12 qEnd of None \<Rightarrow> None
     | Some q \<Rightarrow> Some (header query 0 1 1 0 @ q @ 
         rr_bytes qptr 1 ttl (case To4 ip of Some a \<Rightarrow> a | None \<Rightarrow> replicate 4 0)))"

definition txtResponse :: "byte list \<Rightarrow> nat \<Rightarrow> string list \<Rightarrow> nat \<Rightarrow> byte list option" where
  "txtResponse query qEnd values ttl =
    (case slice query 12 qEnd of None \<Rightarrow> None
     | Some q \<Rightarrow> Some (header query 0 1 (length values) 0 @ q @
         concat (map (\<lambda>v. rr_bytes qptr 16 ttl (encodeTXTStrings (bytes_of v))) values)))"

definition cnameTarget :: "byte list" where
  "cnameTarget = 4 # bytes_of ''dead'' @ 7 # bytes_of ''invalid'' @ [0]"

definition cnameNXDomainResponse :: "byte list \<Rightarrow> nat \<Rightarrow> nat \<Rightarrow> byte list option" where
  "cnameNXDomainResponse query qEnd ttl =
    (case slice query 12 qEnd of None \<Rightarrow> None
     | Some q \<Rightarrow> Some (header query 0 1 1 0 @ q @ rr_bytes qptr 5 ttl cnameTarget))"

definition errorResponse :: "byte list \<Rightarrow> nat \<Rightarrow> byte \<Rightarrow> byte list option" where
  "errorResponse query qEnd rcode =
    (let hasQuestion = (qEnd > 0 \<and> qEnd \<le> length query)
     in if length query < 2 then None
        else if hasQuestion then
          (case slice query 12 qEnd of None \<Rightarrow> None
           | Some q \<Rightarrow> Some (header query (rcode AND 0x0F) 1 0 0 @ q))
        else Some (header query (rcode AND 0x0F) 0 0 0))"

record ZoneApex =
  za_Name :: string
  za_NSHostnames :: "string list"
  za_SOA :: SOA

definition nsResponse :: "byte list \<Rightarrow> nat \<Rightarrow> ZoneApex \<Rightarrow> nat \<Rightarrow> byte list option" where
  "nsResponse query qEnd apex ttl =
    (case slice query 12 qEnd of None \<Rightarrow> None
     | Some q \<Rightarrow> Some (header query 0 1 (length (za_NSHostnames apex)) 0 @ q @
         concat (map (\<lambda>h. rr_bytes qptr 2 ttl (encodeName h)) (za_NSHostnames apex))))"

definition soaResponse :: "byte list \<Rightarrow> nat \<Rightarrow> ZoneApex \<Rightarrow> nat \<Rightarrow> byte list option" where
  "soaResponse query qEnd apex ttl =
    (case slice query 12 qEnd of None \<Rightarrow> None
     | Some q \<Rightarrow> Some (header query 0 1 1 0 @ q @ rr_bytes qptr 6 ttl (soaRDATA (za_SOA apex))))"

definition nxdomainWithSOA :: "byte list \<Rightarrow> nat \<Rightarrow> ZoneApex \<Rightarrow> byte list option" where
  "nxdomainWithSOA query qEnd apex =
    (case slice query 12 qEnd of None \<Rightarrow> None
     | Some q \<Rightarrow> Some (header query 3 1 0 1 @ q @
         rr_bytes (encodeName (za_Name apex)) 6 (soa_Minimum (za_SOA apex)) (soaRDATA (za_SOA apex))))"

section \<open>TCP framing\<close>

text \<open>
  A stream is the bytes that will arrive before the connection ends; \<open>io.ReadFull\<close> fails when
  it ends early. \<open>HandleTCP\<close> writes the length of the response in 16 bits before it.
\<close>

definition readTCPMessage :: "byte list \<Rightarrow> byte list option" where
  "readTCPMessage stream =
    (case read16 stream of None \<Rightarrow> None
     | Some (msgLen, rest) \<Rightarrow>
         (if msgLen = 0 then None
          else if length rest < msgLen then None else Some (take msgLen rest)))"

definition tcp_frame :: "byte list \<Rightarrow> byte list" where
  "tcp_frame resp = be16 (length resp) @ resp"

section \<open>Bounds of the question parser\<close>

lemma qname_loop_bounds:
  "qname_loop msg pos acc = Some (ls, p) \<Longrightarrow> pos \<le> length msg \<Longrightarrow> pos \<le> p \<and> p \<le> length msg"
proof (induction msg pos acc rule: qname_loop.induct)
  case (1 msg pos acc)
  show ?case
  proof (cases "pos < length msg")
    case False
    with 1 show ?thesis by (simp add: qname_loop.simps [of msg pos])
  next
    case True
    let ?n = "unat (msg ! pos)"
    show ?thesis
    proof (cases "?n = 0")
      case zero: True
      with 1 True show ?thesis by (simp add: qname_loop.simps [of msg pos])
    next
      case nz: False
      with "1.prems" True have m: "\<not> (msg ! pos) AND 0xC0 \<noteq> 0" and b: "\<not> length msg < pos + 1 + ?n"
        and r: "qname_loop msg (pos + 1 + ?n) (acc @ [string_of (take ?n (drop (pos + 1) msg))]) = Some (ls, p)"
        by (auto simp: qname_loop.simps [of msg pos] Let_def split: if_splits)
      from "1.IH" [OF True refl nz m b r] b show ?thesis by simp
    qed
  qed
qed

lemma qname_loop_progress:
  assumes "qname_loop msg pos acc = Some (ls, p)" and "pos < length msg"
  shows "pos < p"
proof -
  let ?n = "unat (msg ! pos)"
  show ?thesis
  proof (cases "?n = 0")
    case True
    with assms show ?thesis by (simp add: qname_loop.simps [of msg pos])
  next
    case False
    with assms have "pos + 1 + ?n \<le> length msg"
      and "\<exists>acc'. qname_loop msg (pos + 1 + ?n) acc' = Some (ls, p)"
      by (auto simp: qname_loop.simps [of msg pos] Let_def split: if_splits)
    then show ?thesis by (auto dest: qname_loop_bounds)
  qed
qed

lemma parseQueryName_bounds:
  assumes "parseQueryName msg = (name, qtype, qEnd)"
  shows "name = [] \<and> qtype = 0 \<and> qEnd = 0 \<or> 17 \<le> qEnd \<and> qEnd \<le> length msg"
proof (cases "length msg < 12 \<or> qname_loop msg 12 [] = None")
  case True
  with assms show ?thesis by (cases "length msg < 12") (auto simp: parseQueryName_def)
next
  case False
  then obtain ls p where q: "qname_loop msg 12 [] = Some (ls, p)" and l: "12 \<le> length msg" by auto
  show ?thesis
  proof (cases "p + 4 > length msg")
    case True
    with assms q l show ?thesis by (auto simp: parseQueryName_def)
  next
    case ok: False
    then have "12 < length msg" using qname_loop_bounds [OF q l] by simp
    then have "12 < p" by (rule qname_loop_progress [OF q])
    with assms q l ok show ?thesis by (auto simp: parseQueryName_def)
  qed
qed

lemma slice_question:
  "parseQueryName msg = (name, qtype, qEnd) \<Longrightarrow> qEnd \<noteq> 0 \<Longrightarrow>
     slice msg 12 qEnd = Some (take (qEnd - 12) (drop 12 msg))"
  using parseQueryName_bounds [of msg name qtype qEnd] by (auto simp: slice_def)

section \<open>Names round-trip through the question\<close>

definition label_ok :: "string \<Rightarrow> bool" where
  "label_ok l \<longleftrightarrow> l \<noteq> [] \<and> length l < 64 \<and> CHR ''.'' \<notin> set l"

lemma label_len_byte:
  assumes "label_ok l"
  shows "unat (byte_of_nat (length l)) = length l" and "byte_of_nat (length l) AND 0xC0 = 0"
proof -
  have len: "length l < 64" using assms by (simp add: label_ok_def)
  then show "unat (byte_of_nat (length l)) = length l" by (simp add: unat_byte_of_nat)
  have "list_all (\<lambda>n. (of_nat n :: byte) AND 0xC0 = 0) [0 ..< 64]" by code_simp
  then show "byte_of_nat (length l) AND 0xC0 = 0"
    using len by (auto simp: list_all_iff byte_of_nat_def)
qed

lemma length_encode_label [simp]: "length (encode_label l) = Suc (length l)"
  by (simp add: encode_label_def)

lemma qname_loop_label:
  assumes "label_ok l" and "msg ! pos = byte_of_nat (length l)"
    and "pos + 1 + length l \<le> length msg"
    and "string_of (take (length l) (drop (pos + 1) msg)) = l"
  shows "qname_loop msg pos acc = qname_loop msg (pos + 1 + length l) (acc @ [l])"
  using assms label_len_byte [OF assms(1)]
  by (subst qname_loop.simps) (simp add: label_ok_def Let_def)

lemma qname_loop_encoded:
  "\<forall>l \<in> set ls. label_ok l \<Longrightarrow>
     qname_loop (pre @ concat (map encode_label ls) @ 0 # rest) (length pre) acc =
       Some (acc @ ls, length pre + length (concat (map encode_label ls)) + 1)"
proof (induction ls arbitrary: pre acc)
  case Nil
  then show ?case by (simp add: qname_loop.simps nth_append)
next
  case (Cons l ls)
  let ?msg = "pre @ concat (map encode_label (l # ls)) @ 0 # rest"
  have l: "label_ok l" using Cons.prems by simp
  have at: "?msg ! length pre = byte_of_nat (length l)"
    by (simp add: encode_label_def nth_append)
  have sub: "string_of (take (length l) (drop (length pre + 1) ?msg)) = l"
    by (simp add: encode_label_def)
  have "qname_loop ?msg (length pre) acc = qname_loop ?msg (length pre + 1 + length l) (acc @ [l])"
    by (rule qname_loop_label [OF l at _ sub]) simp
  also have "\<dots> = qname_loop ((pre @ encode_label l) @ concat (map encode_label ls) @ 0 # rest)
      (length (pre @ encode_label l)) (acc @ [l])"
    by simp
  also have "\<dots> = Some ((acc @ [l]) @ ls,
      length (pre @ encode_label l) + length (concat (map encode_label ls)) + 1)"
    using Cons.prems by (intro Cons.IH) simp
  finally show ?case by simp
qed

lemma Join_last:
  "ls \<noteq> [] \<Longrightarrow> \<forall>l \<in> set ls. label_ok l \<Longrightarrow> Join ls ''.'' \<noteq> [] \<and> last (Join ls ''.'') \<noteq> CHR ''.''"
proof (induction ls)
  case Nil
  then show ?case by simp
next
  case (Cons l ls)
  then show ?case
    by (cases "ls = []") (auto simp: label_ok_def Join_Cons dest: last_in_set)
qed

lemma TrimSuffix_dot_id: "s = [] \<or> last s \<noteq> CHR ''.'' \<Longrightarrow> TrimSuffix s ''.'' = s"
  by (auto simp: TrimSuffix_def HasSuffix_def suffix_def)

lemma encodeName_Join:
  assumes "ls \<noteq> []" and "\<forall>l \<in> set ls. label_ok l"
  shows "encodeName (Join ls ''.'') = concat (map encode_label ls) @ [0]"
proof -
  have "Join ls ''.'' \<noteq> []" and "TrimSuffix (Join ls ''.'') ''.'' = Join ls ''.''"
    using Join_last [OF assms] by (auto intro: TrimSuffix_dot_id)
  moreover have "Split CHR ''.'' (Join ls ''.'') = ls"
    using assms by (intro Split_Join) (auto simp: label_ok_def)
  ultimately show ?thesis by (simp add: encodeName_def Let_def)
qed

lemma parseQueryName_encoded:
  assumes "length hdr = 12" and "ls \<noteq> []" and "\<forall>l \<in> set ls. label_ok l" and "qtype < 65536"
  shows "parseQueryName (hdr @ encodeName (Join ls ''.'') @ be16 qtype @ be16 qclass @ rest) =
    (ToLower (Join ls ''.''), qtype, 12 + length (encodeName (Join ls ''.'')) + 4)"
proof -
  let ?name = "concat (map encode_label ls)"
  let ?msg = "hdr @ ?name @ 0 # be16 qtype @ be16 qclass @ rest"
  let ?pos = "12 + length ?name + 1"
  have loop: "qname_loop ?msg 12 [] = Some (ls, ?pos)"
    using qname_loop_encoded [OF assms(3), of hdr "be16 qtype @ be16 qclass @ rest" "[]"] assms(1)
    by simp
  have msg: "?msg = (hdr @ ?name @ [0]) @ be16 qtype @ be16 qclass @ rest" by simp
  have "?msg ! ?pos = byte_of_nat (qtype div 256)" and "?msg ! (?pos + 1) = byte_of_nat qtype"
    using assms(1) unfolding msg by (simp_all add: be16_def nth_append)
  moreover have "unat (byte_of_nat (qtype div 256)) * 256 + unat (byte_of_nat qtype) = qtype"
    using assms(4) by (simp add: unat_byte_of_nat)
  ultimately show ?thesis
    using loop assms(1) by (simp add: parseQueryName_def encodeName_Join [OF assms(2,3)])
qed

section \<open>A reader of responses\<close>

text \<open>
  An encoded name as RFC 1035 has it: labels, ended by a zero byte or by a compression
  pointer. The raw bytes are kept.
\<close>

function read_name :: "byte list \<Rightarrow> (byte list \<times> byte list) option" where
  "read_name bs =
    (case bs of [] \<Rightarrow> None
     | b # r \<Rightarrow>
        (if b = 0 then Some ([b], r)
         else if b AND 0xC0 = 0xC0 then (case r of [] \<Rightarrow> None | c # r' \<Rightarrow> Some ([b, c], r'))
         else if unat b > 63 \<or> length r < unat b then None
         else (case read_name (drop (unat b) r) of None \<Rightarrow> None
               | Some (n, r') \<Rightarrow> Some (b # take (unat b) r @ n, r'))))"
  by pat_completeness auto
termination
  by (relation "measure length") auto

declare read_name.simps [simp del]

record rr =
  rr_owner :: "byte list"
  rr_type :: nat
  rr_class :: nat
  rr_ttl :: nat
  rr_data :: "byte list"

definition read_rr :: "byte list \<Rightarrow> (rr \<times> byte list) option" where
  "read_rr bs =
    (case read_name bs of None \<Rightarrow> None | Some (n, r) \<Rightarrow>
     (case read16 r of None \<Rightarrow> None | Some (ty, r) \<Rightarrow>
     (case read16 r of None \<Rightarrow> None | Some (cl, r) \<Rightarrow>
     (case read32 r of None \<Rightarrow> None | Some (ttl, r) \<Rightarrow>
     (case read16 r of None \<Rightarrow> None | Some (len, r) \<Rightarrow>
       (if length r < len then None
        else Some (\<lparr>rr_owner = n, rr_type = ty, rr_class = cl, rr_ttl = ttl,
                    rr_data = take len r\<rparr>, drop len r)))))))"

text \<open>The question: a name, type and class, as raw bytes.\<close>

definition read_question :: "byte list \<Rightarrow> (byte list \<times> byte list) option" where
  "read_question bs = (case read_name bs of None \<Rightarrow> None | Some (n, r) \<Rightarrow>
     (if length r < 4 then None else Some (n @ take 4 r, drop 4 r)))"

record dns_message =
  dm_id :: "byte list"
  dm_flags :: "byte list"
  dm_question :: "byte list list"
  dm_answer :: "rr list"
  dm_authority :: "rr list"

definition read_message :: "byte list \<Rightarrow> dns_message option" where
  "read_message bs =
    (if length bs < 12 then None
     else case read16 (drop 4 bs) of None \<Rightarrow> None | Some (qd, r) \<Rightarrow>
     (case read16 r of None \<Rightarrow> None | Some (an, r) \<Rightarrow>
     (case read16 r of None \<Rightarrow> None | Some (ns, r) \<Rightarrow>
     (case read16 r of None \<Rightarrow> None | Some (ar, r) \<Rightarrow>
     (case decode_seq read_question qd r of None \<Rightarrow> None | Some (q, r) \<Rightarrow>
     (case decode_seq read_rr an r of None \<Rightarrow> None | Some (a, r) \<Rightarrow>
     (case decode_seq read_rr ns r of None \<Rightarrow> None | Some (au, r) \<Rightarrow>
       (if ar = 0 \<and> r = [] then
          Some \<lparr>dm_id = take 2 bs, dm_flags = take 2 (drop 2 bs), dm_question = q,
                dm_answer = a, dm_authority = au\<rparr>
        else None))))))))"

section \<open>Builders against the reader\<close>

definition owner_ok :: "byte list \<Rightarrow> bool" where
  "owner_ok n \<longleftrightarrow> (\<forall>r. read_name (n @ r) = Some (n, r))"

definition question_ok :: "byte list \<Rightarrow> bool" where
  "question_ok q \<longleftrightarrow> (\<forall>r. read_question (q @ r) = Some (q, r))"

definition rr_ok :: "rr \<Rightarrow> bool" where
  "rr_ok x \<longleftrightarrow> owner_ok (rr_owner x) \<and> rr_type x < 65536 \<and> rr_class x = 1 \<and>
     rr_ttl x < 4294967296 \<and> length (rr_data x) < 65536"

definition rr_encode :: "rr \<Rightarrow> byte list" where
  "rr_encode x = rr_bytes (rr_owner x) (rr_type x) (rr_ttl x) (rr_data x)"

lemma qptr_ok [simp]: "owner_ok qptr"
  by (simp add: owner_ok_def qptr_def read_name.simps)

lemma labels_owner_ok:
  "\<forall>l \<in> set ls. label_ok l \<Longrightarrow> owner_ok (concat (map encode_label ls) @ [0])"
proof (induction ls)
  case Nil
  then show ?case by (simp add: owner_ok_def read_name.simps)
next
  case (Cons l ls)
  then have l: "label_ok l" and IH: "owner_ok (concat (map encode_label ls) @ [0])" by auto
  have len: "0 < length l" "length l < 64" using l by (auto simp: label_ok_def)
  have b: "byte_of_nat (length l) \<noteq> 0" "byte_of_nat (length l) AND 0xC0 \<noteq> 0xC0"
    using label_len_byte [OF l] len by (auto simp: unsigned_eq_0_iff)
  show ?case
    unfolding owner_ok_def
  proof
    fix r
    have "read_name (concat (map encode_label ls) @ 0 # r) = Some (concat (map encode_label ls) @ [0], r)"
      using IH by (simp add: owner_ok_def)
    then show "read_name ((concat (map encode_label (l # ls)) @ [0]) @ r) =
        Some (concat (map encode_label (l # ls)) @ [0], r)"
      using b label_len_byte [OF l] len
      by (subst read_name.simps) (simp add: encode_label_def)
  qed
qed

lemma encodeName_owner_ok:
  "ls \<noteq> [] \<Longrightarrow> \<forall>l \<in> set ls. label_ok l \<Longrightarrow> owner_ok (encodeName (Join ls ''.''))"
  by (simp add: encodeName_Join labels_owner_ok)

interpretation rr_codec: prefix_codec rr_encode read_rr rr_ok
proof unfold_locales
  fix x :: rr and r
  assume ok: "rr_ok x"
  then have n: "\<And>r. read_name (rr_owner x @ r) = Some (rr_owner x, r)"
    by (simp add: rr_ok_def owner_ok_def)
  show "read_rr (rr_encode x @ r) = Some (x, r)"
    using ok by (simp add: rr_encode_def rr_bytes_def read_rr_def n be16_codec.dec_enc
        be32_codec.dec_enc rr_ok_def)
qed

interpretation question_codec: prefix_codec "\<lambda>q. q" read_question question_ok
  by unfold_locales (simp add: question_ok_def)

lemma qname_loop_owner:
  "qname_loop msg pos acc = Some (ls, p) \<Longrightarrow> pos \<le> length msg \<Longrightarrow> p < length msg \<Longrightarrow>
     owner_ok (take (p - pos) (drop pos msg))"
proof (induction msg pos acc rule: qname_loop.induct)
  case (1 msg pos acc)
  have lt: "pos < length msg"
    using "1.prems" by (auto simp: qname_loop.simps [of msg pos] split: if_splits)
  let ?b = "msg ! pos" and ?n = "unat (msg ! pos)"
  have hd: "drop pos msg = ?b # drop (Suc pos) msg" using lt by (rule Cons_nth_drop_Suc [symmetric])
  show ?case
  proof (cases "?n = 0")
    case True
    then have "?b = 0" by (simp add: unsigned_eq_0_iff)
    moreover have "p = pos + 1"
      using "1.prems" lt True by (simp add: qname_loop.simps [of msg pos])
    ultimately show ?thesis by (simp add: hd owner_ok_def read_name.simps)
  next
    case False
    with "1.prems"(1) lt have m: "\<not> ?b AND 0xC0 \<noteq> 0" and b: "\<not> length msg < pos + 1 + ?n"
      and r: "qname_loop msg (pos + 1 + ?n) (acc @ [string_of (take ?n (drop (pos + 1) msg))]) = Some (ls, p)"
      by (auto simp: qname_loop.simps [of msg pos] Let_def split: if_splits)
    have le: "pos + 1 + ?n \<le> p" using qname_loop_bounds [OF r] b by simp
    have "?n < 64"
    proof -
      have "list_all (\<lambda>n. 63 < n \<longrightarrow> (of_nat n :: byte) AND 0xC0 \<noteq> 0) [0 ..< 256]" by code_simp
      then have "\<forall>n \<in> set [0 ..< 256]. 63 < n \<longrightarrow> (of_nat n :: byte) AND 0xC0 \<noteq> 0"
        by (simp only: list_all_iff)
      moreover have "?n \<in> set [0 ..< 256]" using unsigned_less [of ?b] by simp
      ultimately have "63 < ?n \<longrightarrow> (of_nat ?n :: byte) AND 0xC0 \<noteq> 0" by (rule bspec)
      then show ?thesis using m by (simp add: not_less)
    qed
    define t where "t = take (p - (pos + 1 + ?n)) (drop (pos + 1 + ?n) msg)"
    have t: "owner_ok t"
      unfolding t_def using "1.IH" [OF lt refl False m b r _ "1.prems"(3)] b by simp
    have "take (p - pos) (drop pos msg) = ?b # take ?n (drop (pos + 1) msg) @ t"
    proof -
      have "p - pos = Suc (?n + (p - (pos + 1 + ?n)))" using le by simp
      then have "take (p - pos) (drop pos msg) = ?b # take (?n + (p - (pos + 1 + ?n))) (drop (Suc pos) msg)"
        by (simp add: hd)
      then show ?thesis by (simp add: take_add t_def add.commute)
    qed
    moreover have "?b \<noteq> 0" and "?b AND 0xC0 \<noteq> 0xC0" using False m by auto
    moreover have "length (take ?n (drop (pos + 1) msg)) = ?n" using b by simp
    ultimately show ?thesis
      using t \<open>?n < 64\<close> unfolding owner_ok_def
      by (subst read_name.simps) (simp split: option.splits)
  qed
qed

lemma question_slice_ok:
  assumes "parseQueryName msg = (name, qtype, qEnd)" and "qEnd \<noteq> 0"
  shows "question_ok (take (qEnd - 12) (drop 12 msg))"
proof -
  obtain ls p where q: "qname_loop msg 12 [] = Some (ls, p)" and l: "12 \<le> length msg"
    and p: "p + 4 \<le> length msg" and e: "qEnd = p + 4"
    using assms by (auto simp: parseQueryName_def not_less split: if_splits option.splits)
  have p12: "12 \<le> p" using qname_loop_bounds [OF q l] by simp
  let ?n = "take (p - 12) (drop 12 msg)"
  have "owner_ok ?n" using qname_loop_owner [OF q l] p by simp
  moreover have "take (qEnd - 12) (drop 12 msg) = ?n @ take 4 (drop p msg)"
  proof -
    have "qEnd - 12 = (p - 12) + 4" using p12 e by simp
    then show ?thesis using p12 by (simp only: take_add drop_drop) simp
  qed
  moreover have "length (take 4 (drop p msg)) = 4" using p by simp
  ultimately show ?thesis
    by (simp add: question_ok_def read_question_def owner_ok_def)
qed

lemma read_message_build:
  assumes "12 \<le> length query" and "\<forall>q \<in> set qs. question_ok q"
    and "\<forall>x \<in> set ans. rr_ok x" and "\<forall>x \<in> set auth. rr_ok x"
    and "length qs < 65536" and "length ans < 65536" and "length auth < 65536"
  shows "read_message (header query rc (length qs) (length ans) (length auth) @ concat qs @
      concat (map rr_encode ans) @ concat (map rr_encode auth)) =
    Some \<lparr>dm_id = take 2 query, dm_flags = [0x84, rc], dm_question = qs,
          dm_answer = ans, dm_authority = auth\<rparr>"
proof -
  let ?body = "concat qs @ concat (map rr_encode ans) @ concat (map rr_encode auth)"
  let ?cnt = "be16 (length qs) @ be16 (length ans) @ be16 (length auth) @ be16 0"
  let ?m = "header query rc (length qs) (length ans) (length auth) @ ?body"
  have l2: "length (take 2 query) = 2" using assms(1) by simp
  have m: "?m = take 2 query @ [0x84, rc] @ ?cnt @ ?body" by (simp add: header_def)
  have "drop 4 ?m = ?cnt @ ?body" and "take 2 ?m = take 2 query" and "take 2 (drop 2 ?m) = [0x84, rc]"
    and "\<not> length ?m < 12"
    unfolding m using l2 by (simp_all add: numeral_eq_Suc)
  moreover have "decode_seq read_question (length qs) ?body =
      Some (qs, concat (map rr_encode ans) @ concat (map rr_encode auth))"
    using question_codec.decode_seq_enc [OF assms(2)] by simp
  moreover have "decode_seq read_rr (length ans) (concat (map rr_encode ans) @ concat (map rr_encode auth)) =
      Some (ans, concat (map rr_encode auth))"
    by (rule rr_codec.decode_seq_enc [OF assms(3)])
  moreover have "decode_seq read_rr (length auth) (concat (map rr_encode auth)) = Some (auth, [])"
    using rr_codec.decode_seq_enc [OF assms(4), of "[]"] by simp
  ultimately show ?thesis
    using assms(5,6,7)
    by (simp only: read_message_def) (simp add: be16_codec.dec_enc)
qed

section \<open>TXT data\<close>

function txt_segments :: "byte list \<Rightarrow> byte list list option" where
  "txt_segments bs =
    (case bs of [] \<Rightarrow> Some []
     | n # r \<Rightarrow>
        (if length r < unat n then None
         else case txt_segments (drop (unat n) r) of None \<Rightarrow> None
              | Some segs \<Rightarrow> Some (take (unat n) r # segs)))"
  by pat_completeness auto
termination
  by (relation "measure length") auto

declare txt_segments.simps [simp del]

lemma txt_segments_Nil [simp]: "txt_segments [] = Some []"
  by (simp add: txt_segments.simps)

lemma txt_segments_Cons:
  "unat n = length seg \<Longrightarrow> txt_segments (n # seg @ r) = map_option ((#) seg) (txt_segments r)"
  by (subst txt_segments.simps) (auto split: option.splits)

lemma txt_segments_encode:
  "\<exists>segs. txt_segments (encodeTXTStrings v) = Some segs \<and> concat segs = v \<and> segs \<noteq> [] \<and>
     (\<forall>s \<in> set segs. length s \<le> 255)"
proof (induction v rule: encodeTXTStrings.induct)
  case (1 v)
  show ?case
  proof (cases "length v > 255")
    case True
    then obtain segs where "txt_segments (encodeTXTStrings (drop 255 v)) = Some segs"
      and "concat segs = drop 255 v" and "\<forall>s \<in> set segs. length s \<le> 255"
      using 1 by blast
    moreover have "txt_segments (255 # take 255 v @ encodeTXTStrings (drop 255 v)) =
        map_option ((#) (take 255 v)) (txt_segments (encodeTXTStrings (drop 255 v)))"
      using True by (intro txt_segments_Cons) simp
    ultimately show ?thesis
      using True by (auto simp: encodeTXTStrings.simps [of v])
  next
    case False
    then have "txt_segments (byte_of_nat (length v) # v @ []) = Some [v]"
      by (subst txt_segments_Cons) (auto simp: unat_byte_of_nat)
    with False show ?thesis by (simp add: encodeTXTStrings.simps [of v])
  qed
qed

lemma length_encodeTXTStrings: "length (encodeTXTStrings v) \<le> length v + 1 + length v div 255"
proof (induction v rule: encodeTXTStrings.induct)
  case (1 v)
  show ?case
  proof (cases "length v > 255")
    case True
    then have "length v div 255 = (length v - 255) div 255 + 1"
      by (simp add: le_div_geq)
    with 1 True show ?thesis by (simp add: encodeTXTStrings.simps [of v])
  next
    case False
    then show ?thesis by (simp add: encodeTXTStrings.simps [of v])
  qed
qed

section \<open>Properties\<close>

text \<open>
  C29. Question round trip: a query for a name of non-empty dot-free labels of at most 63 bytes,
  encoded by the server's own name encoder after any 12-byte header, is parsed back to the
  lower-cased name, the query type, and the offset just after the question, whatever
  follows (an EDNS record, for instance).
\<close>

theorem question_roundtrip:
  assumes "length hdr = 12" and "ls \<noteq> []" and "\<forall>l \<in> set ls. label_ok l" and "qtype < 65536"
  shows "parseQueryName (hdr @ encodeName (Join ls ''.'') @ be16 qtype @ be16 qclass @ rest) =
    (ToLower (Join ls ''.''), qtype, 12 + length (encodeName (Join ls ''.'')) + 4)"
  using assms by (rule parseQueryName_encoded)

theorem question_roundtrip_witness:
  "parseQueryName (replicate 12 7 @ encodeName (Join [''WWW'', ''a''] ''.'') @ be16 16 @ be16 1 @ [9]) =
    (''www.a'', 16, 23)"
proof -
  have "ToLower (Join [''WWW'', ''a''] ''.'') = ''www.a''"
    and "12 + length (encodeName (Join [''WWW'', ''a''] ''.'')) + 4 = 23" by code_simp+
  moreover have "\<forall>l \<in> set [''WWW'', ''a'']. label_ok l" by (simp add: label_ok_def)
  ultimately show ?thesis
    using question_roundtrip [where hdr = "replicate 12 7" and ls = "[''WWW'', ''a'']"
        and qtype = 16 and qclass = 1 and rest = "[9]"] by simp
qed

text \<open>
  TXT data: a value of any length is encoded as one or more length-prefixed strings of at
  most 255 bytes whose concatenation is the value.
\<close>

theorem txt_roundtrip:
  "\<exists>segs. txt_segments (encodeTXTStrings v) = Some segs \<and> concat segs = v \<and> segs \<noteq> [] \<and>
     list_all (\<lambda>s. length s \<le> 255) segs"
  using txt_segments_encode [of v] by (auto simp: list_all_iff)

text \<open>
  TCP framing: a response of at least one and at most 65535 bytes, framed as the server
  writes it, is read back by the server's own reader, whatever follows in the stream.
\<close>

theorem tcp_roundtrip:
  assumes "0 < length m" and "length m < 65536"
  shows "readTCPMessage (tcp_frame m @ rest) = Some m"
  using assms by (simp add: readTCPMessage_def tcp_frame_def be16_codec.dec_enc)

theorem tcp_roundtrip_witness: "readTCPMessage (tcp_frame [1, 2, 3] @ [9, 9]) = Some [1, 2, 3]"
  by (rule tcp_roundtrip) simp_all

end
