(* ===== verification/Fleet.thy ===== *)
theory Fleet
  imports GoTime
begin

text \<open>
  The fleet configuration (\<open>internal/fleet/fleet.go\<close>): the records the TOML decoder fills, the
  validated configuration, and \<open>convert\<close> with its defaults and errors. Decoding TOML bytes into
  the raw records is the library's work and not modelled; a pointer field is an option.
  Adapter limits are the association list of the Go map.
\<close>

section \<open>Raw records\<close>

record rawControl =
  rc_Timeout :: string
  rc_AuthTokenFile :: string

record rawNameserver =
  rn_ID :: string
  rn_Address :: string
  rn_ControlPort :: int
  rn_DNSPort :: int
  rn_Domains :: "string list"
  rn_Hosts :: "string list"

record rawSite =
  rst_ID :: string
  rst_Host :: string
  rst_Paths :: "string list"

record rawGeneratedSiteRange =
  rg_ID :: string
  rg_HostPattern :: string
  rg_Start :: "int option"
  rg_Count :: int
  rg_Paths :: "string list"

record rawTarget =
  rt_ID :: string
  rt_Address :: string
  rt_ControlPort :: int
  rt_Sites :: "rawSite list"
  rt_GeneratedSites :: "rawGeneratedSiteRange list"

record rawDomain =
  rd_Name :: string
  rd_Registrar :: string
  rd_Nameservers :: "string list"
  rd_NameserverHosts :: "string list"
  rd_TTL :: int

record rawCertmint =
  rcm_ID :: string
  rcm_Address :: string
  rcm_LibraryPort :: int

record rawConfig =
  rcf_Control :: rawControl
  rcf_Adapters :: "(string \<times> int) list"
  rcf_Nameservers :: "rawNameserver list"
  rcf_Targets :: "rawTarget list"
  rcf_Domains :: "rawDomain list"
  rcf_Certmint :: "rawCertmint option"

section \<open>The configuration\<close>

record ControlConfig =
  cc_Timeout :: duration
  cc_AuthTokenFile :: string

record Nameserver =
  ns_ID :: string
  ns_Address :: string
  ns_ControlPort :: int
  ns_DNSPort :: int
  ns_Domains :: "string list"
  ns_Hosts :: "string list"

record Site =
  site_ID :: string
  site_Host :: string
  site_Paths :: "string list"

record GeneratedSiteRange =
  gs_ID :: string
  gs_HostPattern :: string
  gs_Start :: int
  gs_Count :: int
  gs_Paths :: "string list"

record Target =
  tg_ID :: string
  tg_Address :: string
  tg_ControlPort :: int
  tg_Sites :: "Site list"
  tg_GeneratedSites :: "GeneratedSiteRange list"

record Domain =
  dom_Name :: string
  dom_Registrar :: string
  dom_Nameservers :: "string list"
  dom_NameserverHosts :: "string list"
  dom_TTL :: int

record Certmint =
  cm_ID :: string
  cm_Address :: string
  cm_LibraryPort :: int

record Config =
  cfg_Control :: ControlConfig
  cfg_Adapters :: "(string \<times> int) list"
  cfg_Nameservers :: "Nameserver list"
  cfg_Targets :: "Target list"
  cfg_Domains :: "Domain list"
  cfg_Certmint :: "Certmint option"

section \<open>Validation\<close>

definition convert_nameserver :: "rawNameserver \<Rightarrow> Nameserver result" where
  "convert_nameserver ns =
    (if rn_ID ns = [] then Inl ''fleet: nameserver missing id''
     else if rn_ControlPort ns = 0 then Inl ''fleet: nameserver: control_port is required''
     else Inr \<lparr>ns_ID = rn_ID ns, ns_Address = rn_Address ns, ns_ControlPort = rn_ControlPort ns,
       ns_DNSPort = (if rn_DNSPort ns = 0 then 53 else rn_DNSPort ns),
       ns_Domains = rn_Domains ns, ns_Hosts = rn_Hosts ns\<rparr>)"

definition convert_generated :: "rawGeneratedSiteRange \<Rightarrow> GeneratedSiteRange result" where
  "convert_generated s =
    (if rg_ID s = [] then Inl ''fleet: target: generated site range missing id''
     else if rg_HostPattern s = [] then Inl ''fleet: target: generated site range: host_pattern is required''
     else if rg_Count s \<le> 0 then Inl ''fleet: target: generated site range: count must be positive''
     else case rg_Start s of
       None \<Rightarrow> Inr \<lparr>gs_ID = rg_ID s, gs_HostPattern = rg_HostPattern s, gs_Start = 1,
                    gs_Count = rg_Count s, gs_Paths = rg_Paths s\<rparr>
     | Some st \<Rightarrow>
         if st < 0 then Inl ''fleet: target: generated site range: start must be non-negative''
         else Inr \<lparr>gs_ID = rg_ID s, gs_HostPattern = rg_HostPattern s, gs_Start = st,
                   gs_Count = rg_Count s, gs_Paths = rg_Paths s\<rparr>)"

definition convert_site :: "rawSite \<Rightarrow> Site" where
  "convert_site s = \<lparr>site_ID = rst_ID s, site_Host = rst_Host s, site_Paths = rst_Paths s\<rparr>"

definition convert_target :: "rawTarget \<Rightarrow> Target result" where
  "convert_target t =
    (if rt_ID t = [] then Inl ''fleet: target missing id''
     else if rt_ControlPort t = 0 then Inl ''fleet: target: control_port is required''
     else rbind (rmap convert_generated (rt_GeneratedSites t)) (\<lambda>gen.
       Inr \<lparr>tg_ID = rt_ID t, tg_Address = rt_Address t, tg_ControlPort = rt_ControlPort t,
         tg_Sites = map convert_site (rt_Sites t), tg_GeneratedSites = gen\<rparr>))"

definition convert_domain :: "rawDomain \<Rightarrow> Domain" where
  "convert_domain d = \<lparr>dom_Name = rd_Name d, dom_Registrar = rd_Registrar d,
     dom_Nameservers = rd_Nameservers d, dom_NameserverHosts = rd_NameserverHosts d,
     dom_TTL = rd_TTL d\<rparr>"

definition convert_certmint :: "rawCertmint option \<Rightarrow> Certmint option result" where
  "convert_certmint m =
    (case m of None \<Rightarrow> Inr None
     | Some c \<Rightarrow>
         if rcm_ID c = [] then Inl ''fleet: certmint.id is required''
         else if rcm_Address c = [] then Inl ''fleet: certmint: address is required''
         else Inr (Some \<lparr>cm_ID = rcm_ID c, cm_Address = rcm_Address c,
                         cm_LibraryPort = rcm_LibraryPort c\<rparr>))"

definition convert :: "rawConfig \<Rightarrow> Config result" where
  "convert r =
    rbind (if rc_Timeout (rcf_Control r) = [] then Inr (10 * Second)
           else case ParseDuration (rc_Timeout (rcf_Control r)) of
             None \<Rightarrow> Inl ''fleet: control.timeout'' | Some d \<Rightarrow> Inr d) (\<lambda>timeout.
    rbind (rmap convert_nameserver (rcf_Nameservers r)) (\<lambda>nss.
    rbind (rmap convert_target (rcf_Targets r)) (\<lambda>tgs.
    rbind (convert_certmint (rcf_Certmint r)) (\<lambda>cm.
      Inr \<lparr>cfg_Control = \<lparr>cc_Timeout = timeout, cc_AuthTokenFile = rc_AuthTokenFile (rcf_Control r)\<rparr>,
           cfg_Adapters = rcf_Adapters r, cfg_Nameservers = nss, cfg_Targets = tgs,
           cfg_Domains = map convert_domain (rcf_Domains r), cfg_Certmint = cm\<rparr>))))"

definition LibraryURL :: "Certmint option \<Rightarrow> string" where
  "LibraryURL c = (case c of None \<Rightarrow> []
     | Some m \<Rightarrow> if cm_Address m = [] then []
         else (let port = (if cm_LibraryPort m = 0 then 9200 else cm_LibraryPort m)
               in ''http://'' @ cm_Address m @ '':'' @ show_int port))"

section \<open>Well-formed fleets\<close>

definition nameserver_ok :: "Nameserver \<Rightarrow> bool" where
  "nameserver_ok n \<longleftrightarrow> ns_ID n \<noteq> [] \<and> ns_ControlPort n \<noteq> 0 \<and> ns_DNSPort n \<noteq> 0"

definition generated_ok :: "GeneratedSiteRange \<Rightarrow> bool" where
  "generated_ok g \<longleftrightarrow> gs_ID g \<noteq> [] \<and> gs_HostPattern g \<noteq> [] \<and> gs_Count g > 0 \<and> gs_Start g \<ge> 0"

definition target_ok :: "Target \<Rightarrow> bool" where
  "target_ok t \<longleftrightarrow> tg_ID t \<noteq> [] \<and> tg_ControlPort t \<noteq> 0 \<and> list_all generated_ok (tg_GeneratedSites t)"

lemma convert_nameserver_ok: "convert_nameserver r = Inr n \<Longrightarrow> nameserver_ok n"
  by (auto simp: convert_nameserver_def nameserver_ok_def split: if_splits)

lemma convert_generated_ok: "convert_generated r = Inr g \<Longrightarrow> generated_ok g"
  by (auto simp: convert_generated_def generated_ok_def split: if_splits option.splits)

lemma convert_target_ok: "convert_target r = Inr t \<Longrightarrow> target_ok t"
  by (auto simp: convert_target_def target_ok_def split: if_splits
      dest!: rmap_Inr_all [where P = generated_ok] dest: convert_generated_ok)

text \<open>
  C36. An accepted fleet configuration is well formed: every nameserver has an id, a control port
  and a DNS port, every target an id and a control port, every generated host range an id,
  a pattern, a positive count and a non-negative start; the members are those of the file
  in the same order and number; and there is a certificate library to poll exactly when the
  file declares one.
\<close>

theorem fleet_convert_ok:
  assumes "convert r = Inr c"
  shows "list_all nameserver_ok (cfg_Nameservers c) \<and> list_all target_ok (cfg_Targets c) \<and>
    map ns_ID (cfg_Nameservers c) = map rn_ID (rcf_Nameservers r) \<and>
    map tg_ID (cfg_Targets c) = map rt_ID (rcf_Targets r) \<and>
    (LibraryURL (cfg_Certmint c) = [] \<longleftrightarrow> rcf_Certmint r = None)"
proof -
  from assms obtain nss tgs cm where nss: "rmap convert_nameserver (rcf_Nameservers r) = Inr nss"
    and tgs: "rmap convert_target (rcf_Targets r) = Inr tgs"
    and cm: "convert_certmint (rcf_Certmint r) = Inr cm"
    and c: "cfg_Nameservers c = nss" "cfg_Targets c = tgs" "cfg_Certmint c = cm"
    by (auto simp: convert_def)
  have "list_all nameserver_ok nss"
    using nss by (rule rmap_Inr_all) (rule convert_nameserver_ok)
  moreover have "list_all target_ok tgs"
    using tgs by (rule rmap_Inr_all) (rule convert_target_ok)
  moreover have "map ns_ID nss = map rn_ID (rcf_Nameservers r)"
    using nss unfolding rmap_Inr_list_all2
    by (induction rule: list_all2_induct) (auto simp: convert_nameserver_def split: if_splits)
  moreover have "map tg_ID tgs = map rt_ID (rcf_Targets r)"
    using tgs unfolding rmap_Inr_list_all2
    by (induction rule: list_all2_induct) (auto simp: convert_target_def split: if_splits)
  moreover have "LibraryURL cm = [] \<longleftrightarrow> rcf_Certmint r = None"
    using cm by (auto simp: convert_certmint_def LibraryURL_def Let_def split: option.splits if_splits)
  ultimately show ?thesis using c by simp
qed

definition demo_fleet :: rawConfig where
  "demo_fleet = \<lparr>rcf_Control = \<lparr>rc_Timeout = [], rc_AuthTokenFile = ''/t''\<rparr>, rcf_Adapters = [],
     rcf_Nameservers = [\<lparr>rn_ID = ''n1'', rn_Address = ''192.0.2.1'', rn_ControlPort = 9000,
       rn_DNSPort = 0, rn_Domains = [''a.test''], rn_Hosts = []\<rparr>],
     rcf_Targets = [], rcf_Domains = [], rcf_Certmint = None\<rparr>"

theorem fleet_convert_ok_witness:
  "\<exists>c. convert demo_fleet = Inr c \<and> list_all nameserver_ok (cfg_Nameservers c) \<and>
     map ns_ID (cfg_Nameservers c) = [''n1'']"
proof -
  obtain c where c: "convert demo_fleet = Inr c"
    by (simp add: convert_def demo_fleet_def convert_nameserver_def convert_certmint_def)
  with fleet_convert_ok [OF c] show ?thesis by (simp add: demo_fleet_def)
qed

end
