(* ===== verification/Dns_Zones.thy ===== *)
theory Dns_Zones
  imports Dns_Wire Fleet "HOL-Library.List_Lexorder" "HOL-Library.Char_ord"
begin

text \<open>
  The authoritative data of a nameserver member: \<open>src/internal/dnsserver/zones.go\<close> (lookups),
  \<open>generated.go\<close> (host ranges described by a pattern) and the zone construction of
  \<open>dnsserver.go\<close>. An outer \<open>None\<close> is a Go panic (a slice expression out of range), the inner
  option is the boolean the function returns. A Go map is an association list; where the
  source ranges over a map, the order in which Go visits its keys is an argument. Name
  resolution (\<open>net.ParseIP\<close>, \<open>net.LookupHost\<close>) is given by the arguments \<open>parseIP\<close> and
  \<open>lookupHost\<close>. TTLs are \<open>uint32\<close> values.
\<close>

section \<open>Generated host ranges\<close>

record ZoneEntry =
  ze_IP :: "byte list"
  ze_TTL :: nat

record GeneratedRecordRange =
  gr_ID :: string
  gr_HostPattern :: string
  gr_Prefix :: string
  gr_Suffix :: string
  gr_Width :: int
  gr_Start :: int
  gr_End :: int
  gr_IP :: "byte list"
  gr_TTL :: nat

text \<open>\<open>strconv.Atoi\<close> and \<open>strconv.ParseInt\<close> on a non-empty string of digits.\<close>

definition parse_digits :: "string \<Rightarrow> int option" where
  "parse_digits s = (let n = digits_val s in if n < 2 ^ 63 then Some n else None)"

definition parseGeneratedHostPattern :: "string \<Rightarrow> (string \<times> string \<times> int) result" where
  "parseGeneratedHostPattern pattern0 =
    (let pattern = ToLower (TrimSuffix pattern0 ''.'') in
     if CHR ''%'' \<notin> set pattern then Inl ''host_pattern must contain one placeholder''
     else
       (let pre = takeWhile (\<lambda>c. c \<noteq> CHR ''%'') pattern;
            rest = tl (dropWhile (\<lambda>c. c \<noteq> CHR ''%'') pattern) in
        if CHR ''%'' \<in> set rest then Inl ''host_pattern must contain exactly one integer placeholder''
        else if rest = [] then Inl ''host_pattern has incomplete placeholder''
        else
          rbind (if hd rest = CHR ''0'' then
                   (let ds = takeWhile is_digit (tl rest) in
                    if ds = [] then Inl ''zero-padded placeholder must include a width''
                    else case parse_digits ds of
                      None \<Rightarrow> Inl ''invalid placeholder width''
                    | Some w \<Rightarrow> if w \<le> 0 then Inl ''invalid placeholder width''
                                else Inr (w, dropWhile is_digit (tl rest)))
                 else Inr (0, rest)) (\<lambda>(width, after).
            if after = [] \<or> hd after \<noteq> CHR ''d'' then Inl ''host_pattern must use %d or %0Nd''
            else Inr (pre, tl after, width))))"

definition NewGeneratedRecordRange ::
  "string \<Rightarrow> string \<Rightarrow> int \<Rightarrow> int \<Rightarrow> byte list \<Rightarrow> nat \<Rightarrow> GeneratedRecordRange result" where
  "NewGeneratedRecordRange rid hostPattern start cnt ip ttl =
    (if rid = [] then Inl ''generated range id is required''
     else if hostPattern = [] then Inl ''generated range: host pattern is required''
     else if start < 0 then Inl ''generated range: start must be non-negative''
     else if cnt \<le> 0 then Inl ''generated range: cnt must be positive''
     else case To4 ip of None \<Rightarrow> Inl ''generated range: IPv4 address is required''
       | Some ip4 \<Rightarrow>
           rbind (parseGeneratedHostPattern hostPattern) (\<lambda>(pre, suf, width).
             Inr \<lparr>gr_ID = rid, gr_HostPattern = ToLower (TrimSuffix hostPattern ''.''),
                  gr_Prefix = pre, gr_Suffix = suf, gr_Width = width, gr_Start = start,
                  gr_End = wrap64 (start + cnt - 1), gr_IP = ip4, gr_TTL = ttl\<rparr>))"

definition generated_Lookup :: "GeneratedRecordRange \<Rightarrow> string \<Rightarrow> ZoneEntry option option" where
  "generated_Lookup r host0 =
    (let host = ToLower (TrimSuffix host0 ''.'') in
     if \<not> HasPrefix host (gr_Prefix r) \<or> \<not> HasSuffix host (gr_Suffix r) then Some None
     else if length host < length (gr_Prefix r) + length (gr_Suffix r) then None
     else
       (let middle = take (length host - length (gr_Suffix r) - length (gr_Prefix r))
                       (drop (length (gr_Prefix r)) host) in
        if middle = [] then Some None
        else if gr_Width r > 0 \<and> int (length middle) < gr_Width r then Some None
        else if gr_Width r = 0 \<and> length middle > 1 \<and> hd middle = CHR ''0'' then Some None
        else if \<not> list_all is_digit middle then Some None
        else case parse_digits middle of
          None \<Rightarrow> Some None
        | Some n \<Rightarrow> if n < gr_Start r \<or> n > gr_End r then Some None
                    else Some (Some \<lparr>ze_IP = gr_IP r, ze_TTL = gr_TTL r\<rparr>)))"

section \<open>Zones\<close>

record Zones =
  z_Records :: "(string \<times> ZoneEntry) list"
  z_Generated :: "GeneratedRecordRange list"
  z_Apex :: "(string \<times> ZoneApex) list"

text \<open>\<open>host == domain || strings.HasSuffix(host, "." + domain)\<close>, used for hosts and zones alike.\<close>

definition under_domain :: "string \<Rightarrow> string \<Rightarrow> bool" where
  "under_domain host domain \<longleftrightarrow> host = domain \<or> HasSuffix host (CHR ''.'' # domain)"

fun apex_loop :: "(string \<times> ZoneApex) list \<Rightarrow> string list \<Rightarrow> string \<Rightarrow> ZoneApex option" where
  "apex_loop m [] host = None"
| "apex_loop m (k # ks) host =
    (case map_of m k of
       None \<Rightarrow> apex_loop m ks host
     | Some za \<Rightarrow> if under_domain host k then Some za else apex_loop m ks host)"

definition LookupApex :: "Zones option \<Rightarrow> string list \<Rightarrow> string \<Rightarrow> ZoneApex option" where
  "LookupApex z ks host =
    (case z of None \<Rightarrow> None
     | Some zs \<Rightarrow> apex_loop (z_Apex zs) ks (ToLower (TrimSuffix host ''.'')))"

fun generated_loop :: "GeneratedRecordRange list \<Rightarrow> string \<Rightarrow> ZoneEntry option option" where
  "generated_loop [] host = Some None"
| "generated_loop (g # gs) host =
    (case generated_Lookup g host of
       None \<Rightarrow> None
     | Some (Some e) \<Rightarrow> Some (Some e)
     | Some None \<Rightarrow> generated_loop gs host)"

definition LookupA :: "Zones option \<Rightarrow> string \<Rightarrow> ZoneEntry option option" where
  "LookupA z host0 =
    (case z of None \<Rightarrow> Some None
     | Some zs \<Rightarrow>
         (let host = ToLower (TrimSuffix host0 ''.'') in
          case map_of (z_Records zs) host of
            Some e \<Rightarrow> Some (Some e)
          | None \<Rightarrow> generated_loop (z_Generated zs) host))"

section \<open>Building the zones of a member\<close>

type_synonym ip_parser = "string \<Rightarrow> byte list option"
type_synonym host_resolver = "string \<Rightarrow> string list option"

definition ResolveIPv4 :: "ip_parser \<Rightarrow> host_resolver \<Rightarrow> string \<Rightarrow> byte list option" where
  "ResolveIPv4 parseIP lookupHost addr =
    (case parseIP addr of
       Some ip \<Rightarrow> To4 ip
     | None \<Rightarrow>
         (case lookupHost addr of
            None \<Rightarrow> None
          | Some addrs \<Rightarrow>
              (case List.map_filter (\<lambda>a. Option.bind (parseIP a) To4) addrs of
                 [] \<Rightarrow> None | v4 # _ \<Rightarrow> Some v4)))"

definition generatedPatternUnderDomain :: "string \<Rightarrow> string \<Rightarrow> bool" where
  "generatedPatternUnderDomain hostPattern domain =
    (if under_domain hostPattern domain then True
     else case parseGeneratedHostPattern hostPattern of
       Inl _ \<Rightarrow> False
     | Inr (pre, suf, _) \<Rightarrow> HasSuffix (pre @ suf) (CHR ''.'' # domain))"

definition Cut :: "string \<Rightarrow> char \<Rightarrow> (string \<times> string) option" where
  "Cut s sep = (if sep \<notin> set s then None
     else Some (takeWhile (\<lambda>c. c \<noteq> sep) s, tl (dropWhile (\<lambda>c. c \<noteq> sep) s)))"

fun MergeFlagZones ::
  "(string \<Rightarrow> byte list option) \<Rightarrow> (string \<times> ZoneEntry) list \<Rightarrow> string list \<Rightarrow> (string \<times> ZoneEntry) list result" where
  "MergeFlagZones resolve m [] = Inr m"
| "MergeFlagZones resolve m (entry # rest) =
    (case Cut entry CHR '':'' of
       None \<Rightarrow> Inl ''invalid zone''
     | Some (name0, addr) \<Rightarrow>
         if name0 = [] \<or> addr = [] then Inl ''invalid zone''
         else case resolve addr of
           None \<Rightarrow> Inl ''zone: cannot resolve''
         | Some ip \<Rightarrow> MergeFlagZones resolve
             (AList.update (ToLower (TrimSuffix name0 ''.'')) \<lparr>ze_IP = ip, ze_TTL = 30\<rparr> m) rest)"

text \<open>The TTL and the declared nameserver hosts of every domain of the fleet.\<close>

definition domain_ttl :: "Domain \<Rightarrow> nat" where
  "domain_ttl d = (let ttl = nat (dom_TTL d mod 2 ^ 32) in if ttl = 0 then 30 else ttl)"

definition domainTTL :: "Domain list \<Rightarrow> (string \<times> nat) list" where
  "domainTTL ds = fold (\<lambda>d. AList.update (ToLower (dom_Name d)) (domain_ttl d)) ds []"

definition domainNSHosts :: "Domain list \<Rightarrow> string \<Rightarrow> string list" where
  "domainNSHosts ds name = concat (map (\<lambda>d.
     if ToLower (dom_Name d) = name
     then filter (\<lambda>h. h \<noteq> []) (map (\<lambda>h. ToLower (TrimSuffix h ''.'')) (dom_NameserverHosts d))
     else []) ds)"

definition servedDomains :: "Domain list \<Rightarrow> Nameserver \<Rightarrow> (string \<times> nat) list" where
  "servedDomains ds ns = fold (\<lambda>domain.
     let d = ToLower domain
     in AList.update d (case map_of (domainTTL ds) d of None \<Rightarrow> 30 | Some ttl \<Rightarrow> ttl))
     (ns_Domains ns) []"

text \<open>
  \<open>for domain, ttl := range servedDomains { if match { ...; break } }\<close>: the first domain, in
  the order \<open>ks\<close> of the range, that matches.
\<close>

fun range_first :: "(string \<times> nat) list \<Rightarrow> string list \<Rightarrow> (string \<Rightarrow> bool) \<Rightarrow> (string \<times> nat) option" where
  "range_first m [] P = None"
| "range_first m (k # ks) P =
    (case map_of m k of
       None \<Rightarrow> range_first m ks P
     | Some ttl \<Rightarrow> if P k then Some (k, ttl) else range_first m ks P)"

type_synonym range_orders = "string \<Rightarrow> nat \<Rightarrow> nat \<Rightarrow> string list"

definition add_host ::
  "(string \<times> nat) list \<Rightarrow> string list \<Rightarrow> byte list \<Rightarrow> string \<Rightarrow> (string \<times> ZoneEntry) list \<Rightarrow> (string \<times> ZoneEntry) list" where
  "add_host served ks ip host0 m =
    (let host = ToLower host0
     in case range_first served ks (under_domain host) of
          None \<Rightarrow> m
        | Some (_, ttl) \<Rightarrow> AList.update host \<lparr>ze_IP = ip, ze_TTL = ttl\<rparr> m)"

definition add_generated ::
  "(string \<times> nat) list \<Rightarrow> string list \<Rightarrow> byte list \<Rightarrow> GeneratedSiteRange \<Rightarrow> GeneratedRecordRange list result" where
  "add_generated served ks ip site =
    (let hostPattern = ToLower (TrimSuffix (gs_HostPattern site) ''.'')
     in case range_first served ks (generatedPatternUnderDomain hostPattern) of
          None \<Rightarrow> Inr []
        | Some (_, ttl) \<Rightarrow>
            rbind (NewGeneratedRecordRange (gs_ID site) hostPattern (gs_Start site) (gs_Count site) ip ttl)
              (\<lambda>r. Inr [r]))"

fun target_records ::
  "(string \<Rightarrow> byte list option) \<Rightarrow> (string \<times> nat) list \<Rightarrow> range_orders \<Rightarrow> nat \<Rightarrow> Target list \<Rightarrow>
     (string \<times> ZoneEntry) list \<Rightarrow> GeneratedRecordRange list \<Rightarrow>
     ((string \<times> ZoneEntry) list \<times> GeneratedRecordRange list) result" where
  "target_records resolve served ord i [] m gen = Inr (m, gen)"
| "target_records resolve served ord i (t # ts) m gen =
    (case resolve (tg_Address t) of
       None \<Rightarrow> Inl ''target: cannot resolve to IPv4''
     | Some ip \<Rightarrow>
         (let m' = fold (\<lambda>(j, s). add_host served (ord ''site'' i j) ip (site_Host s))
                     (enumerate 0 (tg_Sites t)) m
          in rbind (rmap (\<lambda>(j, s). add_generated served (ord ''generated'' i j) ip s)
                     (enumerate 0 (tg_GeneratedSites t))) (\<lambda>rs.
             target_records resolve served ord (Suc i) ts m' (gen @ concat rs))))"

fun nameserver_records ::
  "(string \<Rightarrow> byte list option) \<Rightarrow> (string \<times> nat) list \<Rightarrow> range_orders \<Rightarrow> nat \<Rightarrow> Nameserver list \<Rightarrow>
     (string \<times> ZoneEntry) list \<Rightarrow> (string \<times> ZoneEntry) list result" where
  "nameserver_records resolve served ord i [] m = Inr m"
| "nameserver_records resolve served ord i (ns # nss) m =
    (if ns_Hosts ns = [] then nameserver_records resolve served ord (Suc i) nss m
     else case resolve (ns_Address ns) of
       None \<Rightarrow> Inl ''nameserver: cannot resolve to IPv4''
     | Some ip \<Rightarrow> nameserver_records resolve served ord (Suc i) nss
         (fold (\<lambda>(j, h). add_host served (ord ''nameserver'' i j) ip h) (enumerate 0 (ns_Hosts ns)) m))"

definition fallback_hosts :: "Nameserver list \<Rightarrow> string \<Rightarrow> string list" where
  "fallback_hosts nss domain = List.map_filter (\<lambda>ns.
     find (\<lambda>h. under_domain h domain) (map ToLower (ns_Hosts ns))) nss"

definition zone_apex :: "Config \<Rightarrow> nat \<Rightarrow> string \<Rightarrow> nat \<Rightarrow> ZoneApex" where
  "zone_apex cfg serial domain ttl =
    (let declared = domainNSHosts (cfg_Domains cfg) domain;
         nsHosts = sort (if declared = [] then fallback_hosts (cfg_Nameservers cfg) domain else declared);
         mname = (if nsHosts = [] then domain else hd nsHosts)
     in \<lparr>za_Name = domain, za_NSHostnames = nsHosts,
         za_SOA = \<lparr>soa_MName = mname, soa_RName = ''hostmaster.'' @ domain, soa_Serial = serial,
                   soa_Refresh = 3600, soa_Retry = 600, soa_Expire = 86400, soa_Minimum = ttl\<rparr>\<rparr>)"

definition BuildFromFleet ::
  "(string \<Rightarrow> byte list option) \<Rightarrow> range_orders \<Rightarrow> Config \<Rightarrow> string \<Rightarrow> nat \<Rightarrow> Zones result" where
  "BuildFromFleet resolve ord cfg memberID serial =
    (case find (\<lambda>ns. ns_ID ns = memberID) (cfg_Nameservers cfg) of
       None \<Rightarrow> Inl ''nameserver not found in fleet config''
     | Some ns \<Rightarrow>
         (let served = servedDomains (cfg_Domains cfg) ns
          in rbind (target_records resolve served ord 0 (cfg_Targets cfg) [] []) (\<lambda>(m, generated).
             rbind (nameserver_records resolve served ord 0 (cfg_Nameservers cfg) m) (\<lambda>m'.
               Inr \<lparr>z_Records = m', z_Generated = generated,
                    z_Apex = map (\<lambda>(domain, ttl). (domain, zone_apex cfg serial domain ttl)) served\<rparr>))))"

section \<open>Lookups\<close>

text \<open>What \<open>fmt.Sprintf\<close> makes of a host pattern: the number, zero-padded to the width.\<close>

definition padded :: "int \<Rightarrow> int \<Rightarrow> string" where
  "padded width n = replicate (nat (width - int (length (dec_digits n)))) CHR ''0'' @ dec_digits n"

definition expand :: "string \<Rightarrow> int \<Rightarrow> string \<Rightarrow> int \<Rightarrow> string" where
  "expand pre width suf n = pre @ padded width n @ suf"

lemma ToLower_parts:
  assumes "ToLower s = s"
  shows "ToLower (takeWhile P s) = takeWhile P s" and "ToLower (dropWhile P s) = dropWhile P s"
    and "ToLower (tl s) = tl s"
proof -
  have low: "\<forall>c \<in> set s. lower_char c = c"
    using assms unfolding ToLower_def by (metis map_eq_conv list.map_ident)
  then show "ToLower (takeWhile P s) = takeWhile P s" "ToLower (dropWhile P s) = dropWhile P s"
    by (auto simp: ToLower_def intro!: map_idI dest: set_takeWhileD set_dropWhileD)
  from low show "ToLower (tl s) = tl s"
    by (cases s) (auto simp: ToLower_def intro!: map_idI)
qed

lemma digits_ToLower: "list_all is_digit s \<Longrightarrow> ToLower s = s"
  by (auto simp: ToLower_def list_all_iff is_digit_def lower_char_def Let_def intro!: map_idI)

lemma parse_pattern_lower:
  assumes "parseGeneratedHostPattern p = Inr (pre, suf, width)"
  shows "ToLower pre = pre" and "ToLower suf = suf" and "0 \<le> width"
  using assms
  by (auto simp: parseGeneratedHostPattern_def Let_def rbind_def ToLower_parts
      split: if_splits sum.splits option.splits)

lemma middle_iff:
  "HasPrefix host pre \<and> HasSuffix host suf \<and> length pre + length suf \<le> length host \<and>
     m = take (length host - length suf - length pre) (drop (length pre) host) \<longleftrightarrow>
   host = pre @ m @ suf"
proof
  assume h: "HasPrefix host pre \<and> HasSuffix host suf \<and> length pre + length suf \<le> length host \<and>
     m = take (length host - length suf - length pre) (drop (length pre) host)"
  then obtain r where r: "host = pre @ r" by (auto simp: HasPrefix_def prefix_def)
  with h have "suffix suf r" by (auto simp: HasSuffix_def suffix_length_suffix suffix_append)
  then obtain q where "r = q @ suf" by (auto simp: suffix_def)
  with h r show "host = pre @ m @ suf" by simp
next
  assume "host = pre @ m @ suf"
  then show "HasPrefix host pre \<and> HasSuffix host suf \<and> length pre + length suf \<le> length host \<and>
     m = take (length host - length suf - length pre) (drop (length pre) host)"
    using HasSuffix_append [of "pre @ m" suf] by simp
qed

lemma generated_Lookup_eq:
  assumes "h = ToLower (TrimSuffix host ''.'')"
    and "m = take (length h - length (gr_Suffix r) - length (gr_Prefix r)) (drop (length (gr_Prefix r)) h)"
  shows "generated_Lookup r host =
    (if \<not> HasPrefix h (gr_Prefix r) \<or> \<not> HasSuffix h (gr_Suffix r) then Some None
     else if length h < length (gr_Prefix r) + length (gr_Suffix r) then None
     else if m = [] then Some None
     else if gr_Width r > 0 \<and> int (length m) < gr_Width r then Some None
     else if gr_Width r = 0 \<and> length m > 1 \<and> hd m = CHR ''0'' then Some None
     else if \<not> list_all is_digit m then Some None
     else case parse_digits m of
          None \<Rightarrow> Some None
        | Some n \<Rightarrow> if n < gr_Start r \<or> n > gr_End r then Some None
                    else Some (Some \<lparr>ze_IP = gr_IP r, ze_TTL = gr_TTL r\<rparr>))"
  unfolding generated_Lookup_def Let_def assms ..

lemma generated_Lookup_iff:
  "generated_Lookup r host = Some (Some e) \<longleftrightarrow>
    (\<exists>m. ToLower (TrimSuffix host ''.'') = gr_Prefix r @ m @ gr_Suffix r \<and> m \<noteq> [] \<and>
       list_all is_digit m \<and> (gr_Width r > 0 \<longrightarrow> gr_Width r \<le> int (length m)) \<and>
       (gr_Width r = 0 \<longrightarrow> \<not> (length m > 1 \<and> hd m = CHR ''0'')) \<and>
       gr_Start r \<le> digits_val m \<and> digits_val m \<le> gr_End r \<and> digits_val m < 2 ^ 63) \<and>
    e = \<lparr>ze_IP = gr_IP r, ze_TTL = gr_TTL r\<rparr>"
proof -
  define h where "h = ToLower (TrimSuffix host ''.'')"
  define m where "m = take (length h - length (gr_Suffix r) - length (gr_Prefix r)) (drop (length (gr_Prefix r)) h)"
  note generated_Lookup_eq [OF h_def m_def]
  then have "generated_Lookup r host = Some (Some e) \<longleftrightarrow>
     (HasPrefix h (gr_Prefix r) \<and> HasSuffix h (gr_Suffix r) \<and>
      length (gr_Prefix r) + length (gr_Suffix r) \<le> length h) \<and> m \<noteq> [] \<and>
       list_all is_digit m \<and> (gr_Width r > 0 \<longrightarrow> gr_Width r \<le> int (length m)) \<and>
       (gr_Width r = 0 \<longrightarrow> \<not> (length m > 1 \<and> hd m = CHR ''0'')) \<and>
       gr_Start r \<le> digits_val m \<and> digits_val m \<le> gr_End r \<and> digits_val m < 2 ^ 63 \<and>
       e = \<lparr>ze_IP = gr_IP r, ze_TTL = gr_TTL r\<rparr>"
    by (auto simp: not_less parse_digits_def Let_def split: if_splits)
  moreover have "\<And>m'. (HasPrefix h (gr_Prefix r) \<and> HasSuffix h (gr_Suffix r) \<and>
      length (gr_Prefix r) + length (gr_Suffix r) \<le> length h) \<and> m' = m \<longleftrightarrow> h = gr_Prefix r @ m' @ gr_Suffix r"
    using middle_iff [of h "gr_Prefix r" "gr_Suffix r"] by (simp add: m_def)
  ultimately show ?thesis
    unfolding h_def [symmetric] by metis
qed

lemma NewGeneratedRecordRange_Inr:
  assumes "NewGeneratedRecordRange rid pat start cnt ip ttl = Inr r"
  shows "gr_Start r = start" and "gr_End r = wrap64 (start + cnt - 1)" and "To4 ip = Some (gr_IP r)"
    and "gr_TTL r = ttl" and "0 \<le> start" and "0 < cnt"
    and "parseGeneratedHostPattern pat = Inr (gr_Prefix r, gr_Suffix r, gr_Width r)"
proof -
  from assms obtain ip4 pre suf w where "To4 ip = Some ip4" "0 \<le> start" "0 < cnt"
    "parseGeneratedHostPattern pat = Inr (pre, suf, w)"
    "r = \<lparr>gr_ID = rid, gr_HostPattern = ToLower (TrimSuffix pat ''.''),
                  gr_Prefix = pre, gr_Suffix = suf, gr_Width = w, gr_Start = start,
                  gr_End = wrap64 (start + cnt - 1), gr_IP = ip4, gr_TTL = ttl\<rparr>"
    by (auto simp: NewGeneratedRecordRange_def rbind_def split: if_splits option.splits sum.splits)
  then show "gr_Start r = start" "gr_End r = wrap64 (start + cnt - 1)" "To4 ip = Some (gr_IP r)"
    "gr_TTL r = ttl" "0 \<le> start" "0 < cnt"
    "parseGeneratedHostPattern pat = Inr (gr_Prefix r, gr_Suffix r, gr_Width r)"
    by simp_all
qed

lemma expand_digits:
  fixes w n
  defines "m \<equiv> padded w n"
  assumes "0 \<le> n"
  shows "m \<noteq> []" and "list_all is_digit m" and "digits_val m = n" and "w \<le> int (length m)"
    and "w = 0 \<Longrightarrow> \<not> (length m > 1 \<and> hd m = CHR ''0'')"
proof -
  have m_def: "m = replicate (nat (w - int (length (dec_digits n)))) CHR ''0'' @ dec_digits n"
    by (simp add: assms(1) padded_def)
  note d = dec_digits_correct [OF assms(2)]
  show "m \<noteq> []" using d by (simp add: m_def)
  have "list_all is_digit (replicate k CHR ''0'')" for k
    by (induction k) (simp_all add: is_digit_def)
  then show "list_all is_digit m" using d by (simp add: m_def)
  show "digits_val m = n" using d by (simp add: m_def digits_val_zeros)
  show "w \<le> int (length m)" by (simp add: m_def)
  show "\<not> (length m > 1 \<and> hd m = CHR ''0'')" if "w = 0"
  proof (cases "n = 0")
    case True
    then show ?thesis using that by (simp add: m_def dec_digits.simps)
  next
    case False
    then show ?thesis using that assms(2) dec_digits_no_leading_zero [of n] by (simp add: m_def)
  qed
qed

lemma expand_normal:
  assumes "parseGeneratedHostPattern p = Inr (pre, suf, w)" and "0 \<le> n"
    and "suf = [] \<or> last suf \<noteq> CHR ''.''"
  shows "ToLower (TrimSuffix (expand pre w suf n) ''.'') = expand pre w suf n"
proof -
  define m where "m = padded w n"
  have m: "m \<noteq> []" "list_all is_digit m" unfolding m_def by (rule expand_digits [OF assms(2)])+
  have e: "expand pre w suf n = pre @ m @ suf" by (simp add: expand_def m_def)
  have "is_digit (last m)" using m by (auto simp: list_all_iff)
  then have "last m \<noteq> CHR ''.''" by (auto simp: is_digit_def)
  then have "last (pre @ m @ suf) \<noteq> CHR ''.''" using assms(3) m(1) by (cases "suf = []") auto
  then show ?thesis
    using parse_pattern_lower [OF assms(1)] digits_ToLower [OF m(2)]
    by (simp add: e TrimSuffix_dot_id ToLower_append)
qed

lemma generated_complete_aux:
  assumes "NewGeneratedRecordRange rid pat start cnt ip ttl = Inr r" and "start + cnt \<le> 2 ^ 63"
    and "gr_Suffix r = [] \<or> last (gr_Suffix r) \<noteq> CHR ''.''" and "start \<le> n" and "n < start + cnt"
  shows "generated_Lookup r (expand (gr_Prefix r) (gr_Width r) (gr_Suffix r) n) =
     Some (Some \<lparr>ze_IP = gr_IP r, ze_TTL = ttl\<rparr>)"
proof -
  note N = NewGeneratedRecordRange_Inr [OF assms(1)]
  have n: "0 \<le> n" using N(5) assms(4) by simp
  have w: "wrap64 (start + cnt - 1) = start + cnt - 1"
    using N(5,6) assms(2) by (intro wrap64_id) (simp add: in_int64_def)
  define m where "m = padded (gr_Width r) n"
  note M = expand_digits [OF n, of "gr_Width r", folded m_def]
  have e: "expand (gr_Prefix r) (gr_Width r) (gr_Suffix r) n = gr_Prefix r @ m @ gr_Suffix r"
    by (simp add: expand_def m_def)
  show ?thesis
    using expand_normal [OF N(7) n assms(3)] M assms(2,4,5) N(4)
    by (auto simp: generated_Lookup_iff N(1,2) w e)
qed

lemma generated_exact_aux:
  assumes "NewGeneratedRecordRange rid pat start cnt ip ttl = Inr r" and "start + cnt \<le> 2 ^ 63"
    and "gr_Width r = 0"
  shows "generated_Lookup r host = Some (Some e) \<longleftrightarrow>
    (\<exists>n. start \<le> n \<and> n < start + cnt \<and>
       ToLower (TrimSuffix host ''.'') = expand (gr_Prefix r) 0 (gr_Suffix r) n) \<and>
    e = \<lparr>ze_IP = gr_IP r, ze_TTL = ttl\<rparr>" (is "?L = ?R")
proof -
  note N = NewGeneratedRecordRange_Inr [OF assms(1)]
  have w: "wrap64 (start + cnt - 1) = start + cnt - 1"
    using N(5,6) assms(2) by (intro wrap64_id) (simp add: in_int64_def)
  show ?thesis
  proof
    assume ?L
    then obtain m where m: "ToLower (TrimSuffix host ''.'') = gr_Prefix r @ m @ gr_Suffix r" "m \<noteq> []"
      "list_all is_digit m" "\<not> (length m > 1 \<and> hd m = CHR ''0'')" "start \<le> digits_val m"
      "digits_val m \<le> start + cnt - 1" and e: "e = \<lparr>ze_IP = gr_IP r, ze_TTL = ttl\<rparr>"
      unfolding generated_Lookup_iff assms(3) N(1,2,4) w by blast
    have "padded 0 (digits_val m) = m"
      using dec_digits_digits_val [OF m(3,2,4)] by (simp add: padded_def)
    then show ?R using m e by (auto simp: expand_def intro!: exI [of _ "digits_val m"])
  next
    assume ?R
    then obtain n where n: "start \<le> n" "n < start + cnt"
      "ToLower (TrimSuffix host ''.'') = gr_Prefix r @ padded 0 n @ gr_Suffix r"
      and e: "e = \<lparr>ze_IP = gr_IP r, ze_TTL = ttl\<rparr>"
      by (auto simp: expand_def)
    then have "0 \<le> n" using N(5) by simp
    note M = expand_digits [OF this, of 0]
    show ?L
      unfolding generated_Lookup_iff assms(3) N(1,2,4) w
      using n e M assms(2) by (intro conjI exI [of _ "padded 0 n"]) auto
  qed
qed

text \<open>
  The slice expression of \<open>Lookup\<close> is out of range exactly when the host is shorter than the
  prefix and suffix that it starts and ends with, so that they overlap in it.
\<close>

definition overlaps :: "string \<Rightarrow> string \<Rightarrow> bool" where
  "overlaps pre suf \<longleftrightarrow>
     list_ex (\<lambda>k. drop (length pre - k) pre = take k suf) [1 ..< Suc (min (length pre) (length suf))]"

lemma generated_Lookup_panic:
  "generated_Lookup r host = None \<longleftrightarrow>
    (let h = ToLower (TrimSuffix host ''.'')
     in HasPrefix h (gr_Prefix r) \<and> HasSuffix h (gr_Suffix r) \<and>
        length h < length (gr_Prefix r) + length (gr_Suffix r))"
  unfolding generated_Lookup_eq [OF refl refl] Let_def
  by (auto split: option.splits simp del: length_ToLower)

lemma overlap_of_host:
  assumes "HasPrefix h pre" and "HasSuffix h suf" and "length h < length pre + length suf"
  shows "overlaps pre suf"
proof -
  define k where "k = length pre + length suf - length h"
  obtain a where a: "h = pre @ a" using assms(1) by (auto simp: HasPrefix_def prefix_def)
  obtain b where b: "h = b @ suf" using assms(2) by (auto simp: HasSuffix_def suffix_def)
  have la: "length h = length pre + length a" and lb: "length h = length b + length suf"
    using a b by (metis length_append)+
  have k: "length pre - k = length b" "k \<le> length pre" "k \<le> length suf" "0 < k" "length suf - length a = k"
    using la lb assms(3) by (auto simp: k_def)
  have "drop (length b) (pre @ a) = suf" using a b by (metis append_eq_conv_conj)
  moreover have "drop (length b) (pre @ a) = drop (length b) pre @ a" using k la lb by simp
  ultimately have "drop (length pre - k) pre = take k suf"
    using k by (metis append_eq_conv_conj length_drop diff_diff_cancel)
  moreover have "k \<in> set [1 ..< Suc (min (length pre) (length suf))]" using k by auto
  ultimately show ?thesis unfolding overlaps_def list_ex_iff by blast
qed

lemma generated_loop_total:
  "list_all (\<lambda>g. \<not> overlaps (gr_Prefix g) (gr_Suffix g)) gs \<Longrightarrow> generated_loop gs host \<noteq> None"
proof (induction gs)
  case Nil
  then show ?case by simp
next
  case (Cons g gs)
  have "generated_Lookup g host \<noteq> None"
    using Cons.prems overlap_of_host unfolding generated_Lookup_panic Let_def by auto
  then show ?case using Cons by (auto split: option.splits)
qed

definition zones_safe :: "Zones \<Rightarrow> bool" where
  "zones_safe z \<longleftrightarrow> list_all (\<lambda>g. \<not> overlaps (gr_Prefix g) (gr_Suffix g)) (z_Generated z)"

lemma LookupA_total: "zones_safe z \<Longrightarrow> LookupA (Some z) host \<noteq> None"
  using generated_loop_total [of "z_Generated z"]
  by (auto simp: LookupA_def zones_safe_def Let_def split: option.splits)

section \<open>Zone lookup and the order of Go's maps\<close>

lemma under_domain_chain:
  assumes "under_domain h a" and "under_domain h b"
  shows "under_domain a b \<or> under_domain b a"
proof -
  have dot: "x = y \<or> HasSuffix x (CHR ''.'' # y)" if "suffix (CHR ''.'' # y) (CHR ''.'' # x)" for x y
    using that by (auto simp: suffix_Cons HasSuffix_def)
  consider "h = a" | "h = b" | "suffix (CHR ''.'' # a) h" "suffix (CHR ''.'' # b) h"
    using assms by (auto simp: under_domain_def HasSuffix_def)
  then show ?thesis
  proof cases
    case 3
    then have "suffix (CHR ''.'' # a) (CHR ''.'' # b) \<or> suffix (CHR ''.'' # b) (CHR ''.'' # a)"
      by (rule suffix_same_cases)
    then show ?thesis using dot by (auto simp: under_domain_def)
  qed (use assms in auto)
qed

lemma apex_loop_Some:
  "apex_loop m ks h = Some za \<Longrightarrow> \<exists>k \<in> set ks. map_of m k = Some za \<and> under_domain h k"
  by (induction ks) (auto split: option.splits if_splits)

lemma apex_loop_None:
  "apex_loop m ks h = None \<longleftrightarrow> (\<forall>k \<in> set ks. map_of m k \<noteq> None \<longrightarrow> \<not> under_domain h k)"
  by (induction ks) (auto split: option.splits if_splits)

definition zones_unnested :: "(string \<times> 'a) list \<Rightarrow> bool" where
  "zones_unnested m \<longleftrightarrow> (\<forall>a \<in> fst ` set m. \<forall>b \<in> fst ` set m. under_domain a b \<longrightarrow> a = b)"

lemma apex_loop_unique:
  assumes "zones_unnested m" and "fst ` set m \<subseteq> set ks" and "map_of m k = Some za" and "under_domain h k"
  shows "apex_loop m ks h = Some za"
proof -
  have k: "k \<in> fst ` set m" using assms(3) by (metis map_of_eq_None_iff option.distinct(1))
  then have "apex_loop m ks h \<noteq> None" using assms(2-4) by (auto simp: apex_loop_None)
  then obtain za' where za': "apex_loop m ks h = Some za'" by auto
  then obtain k' where k': "map_of m k' = Some za'" "under_domain h k'"
    using apex_loop_Some by blast
  then have "k' \<in> fst ` set m" by (metis map_of_eq_None_iff option.distinct(1))
  then have "k' = k"
    using assms(1) k under_domain_chain [OF k'(2) assms(4)] unfolding zones_unnested_def by metis
  then show ?thesis using za' k' assms(3) by simp
qed

lemma range_first_Some:
  "range_first m ks P = Some (d, ttl) \<Longrightarrow> d \<in> set ks \<and> map_of m d = Some ttl \<and> P d"
  by (induction ks) (auto split: option.splits if_splits)

lemma range_first_None:
  "range_first m ks P = None \<longleftrightarrow> (\<forall>d \<in> set ks. map_of m d \<noteq> None \<longrightarrow> \<not> P d)"
  by (induction ks) (auto split: option.splits if_splits)

section \<open>The domains a member serves\<close>

lemma servedDomains_map_of_aux:
  "map_of (fold (\<lambda>domain. AList.update (ToLower domain) (f (ToLower domain))) ds acc) d =
     (if d \<in> ToLower ` set ds then Some (f d) else map_of acc d)"
  by (induction ds arbitrary: acc) auto

lemma servedDomains_map_of:
  "map_of (servedDomains ds ns) d =
     (if d \<in> ToLower ` set (ns_Domains ns)
      then Some (case map_of (domainTTL ds) d of None \<Rightarrow> 30 | Some ttl \<Rightarrow> ttl) else None)"
  using servedDomains_map_of_aux [where f = "\<lambda>d. case map_of (domainTTL ds) d of None \<Rightarrow> 30 | Some ttl \<Rightarrow> ttl"]
  by (simp add: servedDomains_def Let_def)

lemma map_of_map_key: "map_of (map (\<lambda>(k, v). (k, f k v)) m) k = map_option (f k) (map_of m k)"
  by (induction m) auto

lemma BuildFromFleet_Inr:
  assumes "BuildFromFleet resolve ord cfg member serial = Inr z"
  obtains ns m where "find (\<lambda>ns. ns_ID ns = member) (cfg_Nameservers cfg) = Some ns"
    and "target_records resolve (servedDomains (cfg_Domains cfg) ns) ord 0 (cfg_Targets cfg) [] [] =
           Inr (m, z_Generated z)"
    and "nameserver_records resolve (servedDomains (cfg_Domains cfg) ns) ord 0 (cfg_Nameservers cfg) m =
           Inr (z_Records z)"
    and "z_Apex z = map (\<lambda>(domain, ttl). (domain, zone_apex cfg serial domain ttl))
           (servedDomains (cfg_Domains cfg) ns)"
  using assms
  by (auto simp: BuildFromFleet_def Let_def rbind_def split: option.splits sum.splits prod.splits)

lemma BuildFromFleet_apex:
  assumes "BuildFromFleet resolve ord cfg member serial = Inr z"
    and "find (\<lambda>ns. ns_ID ns = member) (cfg_Nameservers cfg) = Some ns"
  shows "map_of (z_Apex z) d =
    (if d \<in> ToLower ` set (ns_Domains ns)
     then Some (zone_apex cfg serial d
            (case map_of (domainTTL (cfg_Domains cfg)) d of None \<Rightarrow> 30 | Some ttl \<Rightarrow> ttl))
     else None)"
  using assms by (elim BuildFromFleet_Inr) (auto simp: map_of_map_key servedDomains_map_of)

section \<open>The records of a member\<close>

text \<open>
  The pairs of host and address the fleet configuration declares, and the records a zone may
  hold: a declared pair, under a served domain, with the TTL of that domain.
\<close>

definition site_pairs :: "(string \<Rightarrow> byte list option) \<Rightarrow> Target list \<Rightarrow> (string \<times> byte list) set" where
  "site_pairs resolve ts = {(ToLower (site_Host s), ip) |s ip t.
     t \<in> set ts \<and> s \<in> set (tg_Sites t) \<and> resolve (tg_Address t) = Some ip}"

definition ns_pairs :: "(string \<Rightarrow> byte list option) \<Rightarrow> Nameserver list \<Rightarrow> (string \<times> byte list) set" where
  "ns_pairs resolve nss = {(ToLower h, ip) |h ip ns.
     ns \<in> set nss \<and> h \<in> set (ns_Hosts ns) \<and> resolve (ns_Address ns) = Some ip}"

definition records_ok ::
  "(string \<times> nat) list \<Rightarrow> (string \<times> byte list) set \<Rightarrow> (string \<times> ZoneEntry) list \<Rightarrow> bool" where
  "records_ok served S m \<longleftrightarrow> (\<forall>h e. map_of m h = Some e \<longrightarrow>
     (h, ze_IP e) \<in> S \<and> (\<exists>d. map_of served d = Some (ze_TTL e) \<and> under_domain h d))"

lemma map_of_add_host:
  "map_of (add_host served ks ip h m) =
     (case range_first served ks (under_domain (ToLower h)) of None \<Rightarrow> map_of m
      | Some (_, ttl) \<Rightarrow> (map_of m)(ToLower h \<mapsto> \<lparr>ze_IP = ip, ze_TTL = ttl\<rparr>))"
  by (simp add: add_host_def Let_def split: option.split prod.split)

lemma records_ok_mono: "records_ok served S m \<Longrightarrow> S \<subseteq> T \<Longrightarrow> records_ok served T m"
  by (auto simp: records_ok_def)

lemma add_host_ok:
  "records_ok served S m \<Longrightarrow> (ToLower h, ip) \<in> S \<Longrightarrow> records_ok served S (add_host served ks ip h m)"
  by (auto simp: records_ok_def map_of_add_host dest!: range_first_Some split: option.splits if_splits)

lemma fold_add_host_ok:
  assumes "records_ok served S m" and "\<And>x. x \<in> set xs \<Longrightarrow> (ToLower (g x), ip) \<in> S"
  shows "records_ok served S (fold (\<lambda>(j, x). add_host served (f j) ip (g x)) (enumerate n xs) m)"
  using assms by (induction xs arbitrary: m n) (auto simp: add_host_ok)

lemma fold_add_host_dom:
  "dom (map_of m) \<subseteq> dom (map_of (fold (\<lambda>(j, x). add_host served (f j) ip (g x)) (enumerate n xs) m))"
proof (induction xs arbitrary: m n)
  case Nil
  then show ?case by simp
next
  case (Cons x xs)
  have "dom (map_of m) \<subseteq> dom (map_of (add_host served (f n) ip (g x) m))"
    by (auto simp: map_of_add_host split: option.splits)
  then show ?case using Cons.IH [of "add_host served (f n) ip (g x) m" "Suc n"] by simp
qed

lemma fold_add_host_covers:
  assumes "\<And>j. fst ` set served \<subseteq> set (f j)" and "x \<in> set xs"
    and "d \<in> dom (map_of served)" and "under_domain (ToLower (g x)) d"
  shows "ToLower (g x) \<in> dom (map_of (fold (\<lambda>(j, x). add_host served (f j) ip (g x)) (enumerate n xs) m))"
  using assms(2)
proof (induction xs arbitrary: m n)
  case Nil
  then show ?case by simp
next
  case (Cons y xs)
  show ?case
  proof (cases "x \<in> set xs")
    case True
    then show ?thesis using Cons.IH by simp
  next
    case False
    then have "x = y" using Cons.prems by simp
    have "d \<in> set (f n)" using assms(1,3) by (auto simp: dom_map_of_conv_image_fst)
    then have "range_first served (f n) (under_domain (ToLower (g x))) \<noteq> None"
      using assms(3,4) by (auto simp: range_first_None)
    then have "ToLower (g x) \<in> dom (map_of (add_host served (f n) ip (g y) m))"
      using \<open>x = y\<close> by (auto simp: map_of_add_host)
    then show ?thesis using fold_add_host_dom by fastforce
  qed
qed

lemma target_records_ok:
  assumes "target_records resolve served ord i ts m gen = Inr (m', gen')"
    and "records_ok served S m" and "site_pairs resolve ts \<subseteq> S"
  shows "records_ok served S m'"
  using assms
proof (induction ts arbitrary: i m gen)
  case Nil
  then show ?case by simp
next
  case (Cons t ts)
  then obtain ip where ip: "resolve (tg_Address t) = Some ip" by (auto split: option.splits)
  let ?m = "fold (\<lambda>(j, s). add_host served (ord ''site'' i j) ip (site_Host s)) (enumerate 0 (tg_Sites t)) m"
  have "records_ok served S ?m"
  proof (rule fold_add_host_ok [OF Cons.prems(2)])
    fix s assume "s \<in> set (tg_Sites t)"
    then show "(ToLower (site_Host s), ip) \<in> S" using Cons.prems(3) ip by (auto simp: site_pairs_def)
  qed
  moreover have "site_pairs resolve ts \<subseteq> S" using Cons.prems(3) by (auto simp: site_pairs_def)
  moreover obtain gen'' where "target_records resolve served ord (Suc i) ts ?m gen'' = Inr (m', gen')"
    using Cons.prems(1) ip by (auto simp: rbind_def Let_def split: sum.splits)
  ultimately show ?case using Cons.IH by blast
qed

lemma nameserver_records_ok:
  assumes "nameserver_records resolve served ord i nss m = Inr m'"
    and "records_ok served S m" and "ns_pairs resolve nss \<subseteq> S"
  shows "records_ok served S m'"
  using assms
proof (induction nss arbitrary: i m)
  case Nil
  then show ?case by simp
next
  case (Cons ns nss)
  have nss: "ns_pairs resolve nss \<subseteq> S" using Cons.prems(3) by (auto simp: ns_pairs_def)
  show ?case
  proof (cases "ns_Hosts ns = []")
    case True
    then show ?thesis using Cons nss by simp
  next
    case False
    then obtain ip where ip: "resolve (ns_Address ns) = Some ip"
      using Cons.prems(1) by (auto split: option.splits)
    have "records_ok served S (fold (\<lambda>(j, h). add_host served (ord ''nameserver'' i j) ip h)
        (enumerate 0 (ns_Hosts ns)) m)"
    proof (rule fold_add_host_ok [OF Cons.prems(2)])
      fix h assume "h \<in> set (ns_Hosts ns)"
      then show "(ToLower h, ip) \<in> S" using Cons.prems(3) ip by (auto simp: ns_pairs_def)
    qed
    then show ?thesis using Cons.IH Cons.prems(1) False ip nss by simp
  qed
qed

lemma target_records_dom:
  "target_records resolve served ord i ts m gen = Inr (m', gen') \<Longrightarrow> dom (map_of m) \<subseteq> dom (map_of m')"
proof (induction ts arbitrary: i m gen)
  case Nil
  then show ?case by simp
next
  case (Cons t ts)
  then obtain ip gen'' where "target_records resolve served ord (Suc i) ts
      (fold (\<lambda>(j, s). add_host served (ord ''site'' i j) ip (site_Host s)) (enumerate 0 (tg_Sites t)) m)
      gen'' = Inr (m', gen')"
    by (auto simp: rbind_def Let_def split: option.splits sum.splits)
  from Cons.IH [OF this] show ?case by (rule order_trans [OF fold_add_host_dom])
qed

lemma nameserver_records_dom:
  "nameserver_records resolve served ord i nss m = Inr m' \<Longrightarrow> dom (map_of m) \<subseteq> dom (map_of m')"
proof (induction nss arbitrary: i m)
  case Nil
  then show ?case by simp
next
  case (Cons ns nss)
  show ?case
  proof (cases "ns_Hosts ns = []")
    case True
    then show ?thesis using Cons by simp
  next
    case False
    with Cons.prems obtain ip where "nameserver_records resolve served ord (Suc i) nss
        (fold (\<lambda>(j, h). add_host served (ord ''nameserver'' i j) ip h) (enumerate 0 (ns_Hosts ns)) m) = Inr m'"
      by (auto split: option.splits)
    from Cons.IH [OF this] show ?thesis
      by (rule order_trans [OF fold_add_host_dom [where g = "\<lambda>h. h"]])
  qed
qed

lemma target_records_covers:
  assumes "target_records resolve served ord i ts m gen = Inr (m', gen')"
    and "\<And>p i j. fst ` set served \<subseteq> set (ord p i j)" and "t \<in> set ts" and "s \<in> set (tg_Sites t)"
    and "d \<in> dom (map_of served)" and "under_domain (ToLower (site_Host s)) d"
  shows "ToLower (site_Host s) \<in> dom (map_of m')"
  using assms(1,3)
proof (induction ts arbitrary: i m gen)
  case Nil
  then show ?case by simp
next
  case (Cons u ts)
  then obtain ip gen'' where r: "target_records resolve served ord (Suc i) ts
      (fold (\<lambda>(j, s). add_host served (ord ''site'' i j) ip (site_Host s)) (enumerate 0 (tg_Sites u)) m)
      gen'' = Inr (m', gen')"
    by (auto simp: rbind_def Let_def split: option.splits sum.splits)
  show ?case
  proof (cases "t \<in> set ts")
    case True
    then show ?thesis using Cons.IH [OF r] by simp
  next
    case False
    then have "s \<in> set (tg_Sites u)" using Cons.prems assms(4) by auto
    then show ?thesis
      using fold_add_host_covers [where f = "ord ''site'' i" and g = site_Host, OF assms(2) _ assms(5,6)]
        target_records_dom [OF r] by blast
  qed
qed

text \<open>A host of a nameserver gets a record with the address of a nameserver that declares it.\<close>

definition recorded :: "(string \<times> byte list) set \<Rightarrow> string \<Rightarrow> (string \<times> ZoneEntry) list \<Rightarrow> bool" where
  "recorded S h m \<longleftrightarrow> (\<exists>e. map_of m h = Some e \<and> (h, ze_IP e) \<in> S)"

lemma recorded_add_host: "recorded S k m \<Longrightarrow> (ToLower h, ip) \<in> S \<Longrightarrow> recorded S k (add_host served ks ip h m)"
  by (auto simp: recorded_def map_of_add_host split: option.splits)

lemma recorded_fold:
  "recorded S k m \<Longrightarrow> \<forall>h \<in> set hs. (ToLower h, ip) \<in> S \<Longrightarrow>
    recorded S k (fold (\<lambda>(j, h). add_host served (f j) ip h) (enumerate n hs) m)"
  by (induction hs arbitrary: m n) (auto intro: recorded_add_host)

lemma fold_records:
  assumes "\<And>j. fst ` set served \<subseteq> set (f j)" and "d \<in> dom (map_of served)" and "under_domain (ToLower h) d"
  shows "h \<in> set hs \<Longrightarrow> \<forall>h \<in> set hs. (ToLower h, ip) \<in> S \<Longrightarrow>
    recorded S (ToLower h) (fold (\<lambda>(j, h). add_host served (f j) ip h) (enumerate n hs) m)"
proof (induction hs arbitrary: m n)
  case Nil
  then show ?case by simp
next
  case (Cons y hs)
  show ?case
  proof (cases "h \<in> set hs")
    case True
    then show ?thesis using Cons by simp
  next
    case False
    then have "h = y" using Cons.prems by simp
    have "d \<in> set (f n)" using assms(1,2) by (auto simp: dom_map_of_conv_image_fst)
    then have "range_first served (f n) (under_domain (ToLower h)) \<noteq> None"
      using assms(2,3) by (auto simp: range_first_None)
    then have "recorded S (ToLower h) (add_host served (f n) ip y m)"
      using \<open>h = y\<close> Cons.prems(2) by (auto simp: recorded_def map_of_add_host)
    then show ?thesis using Cons.prems(2) by (simp add: recorded_fold)
  qed
qed

lemma nameserver_records_covers:
  assumes "\<And>p i j. fst ` set served \<subseteq> set (ord p i j)" and "d \<in> dom (map_of served)" and "under_domain (ToLower h) d"
  shows "nameserver_records resolve served ord i nss m = Inr m' \<Longrightarrow> ns_pairs resolve nss \<subseteq> S \<Longrightarrow>
    (\<exists>ns \<in> set nss. h \<in> set (ns_Hosts ns)) \<or> recorded S (ToLower h) m \<Longrightarrow> recorded S (ToLower h) m'"
proof (induction nss arbitrary: i m)
  case Nil
  then show ?case by simp
next
  case (Cons ns nss)
  have nss: "ns_pairs resolve nss \<subseteq> S" using Cons.prems(2) by (auto simp: ns_pairs_def)
  show ?case
  proof (cases "ns_Hosts ns = []")
    case True
    then show ?thesis using Cons nss by auto
  next
    case False
    then obtain ip where ip: "resolve (ns_Address ns) = Some ip"
      using Cons.prems(1) by (auto split: option.splits)
    let ?m = "fold (\<lambda>(j, h). add_host served (ord ''nameserver'' i j) ip h) (enumerate 0 (ns_Hosts ns)) m"
    have S: "\<forall>h \<in> set (ns_Hosts ns). (ToLower h, ip) \<in> S" using Cons.prems(2) ip by (auto simp: ns_pairs_def)
    have "(\<exists>ns \<in> set nss. h \<in> set (ns_Hosts ns)) \<or> recorded S (ToLower h) ?m"
      using Cons.prems(3) S recorded_fold [OF _ S] fold_records [OF assms(1) assms(2,3) _ S] by auto
    then show ?thesis using Cons.IH [OF _ nss] Cons.prems(1) False ip by simp
  qed
qed

lemma ResolveIPv4_length: "ResolveIPv4 parseIP lookupHost addr = Some ip \<Longrightarrow> length ip = 4"
proof -
  have t: "To4 x = Some y \<Longrightarrow> length y = 4" for x y :: "byte list"
    by (auto simp: To4_def split: if_splits)
  assume r: "ResolveIPv4 parseIP lookupHost addr = Some ip"
  show ?thesis
  proof (cases "parseIP addr")
    case (Some x)
    then show ?thesis using r t by (auto simp: ResolveIPv4_def)
  next
    case None
    then obtain addrs rest where "List.map_filter (\<lambda>a. Option.bind (parseIP a) To4) addrs = ip # rest"
      using r by (auto simp: ResolveIPv4_def split: option.splits list.splits)
    then have "ip \<in> set (List.map_filter (\<lambda>a. Option.bind (parseIP a) To4) addrs)" by simp
    then show ?thesis using t by (auto simp: in_map_filter bind_eq_Some_conv)
  qed
qed

lemma fleet_records_aux:
  assumes "BuildFromFleet (ResolveIPv4 parseIP lookupHost) ord cfg member serial = Inr z"
    and "find (\<lambda>ns. ns_ID ns = member) (cfg_Nameservers cfg) = Some ns"
    and "\<And>p i j. ToLower ` set (ns_Domains ns) \<subseteq> set (ord p i j)"
  shows "(\<forall>h e. map_of (z_Records z) h = Some e \<longrightarrow>
       (h, ze_IP e) \<in> site_pairs (ResolveIPv4 parseIP lookupHost) (cfg_Targets cfg) \<union>
                      ns_pairs (ResolveIPv4 parseIP lookupHost) (cfg_Nameservers cfg) \<and>
       length (ze_IP e) = 4 \<and>
       (\<exists>d \<in> ToLower ` set (ns_Domains ns). under_domain h d \<and>
          ze_TTL e = (case map_of (domainTTL (cfg_Domains cfg)) d of None \<Rightarrow> 30 | Some ttl \<Rightarrow> ttl))) \<and>
    (\<forall>t \<in> set (cfg_Targets cfg). \<forall>s \<in> set (tg_Sites t). \<forall>d \<in> ToLower ` set (ns_Domains ns).
       under_domain (ToLower (site_Host s)) d \<longrightarrow> map_of (z_Records z) (ToLower (site_Host s)) \<noteq> None) \<and>
    (\<forall>n \<in> set (cfg_Nameservers cfg). \<forall>h \<in> set (ns_Hosts n). \<forall>d \<in> ToLower ` set (ns_Domains ns).
       under_domain (ToLower h) d \<longrightarrow>
         (\<exists>e. map_of (z_Records z) (ToLower h) = Some e \<and>
           (ToLower h, ze_IP e) \<in> ns_pairs (ResolveIPv4 parseIP lookupHost) (cfg_Nameservers cfg)))"
proof -
  let ?res = "ResolveIPv4 parseIP lookupHost" and ?served = "servedDomains (cfg_Domains cfg) ns"
  let ?S = "site_pairs ?res (cfg_Targets cfg) \<union> ns_pairs ?res (cfg_Nameservers cfg)"
  from assms(1,2) obtain m where
    t: "target_records ?res ?served ord 0 (cfg_Targets cfg) [] [] = Inr (m, z_Generated z)" and
    n: "nameserver_records ?res ?served ord 0 (cfg_Nameservers cfg) m = Inr (z_Records z)"
    by (elim BuildFromFleet_Inr) auto
  have "records_ok ?served ?S m" by (rule target_records_ok [OF t]) (auto simp: records_ok_def)
  then have ok: "records_ok ?served ?S (z_Records z)" by (rule nameserver_records_ok [OF n]) simp
  have len: "length ip = 4" if "(h, ip) \<in> ?S" for h ip
    using that by (auto simp: site_pairs_def ns_pairs_def dest: ResolveIPv4_length)
  have hosts: "recorded (ns_pairs ?res (cfg_Nameservers cfg)) (ToLower h) (z_Records z)"
    if "n \<in> set (cfg_Nameservers cfg)" "h \<in> set (ns_Hosts n)" "d \<in> ToLower ` set (ns_Domains ns)"
      "under_domain (ToLower h) d" for n h d
  proof -
    have k: "dom (map_of ?served) = ToLower ` set (ns_Domains ns)"
      by (auto simp: servedDomains_map_of split: if_splits)
    then have c: "\<And>p i j. fst ` set ?served \<subseteq> set (ord p i j)"
      using assms(3) by (simp add: dom_map_of_conv_image_fst)
    from that(3) k have "d \<in> dom (map_of ?served)" by simp
    from nameserver_records_covers [OF c this that(4) n order_refl] that(1,2) show ?thesis by blast
  qed
  have covers: "map_of (z_Records z) (ToLower (site_Host s)) \<noteq> None"
    if "t \<in> set (cfg_Targets cfg)" "s \<in> set (tg_Sites t)" "d \<in> ToLower ` set (ns_Domains ns)"
      "under_domain (ToLower (site_Host s)) d" for t s d
  proof -
    have k: "dom (map_of ?served) = ToLower ` set (ns_Domains ns)"
      by (auto simp: servedDomains_map_of split: if_splits)
    then have c: "\<And>p i j. fst ` set ?served \<subseteq> set (ord p i j)"
      using assms(3) by (simp add: dom_map_of_conv_image_fst)
    from that(3) k have "d \<in> dom (map_of ?served)" by simp
    with that have "ToLower (site_Host s) \<in> dom (map_of m)"
      by (intro target_records_covers [OF t c])
    then show ?thesis using nameserver_records_dom [OF n] by auto
  qed
  have ttl: "\<exists>d \<in> ToLower ` set (ns_Domains ns). under_domain h d \<and>
      t = (case map_of (domainTTL (cfg_Domains cfg)) d of None \<Rightarrow> 30 | Some ttl \<Rightarrow> ttl)"
    if "\<exists>d. map_of ?served d = Some t \<and> under_domain h d" for h t
    using that by (auto simp: servedDomains_map_of split: if_splits)
  show ?thesis
  proof (intro conjI allI impI ballI)
    fix h e assume e: "map_of (z_Records z) h = Some e"
    with ok have o: "(h, ze_IP e) \<in> ?S" "\<exists>d. map_of ?served d = Some (ze_TTL e) \<and> under_domain h d"
      by (simp_all only: records_ok_def)
    show "(h, ze_IP e) \<in> ?S" by (rule o(1))
    show "length (ze_IP e) = 4" using o(1) by (rule len)
    show "\<exists>d \<in> ToLower ` set (ns_Domains ns). under_domain h d \<and>
      ze_TTL e = (case map_of (domainTTL (cfg_Domains cfg)) d of None \<Rightarrow> 30 | Some ttl \<Rightarrow> ttl)"
      by (rule ttl [OF o(2)])
  qed (use covers hosts in \<open>auto simp: recorded_def\<close>)
qed

section \<open>Properties\<close>

text \<open>
  C25. Generated hosts resolve: for an accepted range whose numbers fit in an \<open>int\<close> and whose suffix
  does not end in a dot, the name \<open>fmt.Sprintf\<close> makes of the pattern for every number from the
  start to the last one is answered with the range's address and TTL, padded or not.
\<close>

theorem generated_complete:
  assumes "NewGeneratedRecordRange rid pat start cnt ip ttl = Inr r" and "start + cnt \<le> 2 ^ 63"
    and "gr_Suffix r = [] \<or> last (gr_Suffix r) \<noteq> CHR ''.''" and "start \<le> n" and "n < start + cnt"
  shows "generated_Lookup r (expand (gr_Prefix r) (gr_Width r) (gr_Suffix r) n) =
     Some (Some \<lparr>ze_IP = gr_IP r, ze_TTL = ttl\<rparr>)"
  using assms by (rule generated_complete_aux)

definition demo_range :: GeneratedRecordRange where
  "demo_range = \<lparr>gr_ID = ''r'', gr_HostPattern = ''s-%03d.x.io'', gr_Prefix = ''s-'', gr_Suffix = ''.x.io'',
     gr_Width = 3, gr_Start = 1, gr_End = 10, gr_IP = [10, 0, 0, 1], gr_TTL = 30\<rparr>"

theorem generated_complete_witness:
  "generated_Lookup demo_range ''s-007.x.io'' = Some (Some \<lparr>ze_IP = [10, 0, 0, 1], ze_TTL = 30\<rparr>)"
proof -
  have r: "NewGeneratedRecordRange ''r'' ''S-%03d.x.io.'' 1 10 [10, 0, 0, 1] 30 = Inr demo_range"
    by code_simp
  have e: "expand (gr_Prefix demo_range) (gr_Width demo_range) (gr_Suffix demo_range) 7 = ''s-007.x.io''"
    by code_simp
  show ?thesis
    using generated_complete [OF r, where n = 7] unfolding e by (simp add: demo_range_def)
qed

text \<open>
  C26. A range written with \<open>%d\<close> answers no other name: a lookup succeeds exactly for the names the
  pattern gives for the numbers of the range, compared without case and trailing dot, and
  then gives the range's address and TTL.
\<close>

theorem generated_exact:
  assumes "NewGeneratedRecordRange rid pat start cnt ip ttl = Inr r" and "start + cnt \<le> 2 ^ 63"
    and "gr_Width r = 0"
  shows "generated_Lookup r host = Some (Some e) \<longleftrightarrow>
    (\<exists>n. start \<le> n \<and> n < start + cnt \<and>
       ToLower (TrimSuffix host ''.'') = expand (gr_Prefix r) 0 (gr_Suffix r) n) \<and>
    e = \<lparr>ze_IP = gr_IP r, ze_TTL = ttl\<rparr>"
  using assms by (rule generated_exact_aux)

theorem generated_exact_witness:
  "\<exists>n. 5 \<le> n \<and> n < 8 \<and> ''s6.x'' = expand ''s'' 0 ''.x'' n"
proof -
  define r where "r = \<lparr>gr_ID = ''r'', gr_HostPattern = ''s%d.x'', gr_Prefix = ''s'', gr_Suffix = ''.x'',
     gr_Width = 0, gr_Start = 5, gr_End = 7, gr_IP = [10, 0, 0, 1], gr_TTL = 60\<rparr>"
  have r: "NewGeneratedRecordRange ''r'' ''s%d.x'' 5 3 [10, 0, 0, 1] 60 = Inr r"
    unfolding r_def by code_simp
  have l: "generated_Lookup r ''S6.x'' = Some (Some \<lparr>ze_IP = [10, 0, 0, 1], ze_TTL = 60\<rparr>)"
    unfolding r_def by code_simp
  have "ToLower (TrimSuffix ''S6.x'' ''.'') = ''s6.x''" by code_simp
  then show ?thesis
    using l generated_exact [OF r, where host = "''S6.x''" and e = "\<lparr>ze_IP = [10, 0, 0, 1], ze_TTL = 60\<rparr>"]
    by (simp add: r_def)
qed

text \<open>
  Zone lookup does not depend on the order in which Go visits the zone map, as long as no served
  zone lies inside another: two traversals of all zones find the same zone, and one is found
  exactly when the host is a served zone or a name below one.
\<close>

theorem apex_order_independent:
  assumes "zones_unnested (z_Apex z)" and "fst ` set (z_Apex z) \<subseteq> set ks" and "fst ` set (z_Apex z) \<subseteq> set ks'"
  shows "LookupApex (Some z) ks host = LookupApex (Some z) ks' host \<and>
    (LookupApex (Some z) ks host \<noteq> None \<longleftrightarrow>
      (\<exists>d \<in> fst ` set (z_Apex z). under_domain (ToLower (TrimSuffix host ''.'')) d))"
proof (cases "\<exists>d \<in> fst ` set (z_Apex z). under_domain (ToLower (TrimSuffix host ''.'')) d")
  case True
  then obtain d za where "under_domain (ToLower (TrimSuffix host ''.'')) d" "map_of (z_Apex z) d = Some za"
    by (metis map_of_eq_None_iff not_None_eq)
  then show ?thesis using apex_loop_unique assms True by (auto simp: LookupApex_def)
next
  case False
  then have "apex_loop (z_Apex z) l (ToLower (TrimSuffix host ''.'')) = None" for l
    unfolding apex_loop_None by (metis map_of_eq_None_iff)
  then show ?thesis using False by (auto simp: LookupApex_def)
qed

definition demo_apex :: "string \<Rightarrow> ZoneApex" where
  "demo_apex d = \<lparr>za_Name = d, za_NSHostnames = [], za_SOA = \<lparr>soa_MName = d, soa_RName = d, soa_Serial = 1,
     soa_Refresh = 2, soa_Retry = 3, soa_Expire = 4, soa_Minimum = 5\<rparr>\<rparr>"

theorem apex_order_independent_witness:
  "LookupApex (Some \<lparr>z_Records = [], z_Generated = [], z_Apex = [(''a.io'', demo_apex ''a.io''), (''b.io'', demo_apex ''b.io'')]\<rparr>)
     [''a.io'', ''b.io''] ''w.b.io'' =
   LookupApex (Some \<lparr>z_Records = [], z_Generated = [], z_Apex = [(''a.io'', demo_apex ''a.io''), (''b.io'', demo_apex ''b.io'')]\<rparr>)
     [''b.io'', ''a.io''] ''w.b.io''"
proof -
  let ?m = "[(''a.io'', demo_apex ''a.io''), (''b.io'', demo_apex ''b.io'')]"
  have "zones_unnested ?m"
    by (simp add: zones_unnested_def under_domain_def HasSuffix_def suffix_Cons)
  then show ?thesis
    using apex_order_independent [where z = "\<lparr>z_Records = [], z_Generated = [], z_Apex = ?m\<rparr>"
        and ks = "[''a.io'', ''b.io'']" and ks' = "[''b.io'', ''a.io'']" and host = "''w.b.io''"]
    by simp
qed

text \<open>
  Members agree on a zone: two members of one fleet configuration that both serve a domain publish
  the same apex for it (nameserver names, SOA with its primary, serial and negative TTL),
  whatever order Go visits its maps in and whatever the resolver answers; the nameserver
  names are sorted and the SOA's primary is the least of them.
\<close>

theorem member_apex_agree:
  assumes "BuildFromFleet resolve ord cfg m1 serial = Inr z1"
    and "BuildFromFleet resolve' ord' cfg m2 serial = Inr z2"
    and "map_of (z_Apex z1) d = Some a1" and "map_of (z_Apex z2) d = Some a2"
  shows "a1 = a2 \<and> za_Name a1 = d \<and> sorted (za_NSHostnames a1) \<and>
    (\<forall>h \<in> set (za_NSHostnames a1). soa_MName (za_SOA a1) \<le> h) \<and>
    (za_NSHostnames a1 \<noteq> [] \<longrightarrow> soa_MName (za_SOA a1) \<in> set (za_NSHostnames a1))"
proof -
  obtain ns1 where "find (\<lambda>ns. ns_ID ns = m1) (cfg_Nameservers cfg) = Some ns1"
    using assms(1) by (rule BuildFromFleet_Inr)
  then have a1: "a1 = zone_apex cfg serial d
      (case map_of (domainTTL (cfg_Domains cfg)) d of None \<Rightarrow> 30 | Some ttl \<Rightarrow> ttl)"
    using BuildFromFleet_apex [OF assms(1)] assms(3) by (auto split: if_splits)
  obtain ns2 where "find (\<lambda>ns. ns_ID ns = m2) (cfg_Nameservers cfg) = Some ns2"
    using assms(2) by (rule BuildFromFleet_Inr)
  then have "a2 = zone_apex cfg serial d
      (case map_of (domainTTL (cfg_Domains cfg)) d of None \<Rightarrow> 30 | Some ttl \<Rightarrow> ttl)"
    using BuildFromFleet_apex [OF assms(2)] assms(4) by (auto split: if_splits)
  moreover define hs where "hs = za_NSHostnames a1"
  have "sorted hs" and "za_Name a1 = d" and "soa_MName (za_SOA a1) = (if hs = [] then d else hd hs)"
    by (simp_all add: hs_def a1 zone_apex_def Let_def)
  ultimately show ?thesis
    using a1 unfolding hs_def [symmetric] by (cases hs) auto
qed

definition demo_ns :: "string \<Rightarrow> string \<Rightarrow> Nameserver" where
  "demo_ns i h = \<lparr>ns_ID = i, ns_Address = i, ns_ControlPort = 8053, ns_DNSPort = 53,
     ns_Domains = [''X.io''], ns_Hosts = [h]\<rparr>"

definition demo_config :: Config where
  "demo_config = \<lparr>cfg_Control = \<lparr>cc_Timeout = 10, cc_AuthTokenFile = []\<rparr>, cfg_Adapters = [],
     cfg_Nameservers = [demo_ns ''n1'' ''ns2.x.io'', demo_ns ''n2'' ''ns1.x.io''],
     cfg_Targets = [\<lparr>tg_ID = ''t1'', tg_Address = ''t1'', tg_ControlPort = 8080,
       tg_Sites = [\<lparr>site_ID = ''s'', site_Host = ''www.x.io'', site_Paths = []\<rparr>], tg_GeneratedSites = []\<rparr>],
     cfg_Domains = [\<lparr>dom_Name = ''x.io'', dom_Registrar = [], dom_Nameservers = [], dom_NameserverHosts = [],
       dom_TTL = 60\<rparr>], cfg_Certmint = None\<rparr>"

lemma demo_build:
  assumes "i = ''n1'' \<or> i = ''n2''"
  obtains z where "BuildFromFleet (\<lambda>_. Some ip) (\<lambda>_ _ _. [''x.io'']) demo_config i 7 = Inr z"
    and "map_of (z_Apex z) ''x.io'' = Some (zone_apex demo_config 7 ''x.io'' 60)"
    and "map_of (z_Records z) ''www.x.io'' = Some \<lparr>ze_IP = ip, ze_TTL = 60\<rparr>"
proof -
  let ?e = "\<lparr>ze_IP = ip, ze_TTL = 60\<rparr>"
  have s: "servedDomains (cfg_Domains demo_config) (demo_ns i h) = [(''x.io'', 60)]" for h
    unfolding servedDomains_def demo_ns_def by code_simp
  have t: "target_records (\<lambda>_. Some ip) [(''x.io'', 60)] (\<lambda>_ _ _. [''x.io'']) 0 (cfg_Targets demo_config) [] [] =
      Inr ([(''www.x.io'', ?e)], [])" by code_simp
  have n: "nameserver_records (\<lambda>_. Some ip) [(''x.io'', 60)] (\<lambda>_ _ _. [''x.io'']) 0 (cfg_Nameservers demo_config)
      [(''www.x.io'', ?e)] = Inr [(''www.x.io'', ?e), (''ns2.x.io'', ?e), (''ns1.x.io'', ?e)]" by code_simp
  have "find (\<lambda>ns. ns_ID ns = i) (cfg_Nameservers demo_config) = Some (demo_ns i (if i = ''n1'' then ''ns2.x.io'' else ''ns1.x.io''))"
    using assms by (auto simp: demo_config_def demo_ns_def)
  then have "BuildFromFleet (\<lambda>_. Some ip) (\<lambda>_ _ _. [''x.io'']) demo_config i 7 =
     Inr \<lparr>z_Records = [(''www.x.io'', ?e), (''ns2.x.io'', ?e), (''ns1.x.io'', ?e)], z_Generated = [],
          z_Apex = [(''x.io'', zone_apex demo_config 7 ''x.io'' 60)]\<rparr>"
    by (simp add: BuildFromFleet_def s t n rbind_def)
  then show thesis by (rule that) simp_all
qed

theorem member_apex_agree_witness:
  "sorted (za_NSHostnames (zone_apex demo_config 7 ''x.io'' 60)) \<and>
   set (za_NSHostnames (zone_apex demo_config 7 ''x.io'' 60)) = {''ns1.x.io'', ''ns2.x.io''}"
proof -
  have "domainNSHosts (cfg_Domains demo_config) ''x.io'' = []"
    and f: "fallback_hosts (cfg_Nameservers demo_config) ''x.io'' = [''ns2.x.io'', ''ns1.x.io'']"
    by code_simp+
  then have v: "set (za_NSHostnames (zone_apex demo_config 7 ''x.io'' 60)) = {''ns1.x.io'', ''ns2.x.io''}"
    by (auto simp: zone_apex_def Let_def)
  obtain z1 where z1: "BuildFromFleet (\<lambda>_. Some [10, 0, 0, 1]) (\<lambda>_ _ _. [''x.io'']) demo_config ''n1'' 7 = Inr z1"
    "map_of (z_Apex z1) ''x.io'' = Some (zone_apex demo_config 7 ''x.io'' 60)"
    using demo_build by blast
  obtain z2 where z2: "BuildFromFleet (\<lambda>_. Some [10, 0, 0, 2]) (\<lambda>_ _ _. [''x.io'']) demo_config ''n2'' 7 = Inr z2"
    "map_of (z_Apex z2) ''x.io'' = Some (zone_apex demo_config 7 ''x.io'' 60)"
    using demo_build by blast
  show ?thesis using v member_apex_agree [OF z1(1) z2(1) z1(2) z2(2)] by blast
qed

text \<open>
  C27. The records of a member: every A record it serves is a declared site or nameserver host with a
  four-byte address the resolver gave for its owner, lies under a served domain and carries
  that domain's TTL. And when Go's map traversals are complete, every declared site under a
  served domain has a record, and so has every declared nameserver host under one, with the address
  of a nameserver that declares it.
\<close>

theorem fleet_records:
  assumes "BuildFromFleet (ResolveIPv4 parseIP lookupHost) ord cfg member serial = Inr z"
    and "find (\<lambda>ns. ns_ID ns = member) (cfg_Nameservers cfg) = Some ns"
    and "\<And>p i j. ToLower ` set (ns_Domains ns) \<subseteq> set (ord p i j)"
  shows "(\<forall>h e. map_of (z_Records z) h = Some e \<longrightarrow>
       (h, ze_IP e) \<in> site_pairs (ResolveIPv4 parseIP lookupHost) (cfg_Targets cfg) \<union>
                      ns_pairs (ResolveIPv4 parseIP lookupHost) (cfg_Nameservers cfg) \<and>
       length (ze_IP e) = 4 \<and>
       (\<exists>d \<in> ToLower ` set (ns_Domains ns). under_domain h d \<and>
          ze_TTL e = (case map_of (domainTTL (cfg_Domains cfg)) d of None \<Rightarrow> 30 | Some ttl \<Rightarrow> ttl))) \<and>
    (\<forall>t \<in> set (cfg_Targets cfg). \<forall>s \<in> set (tg_Sites t). \<forall>d \<in> ToLower ` set (ns_Domains ns).
       under_domain (ToLower (site_Host s)) d \<longrightarrow> map_of (z_Records z) (ToLower (site_Host s)) \<noteq> None) \<and>
    (\<forall>n \<in> set (cfg_Nameservers cfg). \<forall>h \<in> set (ns_Hosts n). \<forall>d \<in> ToLower ` set (ns_Domains ns).
       under_domain (ToLower h) d \<longrightarrow>
         (\<exists>e. map_of (z_Records z) (ToLower h) = Some e \<and>
           (ToLower h, ze_IP e) \<in> ns_pairs (ResolveIPv4 parseIP lookupHost) (cfg_Nameservers cfg)))"
  using assms by (rule fleet_records_aux)

theorem fleet_records_witness:
  "\<exists>z. length (ze_IP (the (map_of (z_Records z) ''www.x.io''))) = 4 \<and>
     BuildFromFleet (ResolveIPv4 (\<lambda>_. Some [10, 0, 0, 1]) (\<lambda>_. None)) (\<lambda>_ _ _. [''x.io'']) demo_config ''n1'' 7 = Inr z"
proof -
  have r: "ResolveIPv4 (\<lambda>_. Some [10, 0, 0, 1]) (\<lambda>_. None) = (\<lambda>_. Some [10, 0, 0, 1])"
    by (rule ext) (simp add: ResolveIPv4_def To4_def)
  obtain z where
    b: "BuildFromFleet (ResolveIPv4 (\<lambda>_. Some [10, 0, 0, 1]) (\<lambda>_. None)) (\<lambda>_ _ _. [''x.io'']) demo_config ''n1'' 7 = Inr z"
    and w: "map_of (z_Records z) ''www.x.io'' = Some \<lparr>ze_IP = [10, 0, 0, 1], ze_TTL = 60\<rparr>"
    unfolding r using demo_build by blast
  have f: "find (\<lambda>ns. ns_ID ns = ''n1'') (cfg_Nameservers demo_config) = Some (demo_ns ''n1'' ''ns2.x.io'')"
    by (simp add: demo_config_def demo_ns_def)
  have "ToLower ` set (ns_Domains (demo_ns ''n1'' ''ns2.x.io'')) = {''x.io''}"
    by (simp add: demo_ns_def) code_simp
  then have "\<And>p i j. ToLower ` set (ns_Domains (demo_ns ''n1'' ''ns2.x.io'')) \<subseteq> set [''x.io'']" by simp
  from fleet_records [OF b f this] w show ?thesis using b by auto
qed

end
