(* ===== verification/Dns_Txt.thy ===== *)
theory Dns_Txt
  imports Prelude
begin

text \<open>
  The store of ACME DNS-01 challenge records (\<open>internal/dnsserver/txt_store.go\<close>) and the HTTP
  handlers that fill it (\<open>internal/dnsserver/acme_control.go\<close>). The store is the association list
  of its Go map from normalized names to values and TTL; the mutex makes every operation
  atomic. A handler takes the decoded body, \<open>None\<close> when decoding fails, and returns the HTTP
  status with the new store. TTLs are \<open>uint32\<close> values.
\<close>

section \<open>The store\<close>

type_synonym txt_entry = "string list \<times> nat"
type_synonym txt_store = "(string \<times> txt_entry) list"

definition NewTXTStore :: txt_store where
  "NewTXTStore = []"

definition normalizeTXTName :: "string \<Rightarrow> string" where
  "normalizeTXTName name = ToLower (TrimSuffix (TrimSpace name) ''.'')"

definition txt_Add :: "txt_store \<Rightarrow> string \<Rightarrow> string \<Rightarrow> nat \<Rightarrow> txt_store" where
  "txt_Add s name0 value ttl =
    (let name = normalizeTXTName name0 in
     if name = [] \<or> value = [] then s
     else let (values, ttl0) = (case map_of s name of None \<Rightarrow> ([], 0) | Some e \<Rightarrow> e)
          in if value \<in> set values then AList.update name (values, ttl) s
             else AList.update name (values @ [value], ttl) s)"

definition txt_Remove :: "txt_store \<Rightarrow> string \<Rightarrow> string \<Rightarrow> txt_store" where
  "txt_Remove s name0 value =
    (let name = normalizeTXTName name0 in
     if name = [] \<or> value = [] then s
     else case map_of s name of
       None \<Rightarrow> s
     | Some (values, ttl) \<Rightarrow>
         (let out = filter (\<lambda>v. v \<noteq> value) values
          in if out = [] then AList.delete name s else AList.update name (out, ttl) s))"

definition txt_Lookup :: "txt_store \<Rightarrow> string \<Rightarrow> txt_entry option" where
  "txt_Lookup s name0 =
    (let name = normalizeTXTName name0 in if name = [] then None else map_of s name)"

section \<open>The handlers\<close>

definition acmeChallengePrefix :: string where
  "acmeChallengePrefix = ''_acme-challenge.''"

record ACMETXTPutRequest =
  put_Name :: string
  put_Value :: string
  put_TTL :: nat

record ACMETXTDeleteRequest =
  del_Name :: string
  del_Value :: string

definition validateACMETXTName :: "string \<Rightarrow> unit result" where
  "validateACMETXTName name =
    (if name = [] then Inl ''name is required''
     else if \<not> HasPrefix (ToLower (TrimSuffix (TrimSpace name) ''.'')) acmeChallengePrefix
          then Inl ''name must start with _acme-challenge.''
     else Inr ())"

definition handleACMETXTPut :: "txt_store \<Rightarrow> ACMETXTPutRequest option \<Rightarrow> nat \<times> txt_store" where
  "handleACMETXTPut store body =
    (case body of None \<Rightarrow> (400, store)
     | Some req \<Rightarrow>
         (case validateACMETXTName (put_Name req) of
            Inl _ \<Rightarrow> (400, store)
          | Inr _ \<Rightarrow>
              if put_Value req = [] then (400, store)
              else let ttl = (if put_TTL req = 0 then 30 else put_TTL req)
                   in (204, txt_Add store (put_Name req) (put_Value req) ttl)))"

definition handleACMETXTDelete :: "txt_store \<Rightarrow> ACMETXTDeleteRequest option \<Rightarrow> nat \<times> txt_store" where
  "handleACMETXTDelete store body =
    (case body of None \<Rightarrow> (400, store)
     | Some req \<Rightarrow>
         (case validateACMETXTName (del_Name req) of
            Inl _ \<Rightarrow> (400, store)
          | Inr _ \<Rightarrow>
              if del_Value req = [] then (400, store)
              else (204, txt_Remove store (del_Name req) (del_Value req))))"

section \<open>What the handlers rely on\<close>

definition add_value :: "string list \<Rightarrow> string \<Rightarrow> string list" where
  "add_value vs v = (if v \<in> set vs then vs else vs @ [v])"

definition entry_values :: "txt_entry option \<Rightarrow> string list" where
  "entry_values e = (case e of None \<Rightarrow> [] | Some (vs, _) \<Rightarrow> vs)"

locale challenge_store =
  fixes add :: "'s \<Rightarrow> string \<Rightarrow> string \<Rightarrow> nat \<Rightarrow> 's"
    and remove :: "'s \<Rightarrow> string \<Rightarrow> string \<Rightarrow> 's"
    and lookup :: "'s \<Rightarrow> string \<Rightarrow> txt_entry option"
    and norm :: "string \<Rightarrow> string"
  assumes lookup_add: "v \<noteq> [] \<Longrightarrow> norm n \<noteq> [] \<Longrightarrow>
      lookup (add s n v ttl) m =
        (if norm m = norm n then Some (add_value (entry_values (lookup s n)) v, ttl) else lookup s m)"
    and lookup_norm: "norm m = norm n \<Longrightarrow> lookup s m = lookup s n"
    and lookup_remove: "v \<noteq> [] \<Longrightarrow> norm n \<noteq> [] \<Longrightarrow>
      entry_values (lookup (remove s n v) m) =
        (if norm m = norm n then filter (\<lambda>x. x \<noteq> v) (entry_values (lookup s n))
         else entry_values (lookup s m))"
begin

text \<open>A hook may retry: adding the same pair twice is adding it once.\<close>

lemma add_retry:
  "v \<noteq> [] \<Longrightarrow> norm n \<noteq> [] \<Longrightarrow> lookup (add (add s n v ttl) n v ttl) m = lookup (add s n v ttl) m"
  by (auto simp: lookup_add entry_values_def add_value_def)

text \<open>Tearing a challenge down leaves the other values of the name in place.\<close>

lemma remove_keeps_siblings:
  assumes "v \<noteq> []" and "norm n \<noteq> []" and "w \<noteq> v"
  shows "w \<in> set (entry_values (lookup (remove s n v) m)) \<longleftrightarrow> w \<in> set (entry_values (lookup s m))"
  using assms lookup_norm [of m n s] by (cases "norm m = norm n") (auto simp: lookup_remove)

lemma set_add:
  "v \<noteq> [] \<Longrightarrow> norm n \<noteq> [] \<Longrightarrow> norm m = norm n \<Longrightarrow>
     set (entry_values (lookup (add s n v ttl) m)) = insert v (set (entry_values (lookup s n)))"
  by (auto simp: lookup_add entry_values_def add_value_def)

lemma set_remove:
  "v \<noteq> [] \<Longrightarrow> norm n \<noteq> [] \<Longrightarrow> norm m = norm n \<Longrightarrow>
     set (entry_values (lookup (remove s n v) m)) = set (entry_values (lookup s n)) - {v}"
  by (auto simp: lookup_remove)

end

interpretation acme: challenge_store txt_Add txt_Remove txt_Lookup normalizeTXTName
proof unfold_locales
  fix n m :: string and s :: txt_store
  show "normalizeTXTName m = normalizeTXTName n \<Longrightarrow> txt_Lookup s m = txt_Lookup s n"
    by (simp add: txt_Lookup_def)
next
  fix v n m :: string and s :: txt_store and ttl :: nat
  assume "v \<noteq> []" and "normalizeTXTName n \<noteq> []"
  then show "txt_Lookup (txt_Add s n v ttl) m =
      (if normalizeTXTName m = normalizeTXTName n
       then Some (add_value (entry_values (txt_Lookup s n)) v, ttl) else txt_Lookup s m)"
    by (auto simp: txt_Add_def txt_Lookup_def add_value_def entry_values_def Let_def
        split: option.splits prod.splits)
  show "entry_values (txt_Lookup (txt_Remove s n v) m) =
      (if normalizeTXTName m = normalizeTXTName n
       then filter (\<lambda>x. x \<noteq> v) (entry_values (txt_Lookup s n)) else entry_values (txt_Lookup s m))"
    using \<open>v \<noteq> []\<close> \<open>normalizeTXTName n \<noteq> []\<close>
    by (auto simp: txt_Remove_def txt_Lookup_def entry_values_def Let_def
        split: option.splits prod.splits)
qed

section \<open>Executions\<close>

datatype acme_op = APut "ACMETXTPutRequest option" | ADelete "ACMETXTDeleteRequest option"

fun acme_step :: "txt_store \<Rightarrow> acme_op \<Rightarrow> txt_store" where
  "acme_step s (APut body) = snd (handleACMETXTPut s body)"
| "acme_step s (ADelete body) = snd (handleACMETXTDelete s body)"

definition acme_run :: "acme_op list \<Rightarrow> txt_store" where
  "acme_run ops = foldl acme_step NewTXTStore ops"

definition acceptable :: "string \<Rightarrow> string \<Rightarrow> bool" where
  "acceptable name value \<longleftrightarrow> HasPrefix (normalizeTXTName name) acmeChallengePrefix \<and> value \<noteq> []"

lemma acceptable_norm: "acceptable n v \<Longrightarrow> normalizeTXTName n \<noteq> []"
  by (auto simp: acceptable_def HasPrefix_def acmeChallengePrefix_def)

lemma acceptable_name: "HasPrefix (normalizeTXTName n) acmeChallengePrefix \<Longrightarrow> n \<noteq> []"
proof -
  have "normalizeTXTName [] = []"
    by (simp add: normalizeTXTName_def ToLower_def TrimSuffix_def TrimSpace_def HasSuffix_def)
  moreover assume "HasPrefix (normalizeTXTName n) acmeChallengePrefix"
  ultimately show ?thesis by (auto simp: HasPrefix_def acmeChallengePrefix_def)
qed

lemma no_body [simp]:
  "handleACMETXTPut s None = (400, s)"
  "handleACMETXTDelete s None = (400, s)"
  by (simp_all add: handleACMETXTPut_def handleACMETXTDelete_def)

lemma put_effect:
  "handleACMETXTPut s (Some r) =
    (if acceptable (put_Name r) (put_Value r)
     then (204, txt_Add s (put_Name r) (put_Value r) (if put_TTL r = 0 then 30 else put_TTL r))
     else (400, s))"
  using acceptable_name [of "put_Name r"]
  by (auto simp: handleACMETXTPut_def validateACMETXTName_def acceptable_def normalizeTXTName_def
      Let_def)

lemma delete_effect:
  "handleACMETXTDelete s (Some r) =
    (if acceptable (del_Name r) (del_Value r)
     then (204, txt_Remove s (del_Name r) (del_Value r)) else (400, s))"
  using acceptable_name [of "del_Name r"]
  by (auto simp: handleACMETXTDelete_def validateACMETXTName_def acceptable_def normalizeTXTName_def)

text \<open>The abstract store: the set of pairs of a normalized name and a value.\<close>

fun acme_spec_step :: "(string \<times> string) set \<Rightarrow> acme_op \<Rightarrow> (string \<times> string) set" where
  "acme_spec_step A (APut (Some r)) =
     (if acceptable (put_Name r) (put_Value r)
      then insert (normalizeTXTName (put_Name r), put_Value r) A else A)"
| "acme_spec_step A (ADelete (Some r)) =
     (if acceptable (del_Name r) (del_Value r)
      then A - {(normalizeTXTName (del_Name r), del_Value r)} else A)"
| "acme_spec_step A _ = A"

definition txt_pairs :: "txt_store \<Rightarrow> (string \<times> string) set" where
  "txt_pairs s = {(n, v). \<exists>m. normalizeTXTName m = n \<and> v \<in> set (entry_values (txt_Lookup s m))}"

lemma txt_pairs_iff:
  "(normalizeTXTName m, v) \<in> txt_pairs s \<longleftrightarrow> v \<in> set (entry_values (txt_Lookup s m))"
proof
  assume "(normalizeTXTName m, v) \<in> txt_pairs s"
  then obtain m' where "normalizeTXTName m' = normalizeTXTName m"
    and v: "v \<in> set (entry_values (txt_Lookup s m'))"
    by (auto simp: txt_pairs_def)
  from acme.lookup_norm [OF this(1), of s] v
  show "v \<in> set (entry_values (txt_Lookup s m))" by simp
qed (auto simp: txt_pairs_def)

lemma txt_pairs_Add:
  assumes "acceptable n v"
  shows "txt_pairs (txt_Add s n v ttl) = insert (normalizeTXTName n, v) (txt_pairs s)"
proof -
  have v: "v \<noteq> []" and n: "normalizeTXTName n \<noteq> []"
    using assms acceptable_norm by (auto simp: acceptable_def)
  have "w \<in> set (entry_values (txt_Lookup (txt_Add s n v ttl) m)) \<longleftrightarrow>
      (normalizeTXTName m, w) = (normalizeTXTName n, v) \<or> w \<in> set (entry_values (txt_Lookup s m))"
    for m w
    using acme.lookup_norm [of m n s] acme.lookup_add [OF v n, of s ttl m]
    by (cases "normalizeTXTName m = normalizeTXTName n") (auto simp: entry_values_def add_value_def)
  then show ?thesis unfolding txt_pairs_def by auto
qed

lemma txt_pairs_Remove:
  assumes "acceptable n v"
  shows "txt_pairs (txt_Remove s n v) = txt_pairs s - {(normalizeTXTName n, v)}"
proof -
  have v: "v \<noteq> []" and n: "normalizeTXTName n \<noteq> []"
    using assms acceptable_norm by (auto simp: acceptable_def)
  have "w \<in> set (entry_values (txt_Lookup (txt_Remove s n v) m)) \<longleftrightarrow>
      (normalizeTXTName m, w) \<noteq> (normalizeTXTName n, v) \<and> w \<in> set (entry_values (txt_Lookup s m))"
    for m w
    using acme.lookup_norm [of m n s] acme.lookup_remove [OF v n, of s m]
    by (cases "normalizeTXTName m = normalizeTXTName n") auto
  then show ?thesis unfolding txt_pairs_def by auto
qed

lemma acme_step_refines: "txt_pairs (acme_step s op) = acme_spec_step (txt_pairs s) op"
proof (cases op)
  case (APut body)
  then show ?thesis
    by (cases body) (auto simp: put_effect txt_pairs_Add)
next
  case (ADelete body)
  then show ?thesis
    by (cases body) (auto simp: delete_effect txt_pairs_Remove)
qed

section \<open>The invariant\<close>

fun entry_inv :: "string \<times> txt_entry \<Rightarrow> bool" where
  "entry_inv (n, vs, ttl) \<longleftrightarrow> HasPrefix n acmeChallengePrefix \<and> vs \<noteq> [] \<and> distinct vs \<and>
     [] \<notin> set vs \<and> ttl > 0"

definition txt_inv :: "txt_store \<Rightarrow> bool" where
  "txt_inv s \<longleftrightarrow> distinct (map fst s) \<and> list_all entry_inv s"

lemma txt_inv_update: "txt_inv s \<Longrightarrow> entry_inv (n, e) \<Longrightarrow> txt_inv (AList.update n e s)"
proof -
  assume "txt_inv s" and e: "entry_inv (n, e)"
  moreover have "list_all entry_inv s \<Longrightarrow> list_all entry_inv (AList.update n e s)"
    using e by (induction s) auto
  ultimately show ?thesis by (simp add: txt_inv_def distinct_update)
qed

lemma txt_inv_delete: "txt_inv s \<Longrightarrow> txt_inv (AList.delete n s)"
  by (auto simp: txt_inv_def AList.delete_eq list_all_iff distinct_map_filter)

lemma txt_inv_lookup: "txt_inv s \<Longrightarrow> map_of s n = Some e \<Longrightarrow> entry_inv (n, e)"
  by (auto simp: txt_inv_def list_all_iff dest: map_of_SomeD)

lemma txt_inv_Add:
  assumes "txt_inv s" and "acceptable n v" and "ttl > 0"
  shows "txt_inv (txt_Add s n v ttl)"
proof (cases "map_of s (normalizeTXTName n)")
  case None
  with assms show ?thesis
    by (auto simp: txt_Add_def acceptable_def Let_def intro!: txt_inv_update)
next
  case (Some e)
  obtain vs t where e: "e = (vs, t)" by (cases e)
  with txt_inv_lookup [OF assms(1) Some] assms Some show ?thesis
    by (auto simp: txt_Add_def acceptable_def Let_def intro!: txt_inv_update)
qed

lemma txt_inv_Remove: "txt_inv s \<Longrightarrow> txt_inv (txt_Remove s n v)"
  using txt_inv_lookup [of s "normalizeTXTName n"]
  by (auto simp: txt_Remove_def Let_def split: option.splits
      intro!: txt_inv_update txt_inv_delete)

interpretation acme_inv: invariant_machine acme_step txt_inv
proof unfold_locales
  fix s op
  assume inv: "txt_inv s"
  show "txt_inv (acme_step s op)"
  proof (cases op)
    case (APut body)
    with inv show ?thesis
      by (cases body) (auto simp: put_effect intro: txt_inv_Add)
  next
    case (ADelete body)
    with inv show ?thesis
      by (cases body) (auto simp: delete_effect intro: txt_inv_Remove)
  qed
qed

section \<open>Properties\<close>

text \<open>
  C28. The challenge store refines a set of pairs: after any sequence of PUT and DELETE
  requests, valid or not, a value is stored under a name exactly when the last accepted
  request for that pair of normalized name and value was a PUT. Retries, removals of absent
  values and sibling values of the same name never interfere.
\<close>

theorem acme_refinement:
  "(normalizeTXTName n, v) \<in> foldl acme_spec_step {} ops \<longleftrightarrow>
     v \<in> set (entry_values (txt_Lookup (acme_run ops) n))"
proof -
  have "txt_pairs (foldl acme_step s ops) = foldl acme_spec_step (txt_pairs s) ops" for s
    by (induction ops arbitrary: s) (simp_all add: acme_step_refines)
  moreover have "txt_pairs NewTXTStore = {}"
    by (auto simp: txt_pairs_def NewTXTStore_def txt_Lookup_def entry_values_def Let_def)
  ultimately have "txt_pairs (acme_run ops) = foldl acme_spec_step {} ops"
    by (simp add: acme_run_def)
  then show ?thesis using txt_pairs_iff [of n v "acme_run ops"] by simp
qed

text \<open>
  Scope of the bypass: whatever requests the handlers receive, every name in the store is
  under \<open>_acme-challenge.\<close>, has at least one value, no value twice and no empty value, and a
  positive TTL; a lookup of a name outside that prefix finds nothing.
\<close>

theorem acme_scope:
  "txt_inv (acme_run ops) \<and>
   (case txt_Lookup (acme_run ops) n of None \<Rightarrow> True
    | Some (vs, ttl) \<Rightarrow> HasPrefix (normalizeTXTName n) acmeChallengePrefix \<and> vs \<noteq> [] \<and>
        distinct vs \<and> [] \<notin> set vs \<and> ttl > 0)"
proof
  show inv: "txt_inv (acme_run ops)"
    unfolding acme_run_def by (rule acme_inv.run_inv) (simp add: txt_inv_def NewTXTStore_def)
  show "case txt_Lookup (acme_run ops) n of None \<Rightarrow> True
    | Some (vs, ttl) \<Rightarrow> HasPrefix (normalizeTXTName n) acmeChallengePrefix \<and> vs \<noteq> [] \<and>
        distinct vs \<and> [] \<notin> set vs \<and> ttl > 0"
    using txt_inv_lookup [OF inv, of "normalizeTXTName n"]
    by (auto simp: txt_Lookup_def Let_def split: option.splits)
qed

end
