(* ===== verification/Dns_Server.thy ===== *)
theory Dns_Server
  imports Dns_Zones Dns_Txt Registry
begin

text \<open>
  The answer to one DNS query: \<open>BuildResponse\<close>, \<open>handleUDPQuery\<close> and \<open>HandleTCP\<close> of
  \<open>src/internal/dnsserver/dnsserver.go\<close>. The failure registry is threaded through the lookups;
  \<open>now ft\<close> is the clock when failure type \<open>ft\<close> is looked up, \<open>draw\<close> the random source, and \<open>ks\<close>, \<open>ks'\<close>
  the orders in which the two possible zone lookups visit the zone map. A nil zone pointer or
  TXT store is \<open>None\<close>.
\<close>

section \<open>BuildResponse\<close>

datatype reply = Panic | Drop | Reply "byte list"

definition reply_of :: "byte list option \<Rightarrow> reply" where
  "reply_of b = (case b of None \<Rightarrow> Panic | Some bs \<Rightarrow> Reply bs)"

abbreviation "qtypeA \<equiv> 1 :: nat"
abbreviation "qtypeNS \<equiv> 2 :: nat"
abbreviation "qtypeSOA \<equiv> 6 :: nat"
abbreviation "qtypeTXT \<equiv> 16 :: nat"

definition dns_lookup ::
  "draws \<Rightarrow> (string \<Rightarrow> instant) \<Rightarrow> registry \<Rightarrow> string \<Rightarrow> FailureSpec option \<times> registry" where
  "dns_lookup draw now r ft = registry_Lookup draw (now ft) r ft [] []"

definition acme_answer :: "byte list \<Rightarrow> string \<Rightarrow> nat \<Rightarrow> nat \<Rightarrow> txt_store option \<Rightarrow> reply option" where
  "acme_answer query name qtype qEnd txts =
    (if qtype = qtypeTXT \<and> name \<noteq> [] \<and> HasPrefix name acmeChallengePrefix then
       (case txts of None \<Rightarrow> None
        | Some s \<Rightarrow> (case txt_Lookup s name of None \<Rightarrow> None
            | Some (values, ttl) \<Rightarrow> Some (reply_of (txtResponse query qEnd values ttl))))
     else None)"

definition added_latency :: "FailureSpec option \<Rightarrow> duration" where
  "added_latency spec =
    (case spec of None \<Rightarrow> 0
     | Some s \<Rightarrow> (case dget (fs_Params s) ''added_latency'' of
         VString raw \<Rightarrow> (case ParseDuration raw of Some d \<Rightarrow> d | None \<Rightarrow> 0)
       | _ \<Rightarrow> 0))"

definition cname_ttl :: "Zones option \<Rightarrow> string \<Rightarrow> nat" where
  "cname_ttl zones name =
    (case zones of None \<Rightarrow> 30
     | Some z \<Rightarrow> (case map_of (z_Records z) name of None \<Rightarrow> 30 | Some e \<Rightarrow> ze_TTL e))"

definition apex_answer :: "byte list \<Rightarrow> string \<Rightarrow> nat \<Rightarrow> nat \<Rightarrow> Zones option \<Rightarrow> string list \<Rightarrow> byte list option option" where
  "apex_answer query name qtype qEnd zones ks =
    (if qtype = qtypeNS \<or> qtype = qtypeSOA then
       (case LookupApex zones ks name of None \<Rightarrow> None
        | Some apex \<Rightarrow>
           if za_Name apex \<noteq> name then None
           else
             let ttl = (case map_of (z_Records (the zones)) name of
                          Some e \<Rightarrow> if ze_TTL e > 0 then ze_TTL e else soa_Minimum (za_SOA apex)
                        | None \<Rightarrow> soa_Minimum (za_SOA apex))
             in Some (if qtype = qtypeNS then nsResponse query qEnd apex ttl
                      else soaResponse query qEnd apex ttl))
     else None)"

definition negative_answer :: "byte list \<Rightarrow> string \<Rightarrow> nat \<Rightarrow> Zones option \<Rightarrow> string list \<Rightarrow> byte list option" where
  "negative_answer query name qEnd zones ks =
    (case LookupApex zones ks name of
       Some apex \<Rightarrow> nxdomainWithSOA query qEnd apex
     | None \<Rightarrow> errorResponse query qEnd 3)"

definition authoritative ::
  "byte list \<Rightarrow> string \<Rightarrow> nat \<Rightarrow> nat \<Rightarrow> Zones option \<Rightarrow> string list \<Rightarrow> string list \<Rightarrow> byte list option" where
  "authoritative query name qtype qEnd zones ks ks' =
    (case apex_answer query name qtype qEnd zones ks of
       Some resp \<Rightarrow> resp
     | None \<Rightarrow>
         if qtype = qtypeA then
           (case LookupA zones name of
              None \<Rightarrow> None
            | Some (Some e) \<Rightarrow> aResponse query qEnd (ze_IP e) (ze_TTL e)
            | Some None \<Rightarrow> negative_answer query name qEnd zones ks')
         else negative_answer query name qEnd zones ks')"

definition BuildResponse ::
  "draws \<Rightarrow> (string \<Rightarrow> instant) \<Rightarrow> string list \<Rightarrow> string list \<Rightarrow>
   byte list \<Rightarrow> registry \<Rightarrow> Zones option \<Rightarrow> txt_store option \<Rightarrow> (reply \<times> duration) \<times> registry" where
  "BuildResponse draw now ks ks' query r0 zones txts =
    (if length query < 12 then ((Drop, 0), r0)
     else case parseQueryName query of (name, qtype, qEnd) \<Rightarrow>
      (case acme_answer query name qtype qEnd txts of
         Some resp \<Rightarrow> ((resp, 0), r0)
       | None \<Rightarrow>
      (case dns_lookup draw now r0 ''dns_timeout'' of (timeout, r1) \<Rightarrow>
         if timeout \<noteq> None then ((Drop, 0), r1) else
      (case dns_lookup draw now r1 ''dns_latency'' of (slow, r2) \<Rightarrow>
       let latency = added_latency slow in
      (case dns_lookup draw now r2 ''dns_servfail'' of (servfail, r3) \<Rightarrow>
         if servfail \<noteq> None then ((reply_of (errorResponse query qEnd 2), latency), r3) else
      (case dns_lookup draw now r3 ''dns_ns_unavailable'' of
         (Some spec, r4) \<Rightarrow>
           (if as_string (dget (fs_Params spec) ''mode'') = ''servfail''
            then ((reply_of (errorResponse query qEnd 2), latency), r4)
            else ((Drop, 0), r4))
       | (None, r4) \<Rightarrow>
         if name = [] \<or> qEnd = 0 then ((reply_of (errorResponse query qEnd 1), latency), r4) else
      (case dns_lookup draw now r4 ''dns_nxdomain'' of (nx, r5) \<Rightarrow>
         if nx \<noteq> None then ((reply_of (errorResponse query qEnd 3), latency), r5) else
      (case dns_lookup draw now r5 ''dns_cname_nxdomain'' of (cname, r6) \<Rightarrow>
         if cname \<noteq> None
         then ((reply_of (cnameNXDomainResponse query qEnd (cname_ttl zones name)), latency), r6)
         else ((reply_of (authoritative query name qtype qEnd zones ks ks'), latency), r6)))))))))"

section \<open>Delivery\<close>

text \<open>
  A UDP reply is written after the delay. A TCP connection gets one deadline, five seconds
  after it is accepted, that covers the read of the query and the write of the response: a
  read that ends after it or a write that starts after it fails. \<open>read_time\<close> is how long the
  query took to arrive.
\<close>

abbreviation "TCPReadTimeout \<equiv> 5 * Second"

definition handleUDPQuery :: "reply \<times> duration \<Rightarrow> (byte list \<times> duration) option" where
  "handleUDPQuery a = (case a of (Reply resp, delay) \<Rightarrow> Some (resp, max 0 delay) | _ \<Rightarrow> None)"

definition HandleTCP ::
  "(byte list \<Rightarrow> registry \<Rightarrow> (reply \<times> duration) \<times> registry) \<Rightarrow> byte list \<Rightarrow> duration \<Rightarrow> registry \<Rightarrow>
     (byte list \<times> duration) option \<times> registry" where
  "HandleTCP build stream read_time r =
    (if read_time \<ge> TCPReadTimeout then (None, r)
     else case readTCPMessage stream of
       None \<Rightarrow> (None, r)
     | Some query \<Rightarrow>
         (case build query r of
            ((Reply resp, delay), r') \<Rightarrow>
              (if read_time + max 0 delay \<ge> TCPReadTimeout then (None, r')
               else (Some (tcp_frame resp, read_time + max 0 delay), r'))
          | (_, r') \<Rightarrow> (None, r')))"

section \<open>Lookups of different failure types do not interfere\<close>

lemma candidates_host_free: "set (candidates ft [] []) = {ft @ ''::''}"
  by (simp add: candidates_def failureKey_def specOf_def)

lemma dns_lookup_other:
  assumes "ft \<noteq> ft'"
  shows "fst (dns_lookup draw now (snd (dns_lookup draw now' r ft)) ft') = fst (dns_lookup draw now r ft')"
  unfolding dns_lookup_def registry_Lookup_def
  by (rule lookup_loop_cong) (use assms in \<open>auto simp: candidates_host_free intro!: lookup_loop_other\<close>)

lemma dns_lookup_view:
  "now ft \<le> t \<Longrightarrow> registry_view (snd (dns_lookup draw now r ft)) t = registry_view r t"
  by (simp add: dns_lookup_def registry_Lookup_def view_lookup_loop)

section \<open>The precedence of failures as a table\<close>

datatype verdict = NoReply | Fail byte | DeadCname | Genuine

definition dns_rules :: "(string \<Rightarrow> FailureSpec option) \<Rightarrow> bool \<Rightarrow> (bool \<times> verdict) list" where
  "dns_rules active malformed =
    [(active ''dns_timeout'' \<noteq> None, NoReply),
     (active ''dns_servfail'' \<noteq> None, Fail 2),
     (case active ''dns_ns_unavailable'' of None \<Rightarrow> False
      | Some s \<Rightarrow> as_string (dget (fs_Params s) ''mode'') = ''servfail'', Fail 2),
     (active ''dns_ns_unavailable'' \<noteq> None, NoReply),
     (malformed, Fail 1),
     (active ''dns_nxdomain'' \<noteq> None, Fail 3),
     (active ''dns_cname_nxdomain'' \<noteq> None, DeadCname),
     (True, Genuine)]"

definition verdict :: "(string \<Rightarrow> FailureSpec option) \<Rightarrow> bool \<Rightarrow> verdict" where
  "verdict active malformed = snd (hd (filter fst (dns_rules active malformed)))"

lemma dns_chain:
  assumes "active = (\<lambda>ft. fst (dns_lookup draw now r ft))"
  obtains r1 r2 r3 r4 r5 r6 where
    "dns_lookup draw now r ''dns_timeout'' = (active ''dns_timeout'', r1)"
    "dns_lookup draw now r1 ''dns_latency'' = (active ''dns_latency'', r2)"
    "dns_lookup draw now r2 ''dns_servfail'' = (active ''dns_servfail'', r3)"
    "dns_lookup draw now r3 ''dns_ns_unavailable'' = (active ''dns_ns_unavailable'', r4)"
    "dns_lookup draw now r4 ''dns_nxdomain'' = (active ''dns_nxdomain'', r5)"
    "dns_lookup draw now r5 ''dns_cname_nxdomain'' = (active ''dns_cname_nxdomain'', r6)"
    "\<forall>t. (\<forall>ft. now ft \<le> t) \<longrightarrow> registry_view r1 t = registry_view r t \<and> registry_view r2 t = registry_view r t \<and>
       registry_view r3 t = registry_view r t \<and> registry_view r4 t = registry_view r t \<and>
       registry_view r5 t = registry_view r t \<and> registry_view r6 t = registry_view r t"
proof -
  define r1 where "r1 = snd (dns_lookup draw now r ''dns_timeout'')"
  define r2 where "r2 = snd (dns_lookup draw now r1 ''dns_latency'')"
  define r3 where "r3 = snd (dns_lookup draw now r2 ''dns_servfail'')"
  define r4 where "r4 = snd (dns_lookup draw now r3 ''dns_ns_unavailable'')"
  define r5 where "r5 = snd (dns_lookup draw now r4 ''dns_nxdomain'')"
  define r6 where "r6 = snd (dns_lookup draw now r5 ''dns_cname_nxdomain'')"
  note defs = r1_def r2_def r3_def r4_def r5_def r6_def
  show thesis
    by (rule that [of r1 r2 r3 r4 r5 r6])
      (auto simp: prod_eq_iff assms defs dns_lookup_other dns_lookup_view)
qed

lemma BuildResponse_table:
  assumes "12 \<le> length query" and "parseQueryName query = (name, qtype, qEnd)"
    and "acme_answer query name qtype qEnd txts = None"
    and active: "active = (\<lambda>ft. fst (dns_lookup draw now r ft))"
  shows "fst (BuildResponse draw now ks ks' query r zones txts) =
    (case verdict active (name = [] \<or> qEnd = 0) of
       NoReply \<Rightarrow> (Drop, 0)
     | Fail rc \<Rightarrow> (reply_of (errorResponse query qEnd rc), added_latency (active ''dns_latency''))
     | DeadCname \<Rightarrow> (reply_of (cnameNXDomainResponse query qEnd (cname_ttl zones name)),
                     added_latency (active ''dns_latency''))
     | Genuine \<Rightarrow> (reply_of (authoritative query name qtype qEnd zones ks ks'),
                     added_latency (active ''dns_latency'')))"
proof -
  obtain r1 r2 r3 r4 r5 r6 where
    chain: "dns_lookup draw now r ''dns_timeout'' = (active ''dns_timeout'', r1)"
    "dns_lookup draw now r1 ''dns_latency'' = (active ''dns_latency'', r2)"
    "dns_lookup draw now r2 ''dns_servfail'' = (active ''dns_servfail'', r3)"
    "dns_lookup draw now r3 ''dns_ns_unavailable'' = (active ''dns_ns_unavailable'', r4)"
    "dns_lookup draw now r4 ''dns_nxdomain'' = (active ''dns_nxdomain'', r5)"
    "dns_lookup draw now r5 ''dns_cname_nxdomain'' = (active ''dns_cname_nxdomain'', r6)"
    by (rule dns_chain [OF active])
  show ?thesis
    using assms(1-3)
    by (cases "active ''dns_timeout''"; cases "active ''dns_servfail''"; cases "active ''dns_ns_unavailable''";
        cases "active ''dns_nxdomain''"; cases "active ''dns_cname_nxdomain''")
      (simp_all add: BuildResponse_def chain verdict_def dns_rules_def)
qed

lemma BuildResponse_view:
  assumes "\<And>ft. now ft \<le> t"
  shows "registry_view (snd (BuildResponse draw now ks ks' query r zones txts)) t = registry_view r t"
proof -
  define active where active: "active = (\<lambda>ft. fst (dns_lookup draw now r ft))"
  obtain r1 r2 r3 r4 r5 r6 where
    chain: "dns_lookup draw now r ''dns_timeout'' = (active ''dns_timeout'', r1)"
    "dns_lookup draw now r1 ''dns_latency'' = (active ''dns_latency'', r2)"
    "dns_lookup draw now r2 ''dns_servfail'' = (active ''dns_servfail'', r3)"
    "dns_lookup draw now r3 ''dns_ns_unavailable'' = (active ''dns_ns_unavailable'', r4)"
    "dns_lookup draw now r4 ''dns_nxdomain'' = (active ''dns_nxdomain'', r5)"
    "dns_lookup draw now r5 ''dns_cname_nxdomain'' = (active ''dns_cname_nxdomain'', r6)"
    and views: "\<forall>t. (\<forall>ft. now ft \<le> t) \<longrightarrow> registry_view r1 t = registry_view r t \<and> registry_view r2 t = registry_view r t \<and>
       registry_view r3 t = registry_view r t \<and> registry_view r4 t = registry_view r t \<and>
       registry_view r5 t = registry_view r t \<and> registry_view r6 t = registry_view r t"
    by (rule dns_chain [OF active])
  obtain name qtype qEnd where q: "parseQueryName query = (name, qtype, qEnd)" by (cases "parseQueryName query")
  show ?thesis
    using views assms
    by (cases "acme_answer query name qtype qEnd txts"; cases "active ''dns_ns_unavailable''")
      (simp_all add: BuildResponse_def chain q Let_def)
qed

section \<open>Every builder is read back\<close>

definition name_ok :: "string \<Rightarrow> bool" where
  "name_ok s \<longleftrightarrow> list_all label_ok (Split CHR ''.'' s) \<and> length s \<le> 253"

lemma length_labels:
  "ls \<noteq> [] \<Longrightarrow> length (concat (map encode_label ls)) = length (Join ls ''.'') + 1"
proof (induction ls)
  case Nil
  then show ?case by simp
next
  case (Cons l ls)
  then show ?case
    by (cases "ls = []") (simp_all add: encode_label_def Join_Cons bytes_of_def)
qed

lemma name_ok_wire:
  assumes "name_ok s"
  shows "owner_ok (encodeName s)" and "length (encodeName s) \<le> 255"
proof -
  let ?ls = "Split CHR ''.'' s"
  have ls: "?ls \<noteq> []" "\<forall>l \<in> set ?ls. label_ok l" and j: "Join ?ls ''.'' = s"
    using assms by (auto simp: name_ok_def list_all_iff Join_Split)
  show "owner_ok (encodeName s)" using encodeName_owner_ok [OF ls] by (simp add: j)
  have "encodeName s = concat (map encode_label ?ls) @ [0]" using encodeName_Join [OF ls] by (simp add: j)
  then show "length (encodeName s) \<le> 255"
    using length_labels [OF ls(1)] assms by (simp add: j name_ok_def)
qed

definition soa_ok :: "SOA \<Rightarrow> bool" where
  "soa_ok s \<longleftrightarrow> name_ok (soa_MName s) \<and> name_ok (soa_RName s) \<and> soa_Minimum s < 4294967296"

definition apex_ok :: "ZoneApex \<Rightarrow> bool" where
  "apex_ok a \<longleftrightarrow> name_ok (za_Name a) \<and> list_all name_ok (za_NSHostnames a) \<and>
     length (za_NSHostnames a) < 65536 \<and> soa_ok (za_SOA a)"

definition zones_ok :: "Zones \<Rightarrow> bool" where
  "zones_ok z \<longleftrightarrow> list_all (\<lambda>(_, e). length (ze_IP e) = 4 \<and> ze_TTL e < 4294967296) (z_Records z) \<and>
     list_all (\<lambda>g. length (gr_IP g) = 4 \<and> gr_TTL g < 4294967296) (z_Generated z) \<and>
     list_all (\<lambda>(_, a). apex_ok a) (z_Apex z)"

definition txts_ok :: "txt_store \<Rightarrow> bool" where
  "txts_ok s \<longleftrightarrow> list_all (\<lambda>(_, vs, ttl). length vs < 65536 \<and> list_all (\<lambda>v. length v \<le> 65000) vs \<and>
     ttl < 4294967296) s"

definition message :: "byte list \<Rightarrow> byte \<Rightarrow> byte list list \<Rightarrow> rr list \<Rightarrow> rr list \<Rightarrow> dns_message" where
  "message query rc qs ans auth = \<lparr>dm_id = take 2 query, dm_flags = [0x84, rc], dm_question = qs,
     dm_answer = ans, dm_authority = auth\<rparr>"

definition question :: "byte list \<Rightarrow> nat \<Rightarrow> byte list" where
  "question query qEnd = take (qEnd - 12) (drop 12 query)"

definition rr_of :: "nat \<Rightarrow> nat \<Rightarrow> byte list \<Rightarrow> rr" where
  "rr_of ty ttl rdata = \<lparr>rr_owner = qptr, rr_type = ty, rr_class = 1, rr_ttl = ttl, rr_data = rdata\<rparr>"

lemma rr_encode_rr_of: "rr_encode (rr_of ty ttl rdata) = rr_bytes qptr ty ttl rdata"
  by (simp add: rr_encode_def rr_of_def)

lemma rr_ok_rr_of: "rr_ok (rr_of ty ttl rdata) \<longleftrightarrow> ty < 65536 \<and> ttl < 4294967296 \<and> length rdata < 65536"
  by (simp add: rr_ok_def rr_of_def)

lemma length_soaRDATA: "soa_ok s \<Longrightarrow> length (soaRDATA s) < 65536"
  using name_ok_wire(2) [of "soa_MName s"] name_ok_wire(2) [of "soa_RName s"]
  by (simp add: soaRDATA_def soa_ok_def be32_def)

lemma read_answer:
  assumes "parseQueryName query = (name, qtype, qEnd)" and "qEnd \<noteq> 0" and "12 \<le> length query"
    and "list_all rr_ok ans" and "list_all rr_ok auth" and "length ans < 65536" and "length auth < 65536"
  shows "read_message (header query rc 1 (length ans) (length auth) @ question query qEnd @
      concat (map rr_encode ans) @ concat (map rr_encode auth)) =
    Some (message query rc [question query qEnd] ans auth)"
  using read_message_build [of query "[question query qEnd]" ans auth rc] assms question_slice_ok [OF assms(1,2)]
  by (simp add: message_def question_def list_all_iff)

lemma aResponse_reads:
  assumes "parseQueryName query = (name, qtype, qEnd)" and "qEnd \<noteq> 0" and "12 \<le> length query"
    and "length ip = 4" and "ttl < 4294967296"
  shows "\<exists>resp. aResponse query qEnd ip ttl = Some resp \<and>
    read_message resp = Some (message query 0 [question query qEnd] [rr_of 1 ttl ip] [])"
  using read_answer [OF assms(1-3), of "[rr_of 1 ttl ip]" "[]" 0] assms(4,5)
  by (simp add: aResponse_def slice_question [OF assms(1,2)] rr_ok_rr_of rr_encode_rr_of To4_def question_def)

lemma cnameNXDomainResponse_reads:
  assumes "parseQueryName query = (name, qtype, qEnd)" and "qEnd \<noteq> 0" and "12 \<le> length query"
    and "ttl < 4294967296"
  shows "\<exists>resp. cnameNXDomainResponse query qEnd ttl = Some resp \<and>
    read_message resp = Some (message query 0 [question query qEnd] [rr_of 5 ttl cnameTarget] [])"
  using read_answer [OF assms(1-3), of "[rr_of 5 ttl cnameTarget]" "[]" 0] assms(4)
  by (simp add: cnameNXDomainResponse_def slice_question [OF assms(1,2)] rr_ok_rr_of rr_encode_rr_of
      question_def cnameTarget_def bytes_of_def)

lemma soaResponse_reads:
  assumes "parseQueryName query = (name, qtype, qEnd)" and "qEnd \<noteq> 0" and "12 \<le> length query"
    and "ttl < 4294967296" and "apex_ok apex"
  shows "\<exists>resp. soaResponse query qEnd apex ttl = Some resp \<and>
    read_message resp = Some (message query 0 [question query qEnd] [rr_of 6 ttl (soaRDATA (za_SOA apex))] [])"
  using read_answer [OF assms(1-3), of "[rr_of 6 ttl (soaRDATA (za_SOA apex))]" "[]" 0] assms(4,5)
  by (simp add: soaResponse_def slice_question [OF assms(1,2)] rr_ok_rr_of rr_encode_rr_of
      question_def length_soaRDATA apex_ok_def)

lemma nsResponse_reads:
  assumes "parseQueryName query = (name, qtype, qEnd)" and "qEnd \<noteq> 0" and "12 \<le> length query"
    and "ttl < 4294967296" and "apex_ok apex"
  shows "\<exists>resp. nsResponse query qEnd apex ttl = Some resp \<and>
    read_message resp = Some (message query 0 [question query qEnd]
      (map (\<lambda>h. rr_of 2 ttl (encodeName h)) (za_NSHostnames apex)) [])"
proof -
  have "list_all rr_ok (map (\<lambda>h. rr_of 2 ttl (encodeName h)) (za_NSHostnames apex))"
    using assms(4,5) name_ok_wire(2) by (fastforce simp: list_all_iff apex_ok_def rr_ok_rr_of)
  from read_answer [OF assms(1-3) this, of "[]" 0] assms(5) show ?thesis
    by (simp add: nsResponse_def slice_question [OF assms(1,2)] question_def apex_ok_def o_def rr_encode_rr_of)
qed

lemma txtResponse_reads:
  assumes "parseQueryName query = (name, qtype, qEnd)" and "qEnd \<noteq> 0" and "12 \<le> length query"
    and "ttl < 4294967296" and "length values < 65536" and "list_all (\<lambda>v. length v \<le> 65000) values"
  shows "\<exists>resp. txtResponse query qEnd values ttl = Some resp \<and>
    read_message resp = Some (message query 0 [question query qEnd]
      (map (\<lambda>v. rr_of 16 ttl (encodeTXTStrings (bytes_of v))) values) [])"
proof -
  have "length (encodeTXTStrings (bytes_of v)) < 65536" if "length v \<le> 65000" for v
    using length_encodeTXTStrings [of "bytes_of v"] that div_le_mono [of "length v" 65000 255]
    by (simp add: bytes_of_def)
  then have "list_all rr_ok (map (\<lambda>v. rr_of 16 ttl (encodeTXTStrings (bytes_of v))) values)"
    using assms(4,6) by (auto simp: list_all_iff rr_ok_rr_of)
  from read_answer [OF assms(1-3) this, of "[]" 0] assms(5) show ?thesis
    by (simp add: txtResponse_def slice_question [OF assms(1,2)] question_def o_def rr_encode_rr_of)
qed

lemma nxdomainWithSOA_reads:
  assumes "parseQueryName query = (name, qtype, qEnd)" and "qEnd \<noteq> 0" and "12 \<le> length query"
    and "apex_ok apex"
  shows "\<exists>resp. nxdomainWithSOA query qEnd apex = Some resp \<and>
    read_message resp = Some (message query 3 [question query qEnd] []
      [\<lparr>rr_owner = encodeName (za_Name apex), rr_type = 6, rr_class = 1,
        rr_ttl = soa_Minimum (za_SOA apex), rr_data = soaRDATA (za_SOA apex)\<rparr>])"
proof -
  have "rr_ok \<lparr>rr_owner = encodeName (za_Name apex), rr_type = 6, rr_class = 1,
        rr_ttl = soa_Minimum (za_SOA apex), rr_data = soaRDATA (za_SOA apex)\<rparr>"
    using assms(4) name_ok_wire(1) length_soaRDATA by (auto simp: rr_ok_def apex_ok_def soa_ok_def)
  then show ?thesis
    using read_answer [OF assms(1-3), of "[]" "[\<lparr>rr_owner = encodeName (za_Name apex), rr_type = 6, rr_class = 1,
        rr_ttl = soa_Minimum (za_SOA apex), rr_data = soaRDATA (za_SOA apex)\<rparr>]" 3]
    by (simp add: nxdomainWithSOA_def slice_question [OF assms(1,2)] question_def rr_encode_def)
qed

lemma errorResponse_reads:
  assumes "parseQueryName query = (name, qtype, qEnd)" and "12 \<le> length query"
  shows "\<exists>resp. errorResponse query qEnd rc = Some resp \<and>
    read_message resp = Some (message query (rc AND 0x0F)
      (if qEnd = 0 then [] else [question query qEnd]) [] [])"
proof (cases "qEnd = 0")
  case True
  then show ?thesis
    using read_message_build [of query "[]" "[]" "[]" "rc AND 0x0F"] assms(2)
    by (simp add: errorResponse_def message_def)
next
  case False
  then have "qEnd \<le> length query" using parseQueryName_bounds [OF assms(1)] by auto
  then show ?thesis
    using read_answer [OF assms(1) False assms(2), of "[]" "[]" "rc AND 0x0F"] False assms(2)
    by (simp add: errorResponse_def slice_question [OF assms(1) False] question_def)
qed

section \<open>Every reply is well formed\<close>

lemma LookupApex_ok: "zones_ok z \<Longrightarrow> LookupApex (Some z) ks host = Some a \<Longrightarrow> apex_ok a"
  by (auto simp: LookupApex_def zones_ok_def list_all_iff dest!: apex_loop_Some map_of_SomeD)

lemma generated_loop_ok:
  "list_all (\<lambda>g. length (gr_IP g) = 4 \<and> gr_TTL g < 4294967296) gs \<Longrightarrow> generated_loop gs host = Some (Some e) \<Longrightarrow>
     length (ze_IP e) = 4 \<and> ze_TTL e < 4294967296"
  by (induction gs) (auto simp: generated_Lookup_iff split: option.splits)

lemma LookupA_ok:
  "zones_ok z \<Longrightarrow> LookupA (Some z) host = Some (Some e) \<Longrightarrow> length (ze_IP e) = 4 \<and> ze_TTL e < 4294967296"
  by (auto simp: LookupA_def Let_def zones_ok_def list_all_iff split: option.splits
      dest!: map_of_SomeD dest: generated_loop_ok [unfolded list_all_iff])

lemma map_of_Records_ok: "zones_ok z \<Longrightarrow> map_of (z_Records z) name = Some e \<Longrightarrow> ze_TTL e < 4294967296"
  by (auto simp: zones_ok_def list_all_iff dest!: map_of_SomeD)

lemma negative_answer_reads:
  assumes "parseQueryName query = (name, qtype, qEnd)" and "qEnd \<noteq> 0" and "12 \<le> length query"
    and "\<And>z. zones = Some z \<Longrightarrow> zones_ok z"
  shows "\<exists>resp auth. negative_answer query name qEnd zones ks = Some resp \<and>
    read_message resp = Some (message query 3 [question query qEnd] [] auth) \<and>
    (auth = [] \<longleftrightarrow> LookupApex zones ks name = None)"
proof (cases "LookupApex zones ks name")
  case None
  have "(3 :: byte) AND 0x0F = 3" by code_simp
  then show ?thesis
    using errorResponse_reads [OF assms(1,3), of 3] assms(2) None by (auto simp: negative_answer_def)
next
  case (Some apex)
  then obtain z where "zones = Some z" by (auto simp: LookupApex_def split: option.splits)
  then have "apex_ok apex" using Some assms(4) LookupApex_ok by blast
  from nxdomainWithSOA_reads [OF assms(1-3) this] obtain resp x where
    "nxdomainWithSOA query qEnd apex = Some resp"
    "read_message resp = Some (message query 3 [question query qEnd] [] [x])" by blast
  then show ?thesis using Some by (auto simp: negative_answer_def)
qed

lemma apex_answer_reads:
  assumes "parseQueryName query = (name, qtype, qEnd)" and "qEnd \<noteq> 0" and "12 \<le> length query"
    and "\<And>z. zones = Some z \<Longrightarrow> zones_ok z" and "apex_answer query name qtype qEnd zones ks = Some a"
  shows "\<exists>resp ans. a = Some resp \<and> read_message resp = Some (message query 0 [question query qEnd] ans [])"
proof -
  from assms(5) obtain apex where x: "LookupApex zones ks name = Some apex"
    by (auto simp: apex_answer_def split: if_splits option.splits)
  then obtain z where z: "zones = Some z" by (auto simp: LookupApex_def split: option.splits)
  have ok: "apex_ok apex" using x z assms(4) LookupApex_ok by blast
  define ttl where "ttl = (case map_of (z_Records z) name of
      Some e \<Rightarrow> if ze_TTL e > 0 then ze_TTL e else soa_Minimum (za_SOA apex)
    | None \<Rightarrow> soa_Minimum (za_SOA apex))"
  have ttl: "ttl < 4294967296"
    using ok map_of_Records_ok [OF assms(4) [OF z], of name]
    by (auto simp: ttl_def apex_ok_def soa_ok_def split: option.splits)
  have "a = nsResponse query qEnd apex ttl \<or> a = soaResponse query qEnd apex ttl"
    using assms(5) x z by (auto simp: apex_answer_def Let_def ttl_def split: if_splits)
  then show ?thesis
    using nsResponse_reads [OF assms(1-3) ttl ok] soaResponse_reads [OF assms(1-3) ttl ok] by metis
qed

lemma authoritative_reads:
  assumes "parseQueryName query = (name, qtype, qEnd)" and "qEnd \<noteq> 0" and "12 \<le> length query"
    and "\<And>z. zones = Some z \<Longrightarrow> zones_ok z \<and> zones_safe z"
  shows "\<exists>resp rc ans auth. authoritative query name qtype qEnd zones ks ks' = Some resp \<and>
    read_message resp = Some (message query rc [question query qEnd] ans auth)"
proof (cases "apex_answer query name qtype qEnd zones ks")
  case (Some a)
  then show ?thesis
    using apex_answer_reads [OF assms(1-3) _ Some] assms(4) unfolding authoritative_def by fastforce
next
  case None
  have neg: "\<exists>resp rc ans auth. negative_answer query name qEnd zones ks' = Some resp \<and>
      read_message resp = Some (message query rc [question query qEnd] ans auth)"
    using negative_answer_reads [OF assms(1-3)] assms(4) by blast
  show ?thesis
  proof (cases "LookupA zones name")
    case no: None
    then obtain z where "zones = Some z" by (cases zones) (auto simp: LookupA_def)
    then show ?thesis using no assms(4) LookupA_total [of z name] by simp
  next
    case (Some e)
    show ?thesis
    proof (cases e)
      case none: None
      then show ?thesis using neg None Some by (simp add: authoritative_def)
    next
      case e: (Some x)
      then obtain z where z: "zones = Some z" using Some by (cases zones) (auto simp: LookupA_def)
      then have "length (ze_IP x) = 4 \<and> ze_TTL x < 4294967296"
        using assms(4) Some e LookupA_ok by blast
      then show ?thesis
        using neg None Some e aResponse_reads [OF assms(1-3)] by (fastforce simp: authoritative_def)
    qed
  qed
qed

lemma acme_answer_Some:
  "acme_answer query name qtype qEnd txts = Some a \<longleftrightarrow>
    qtype = qtypeTXT \<and> name \<noteq> [] \<and> HasPrefix name acmeChallengePrefix \<and>
    (\<exists>s values ttl. txts = Some s \<and> txt_Lookup s name = Some (values, ttl) \<and>
       a = reply_of (txtResponse query qEnd values ttl))"
  by (auto simp: acme_answer_def split: option.splits if_splits)

lemma txt_Lookup_ok:
  "txts_ok s \<Longrightarrow> txt_Lookup s name = Some (values, ttl) \<Longrightarrow>
     length values < 65536 \<and> list_all (\<lambda>v. length v \<le> 65000) values \<and> ttl < 4294967296"
  by (auto simp: txts_ok_def txt_Lookup_def Let_def list_all_iff split: if_splits dest!: map_of_SomeD)

lemma acme_answer_reads:
  assumes "parseQueryName query = (name, qtype, qEnd)" and "12 \<le> length query"
    and "acme_answer query name qtype qEnd (Some s) = Some a" and "txts_ok s"
  shows "\<exists>resp values ttl. a = Reply resp \<and> txt_Lookup s name = Some (values, ttl) \<and>
    read_message resp = Some (message query 0 [question query qEnd]
      (map (\<lambda>v. rr_of 16 ttl (encodeTXTStrings (bytes_of v))) values) [])"
proof -
  from assms(3) obtain vals ttl where v: "txt_Lookup s name = Some (vals, ttl)" "name \<noteq> []"
    "a = reply_of (txtResponse query qEnd vals ttl)"
    by (auto simp: acme_answer_Some)
  then have "qEnd \<noteq> 0" using parseQueryName_bounds [OF assms(1)] by auto
  from txtResponse_reads [OF assms(1) this assms(2)] txt_Lookup_ok [OF assms(4) v(1)]
  obtain resp where "txtResponse query qEnd vals ttl = Some resp"
    "read_message resp = Some (message query 0 [question query qEnd]
      (map (\<lambda>v. rr_of 16 ttl (encodeTXTStrings (bytes_of v))) vals) [])" by blast
  then show ?thesis using v by (simp add: reply_of_def)
qed

lemma verdict_malformed: "verdict active True \<noteq> Genuine" "verdict active True \<noteq> DeadCname"
  by (simp_all add: verdict_def dns_rules_def split: option.split)

definition well_formed_for :: "byte list \<Rightarrow> nat \<Rightarrow> byte list \<Rightarrow> bool" where
  "well_formed_for query qEnd resp \<longleftrightarrow> (\<exists>rc ans auth. read_message resp =
     Some (message query rc (if qEnd = 0 then [] else [question query qEnd]) ans auth))"

lemma well_formed_forI:
  "read_message resp = Some (message query rc [question query qEnd] ans auth) \<Longrightarrow> qEnd \<noteq> 0 \<Longrightarrow>
     well_formed_for query qEnd resp"
  unfolding well_formed_for_def by auto

lemma errorResponse_well_formed:
  "parseQueryName query = (name, qtype, qEnd) \<Longrightarrow> 12 \<le> length query \<Longrightarrow>
    \<exists>resp. reply_of (errorResponse query qEnd rc) = Reply resp \<and> well_formed_for query qEnd resp"
  using errorResponse_reads [of query name qtype qEnd rc] by (fastforce simp: well_formed_for_def reply_of_def)

lemma response_wellformed_aux:
  assumes "parseQueryName query = (name, qtype, qEnd)"
    and "\<And>z. zones = Some z \<Longrightarrow> zones_ok z \<and> zones_safe z" and "\<And>s. txts = Some s \<Longrightarrow> txts_ok s"
    and "fst (BuildResponse draw now ks ks' query r zones txts) = (rep, delay)"
  shows "rep = Drop \<or> (\<exists>resp. rep = Reply resp \<and> well_formed_for query qEnd resp)"
proof (cases "length query < 12")
  case True
  then show ?thesis using assms(4) by (simp add: BuildResponse_def)
next
  case False
  then have len: "12 \<le> length query" by simp
  define active where active: "active = (\<lambda>ft. fst (dns_lookup draw now r ft))"
  show ?thesis
  proof (cases "acme_answer query name qtype qEnd txts")
    case (Some a)
    then obtain s where s: "txts = Some s" "name \<noteq> []" by (auto simp: acme_answer_Some)
    then have "qEnd \<noteq> 0" using parseQueryName_bounds [OF assms(1)] by auto
    moreover obtain resp where "a = Reply resp" "\<exists>ans. read_message resp =
        Some (message query 0 [question query qEnd] ans [])"
      using acme_answer_reads [OF assms(1) len Some [unfolded s] assms(3) [OF s(1)]] by blast
    moreover have "rep = a" using assms(1,4) Some len by (simp add: BuildResponse_def)
    ultimately show ?thesis using well_formed_forI by blast
  next
    case None
    note tab = BuildResponse_table [OF len assms(1) None active, of ks ks' zones, unfolded assms(4)]
    have ttl: "cname_ttl zones name < 4294967296"
      using assms(2) map_of_Records_ok by (auto simp: cname_ttl_def split: option.split)
    show ?thesis
    proof (cases "verdict active (name = [] \<or> qEnd = 0)")
      case NoReply
      then show ?thesis using tab by simp
    next
      case (Fail rc)
      then show ?thesis using tab errorResponse_well_formed [OF assms(1) len, of rc] by simp
    next
      case DeadCname
      then have q: "qEnd \<noteq> 0" using verdict_malformed by (cases "name = [] \<or> qEnd = 0") auto
      from cnameNXDomainResponse_reads [OF assms(1) q len ttl] show ?thesis
        using tab DeadCname well_formed_forI [OF _ q] by (fastforce simp: reply_of_def)
    next
      case Genuine
      then have q: "qEnd \<noteq> 0" using verdict_malformed by (cases "name = [] \<or> qEnd = 0") auto
      from authoritative_reads [OF assms(1) q len assms(2), of zones ks ks'] show ?thesis
        using tab Genuine well_formed_forI [OF _ q] by (fastforce simp: reply_of_def)
    qed
  qed
qed

section \<open>From the fleet file to the wire\<close>

lemma domain_ttl_bound: "domain_ttl d < 4294967296"
proof -
  have "dom_TTL d mod 2 ^ 32 < 2 ^ 32" by simp
  then have "nat (dom_TTL d mod 2 ^ 32) < 4294967296" by (simp add: nat_less_iff)
  then show ?thesis by (simp add: domain_ttl_def Let_def)
qed

lemma domainTTL_bound_aux:
  "\<forall>t \<in> ran (map_of acc). t < 4294967296 \<Longrightarrow>
     \<forall>t \<in> ran (map_of (fold (\<lambda>d. AList.update (ToLower (dom_Name d)) (domain_ttl d)) ds acc)). t < 4294967296"
proof (induction ds arbitrary: acc)
  case Nil
  then show ?case by simp
next
  case (Cons d ds)
  have "\<forall>t \<in> ran (map_of (AList.update (ToLower (dom_Name d)) (domain_ttl d) acc)). t < 4294967296"
    using Cons.prems domain_ttl_bound by (auto simp: ran_def split: if_splits)
  from Cons.IH [OF this] show ?case by simp
qed

lemma domainTTL_bound: "map_of (domainTTL ds) d = Some t \<Longrightarrow> t < 4294967296"
  using domainTTL_bound_aux [of "[]" ds] by (auto simp: domainTTL_def ran_def)

definition dns_failure_types :: "string list" where
  "dns_failure_types = [''dns_timeout'', ''dns_latency'', ''dns_servfail'', ''dns_ns_unavailable'',
     ''dns_nxdomain'', ''dns_cname_nxdomain'']"

lemma dns_lookup_inactive:
  "registry_view r (now ft) (ft @ ''::'') = None \<Longrightarrow> fst (dns_lookup draw now r ft) = None"
  unfolding dns_lookup_def
  by (rule reg.lookup_inactive [simplified]) (simp add: candidates_host_free)

lemma healthy_answer:
  assumes "parseQueryName query = (name, qtypeA, qEnd)" and "name \<noteq> []" and "12 \<le> length query"
    and "\<And>ft. ft \<in> set dns_failure_types \<Longrightarrow> registry_view r (now ft) (ft @ ''::'') = None"
    and "LookupA (Some z) name = Some (Some e)" and "length (ze_IP e) = 4" and "ze_TTL e < 4294967296"
  shows "\<exists>resp. fst (BuildResponse draw now ks ks' query r (Some z) txts) = (Reply resp, 0) \<and>
    read_message resp = Some (message query 0 [question query qEnd] [rr_of 1 (ze_TTL e) (ze_IP e)] [])"
proof -
  have q: "qEnd \<noteq> 0" using parseQueryName_bounds [OF assms(1)] assms(2) by auto
  have acme: "acme_answer query name qtypeA qEnd txts = None" by (simp add: acme_answer_def)
  define active where active: "active = (\<lambda>ft. fst (dns_lookup draw now r ft))"
  have none: "ft \<in> set dns_failure_types \<Longrightarrow> active ft = None" for ft
    unfolding active using assms(4) by (intro dns_lookup_inactive)
  have "verdict active (name = [] \<or> qEnd = 0) = Genuine" and "active ''dns_latency'' = None"
    using none assms(2) q by (simp_all add: verdict_def dns_rules_def dns_failure_types_def)
  with BuildResponse_table [OF assms(3,1) acme active, of ks ks' "Some z"]
  have b: "fst (BuildResponse draw now ks ks' query r (Some z) txts) =
      (reply_of (authoritative query name qtypeA qEnd (Some z) ks ks'), 0)"
    by (simp add: added_latency_def)
  have "authoritative query name qtypeA qEnd (Some z) ks ks' = aResponse query qEnd (ze_IP e) (ze_TTL e)"
    using assms(5) by (simp add: authoritative_def apex_answer_def)
  then show ?thesis
    using aResponse_reads [OF assms(1) q assms(3,6,7)] by (auto simp: b reply_of_def)
qed

section \<open>Properties\<close>

text \<open>
  C7. Every reply is a well-formed message. For any query, registry and clock, on zones with
  encodable names and without overlapping host patterns and a TXT store of bounded values,
  the server never panics: it either drops the query or answers with a message that a reader
  consumes to the last byte, that repeats the transaction id and, when the question could be
  parsed, exactly the question of the query (an EDNS record of the query never trails the
  answer, and the counts of the header agree with the records).
\<close>

theorem response_wellformed:
  assumes "parseQueryName query = (name, qtype, qEnd)"
    and "\<And>z. zones = Some z \<Longrightarrow> zones_ok z \<and> zones_safe z" and "\<And>s. txts = Some s \<Longrightarrow> txts_ok s"
    and "fst (BuildResponse draw now ks ks' query r zones txts) = (rep, delay)"
  shows "rep = Drop \<or> (\<exists>resp. rep = Reply resp \<and> well_formed_for query qEnd resp)"
  using assms by (rule response_wellformed_aux)

definition demo_query :: "nat \<Rightarrow> byte list" where
  "demo_query qtype = replicate 12 7 @ encodeName ''www.x.io'' @ be16 qtype @ be16 1"

lemma demo_query_parse:
  "qtype < 65536 \<Longrightarrow> parseQueryName (demo_query qtype) = (''www.x.io'', qtype, 26)"
proof -
  assume q: "qtype < 65536"
  have j: "Join [''www'', ''x'', ''io''] ''.'' = ''www.x.io''" by code_simp
  have "length (encodeName ''www.x.io'') = 10" "ToLower ''www.x.io'' = ''www.x.io''" by code_simp+
  then show ?thesis
    using parseQueryName_encoded [of "replicate 12 7" "[''www'', ''x'', ''io'']" qtype 1 "[]"] q
    unfolding j by (simp add: demo_query_def label_ok_def)
qed

definition demo_zones :: Zones where
  "demo_zones = \<lparr>z_Records = [(''www.x.io'', \<lparr>ze_IP = [10, 0, 0, 1], ze_TTL = 60\<rparr>)],
     z_Generated = [demo_range], z_Apex = []\<rparr>"

lemma demo_zones_ok: "zones_ok demo_zones" "zones_safe demo_zones"
proof -
  show "zones_ok demo_zones" by (simp add: zones_ok_def demo_zones_def demo_range_def)
  show "zones_safe demo_zones" unfolding zones_safe_def demo_zones_def by code_simp
qed

theorem response_wellformed_witness:
  "fst (fst (BuildResponse (\<lambda>_ _. 0) (\<lambda>_. 5) [] [] (demo_query 1) NewRegistry (Some demo_zones) None)) = Drop \<or>
   (\<exists>resp. fst (fst (BuildResponse (\<lambda>_ _. 0) (\<lambda>_. 5) [] [] (demo_query 1) NewRegistry (Some demo_zones) None)) = Reply resp \<and>
      well_formed_for (demo_query 1) 26 resp)"
proof (rule response_wellformed [OF demo_query_parse])
  show "\<And>z. Some demo_zones = Some z \<Longrightarrow> zones_ok z \<and> zones_safe z" using demo_zones_ok by simp
  show "fst (BuildResponse (\<lambda>_ _. 0) (\<lambda>_. 5) [] [] (demo_query 1) NewRegistry (Some demo_zones) None) =
    (fst (fst (BuildResponse (\<lambda>_ _. 0) (\<lambda>_. 5) [] [] (demo_query 1) NewRegistry (Some demo_zones) None)),
     snd (fst (BuildResponse (\<lambda>_ _. 0) (\<lambda>_. 5) [] [] (demo_query 1) NewRegistry (Some demo_zones) None)))"
    by simp
qed simp_all

text \<open>
  ACME bypass: a TXT query for a challenge name in the store is answered at once with exactly
  the stored values, one record each, whatever failures are active and whatever the zones
  hold, and leaves the failure registry untouched.
\<close>

theorem acme_bypass:
  assumes "parseQueryName query = (name, qtypeTXT, qEnd)" and "12 \<le> length query"
    and "HasPrefix name acmeChallengePrefix" and "txt_Lookup s name = Some (vals, ttl)" and "txts_ok s"
  shows "\<exists>resp. BuildResponse draw now ks ks' query r zones (Some s) = ((Reply resp, 0), r) \<and>
    read_message resp = Some (message query 0 [question query qEnd]
      (map (\<lambda>v. rr_of 16 ttl (encodeTXTStrings (bytes_of v))) vals) [])"
proof -
  have "name \<noteq> []" using assms(3) by (auto simp: HasPrefix_def acmeChallengePrefix_def)
  then have a: "acme_answer query name qtypeTXT qEnd (Some s) =
      Some (reply_of (txtResponse query qEnd vals ttl))"
    using assms(3,4) by (simp add: acme_answer_def)
  obtain resp where "reply_of (txtResponse query qEnd vals ttl) = Reply resp"
    "read_message resp = Some (message query 0 [question query qEnd]
      (map (\<lambda>v. rr_of 16 ttl (encodeTXTStrings (bytes_of v))) vals) [])"
    using acme_answer_reads [OF assms(1,2) a assms(5)] assms(4) by auto
  then show ?thesis using assms(1,2) a by (auto simp: BuildResponse_def)
qed

theorem acme_bypass_witness:
  "\<exists>resp. BuildResponse (\<lambda>_ _. 0) (\<lambda>_. 5) [] []
      (replicate 12 7 @ encodeName ''_acme-challenge.x.io'' @ be16 qtypeTXT @ be16 1)
      [(''dns_timeout::'', \<lparr>af_spec = specOf ''dns_timeout'' [] [], af_expires = 9, af_rng = None, af_nets = []\<rparr>)]
      None (Some [(''_acme-challenge.x.io'', [''tok''], 30)]) =
     ((Reply resp, 0),
      [(''dns_timeout::'', \<lparr>af_spec = specOf ''dns_timeout'' [] [], af_expires = 9, af_rng = None, af_nets = []\<rparr>)])"
proof -
  let ?n = "''_acme-challenge.x.io''"
  have j: "Join [''_acme-challenge'', ''x'', ''io''] ''.'' = ?n" by code_simp
  have t: "ToLower ?n = ?n" by code_simp
  have "txt_Lookup [(?n, [''tok''], 30)] ?n = Some ([''tok''], 30)" by code_simp
  moreover have "parseQueryName (replicate 12 7 @ encodeName ?n @ be16 qtypeTXT @ be16 1 @ []) =
      (?n, qtypeTXT, 12 + length (encodeName ?n) + 4)"
    using parseQueryName_encoded [of "replicate 12 7" "[''_acme-challenge'', ''x'', ''io'']" qtypeTXT 1 "[]"]
    unfolding j by (simp add: t label_ok_def)
  moreover have "HasPrefix ?n acmeChallengePrefix" by code_simp
  moreover have "txts_ok [(?n, [''tok''], 30)]" by (simp add: txts_ok_def)
  ultimately show ?thesis
    using acme_bypass [where s = "[(?n, [''tok''], 30)]" and vals = "[''tok'']" and ttl = 30] by fastforce
qed

text \<open>
  C3. Precedence of failures. What one query is answered depends only on which failure types a
  lookup finds active in the registry as it was before the query, although the lookups run one
  after another on a changing registry: an active timeout drops it, then SERVFAIL, then an
  unavailable nameserver (SERVFAIL in that mode, else dropped), then FORMERR for a question
  that cannot be parsed, then a bare NXDOMAIN even for names of the zone, then the dead CNAME,
  and only then the zones are consulted; a latency failure delays whatever is sent.
\<close>

theorem failure_precedence:
  assumes "12 \<le> length query" and "parseQueryName query = (name, qtype, qEnd)"
    and "acme_answer query name qtype qEnd txts = None"
    and "active = (\<lambda>ft. fst (dns_lookup draw now r ft))"
  shows "fst (BuildResponse draw now ks ks' query r zones txts) =
    (case verdict active (name = [] \<or> qEnd = 0) of
       NoReply \<Rightarrow> (Drop, 0)
     | Fail rc \<Rightarrow> (reply_of (errorResponse query qEnd rc), added_latency (active ''dns_latency''))
     | DeadCname \<Rightarrow> (reply_of (cnameNXDomainResponse query qEnd (cname_ttl zones name)),
                     added_latency (active ''dns_latency''))
     | Genuine \<Rightarrow> (reply_of (authoritative query name qtype qEnd zones ks ks'),
                     added_latency (active ''dns_latency'')))"
  using assms by (rule BuildResponse_table)

definition demo_registry :: registry where
  "demo_registry =
    [(''dns_nxdomain::'', \<lparr>af_spec = specOf ''dns_nxdomain'' [] [], af_expires = 9, af_rng = None, af_nets = []\<rparr>)]"

theorem failure_precedence_witness:
  "fst (BuildResponse (\<lambda>_ _. 0) (\<lambda>_. 5) [] [] (demo_query 1) demo_registry (Some demo_zones) None) =
     (reply_of (errorResponse (demo_query 1) 26 3), 0)"
proof -
  define active where a: "active = (\<lambda>ft. fst (dns_lookup (\<lambda>_ _. 0) (\<lambda>_. 5) demo_registry ft))"
  have "verdict active False = Fail 3" "added_latency (active ''dns_latency'') = 0"
    unfolding a by code_simp+
  moreover have "12 \<le> length (demo_query 1)" by (simp add: demo_query_def)
  moreover have "acme_answer (demo_query 1) ''www.x.io'' 1 26 None = None" by (simp add: acme_answer_def)
  ultimately show ?thesis
    using failure_precedence [OF _ demo_query_parse [of 1] _ a, where txts = None and ks = "[]" and ks' = "[]"
        and zones = "Some demo_zones"] by simp
qed

text \<open>
  Queries do not disturb a scenario: answering any query, at any time up to \<open>t\<close>, leaves exactly
  the same failures active from \<open>t\<close> on.
\<close>

theorem query_keeps_failures:
  assumes "\<And>ft. now ft \<le> t"
  shows "registry_view (snd (BuildResponse draw now ks ks' query r zones txts)) t = registry_view r t"
  using assms by (rule BuildResponse_view)

theorem query_keeps_failures_witness:
  "registry_view (snd (BuildResponse (\<lambda>_ _. 0) (\<lambda>_. 5) [] [] (demo_query 1) demo_registry (Some demo_zones) None)) 7
     ''dns_nxdomain::'' = Some (specOf ''dns_nxdomain'' [] [])"
  using query_keeps_failures [where now = "\<lambda>_. 5" and t = 7 and r = demo_registry]
  by (simp add: registry_view_def demo_registry_def)

text \<open>
  C24. From the fleet file to the wire: with no DNS failure active, a member built from a fleet
  configuration answers an A query for every declared site under a domain it serves, whatever
  the case of the name, the header of the query and the bytes after its question, at once and
  with exactly one A record: an address the resolver gave for a member that declares the host.
\<close>

theorem site_resolves:
  assumes "BuildFromFleet (ResolveIPv4 parseIP lookupHost) ord cfg member serial = Inr z"
    and "find (\<lambda>ns. ns_ID ns = member) (cfg_Nameservers cfg) = Some ns"
    and "\<And>p i j. ToLower ` set (ns_Domains ns) \<subseteq> set (ord p i j)"
    and "t \<in> set (cfg_Targets cfg)" and "s \<in> set (tg_Sites t)"
    and "d \<in> ToLower ` set (ns_Domains ns)" and "under_domain (ToLower (site_Host s)) d"
    and "ToLower (site_Host s) = ToLower (Join ls ''.'')" and "ls \<noteq> []" and "\<forall>l \<in> set ls. label_ok l"
    and "\<And>ft. ft \<in> set dns_failure_types \<Longrightarrow> registry_view r (now ft) (ft @ ''::'') = None"
    and "length hdr = 12"
  shows "\<exists>resp ip ttl. fst (BuildResponse draw now ks ks'
        (hdr @ encodeName (Join ls ''.'') @ be16 qtypeA @ be16 1 @ rest) r (Some z) txts) = (Reply resp, 0) \<and>
      read_message resp = Some (message hdr 0 [encodeName (Join ls ''.'') @ be16 qtypeA @ be16 1] [rr_of 1 ttl ip] []) \<and>
      (ToLower (site_Host s), ip) \<in> site_pairs (ResolveIPv4 parseIP lookupHost) (cfg_Targets cfg) \<union>
        ns_pairs (ResolveIPv4 parseIP lookupHost) (cfg_Nameservers cfg)"
proof -
  let ?q = "hdr @ encodeName (Join ls ''.'') @ be16 qtypeA @ be16 1 @ rest"
  let ?host = "ToLower (Join ls ''.'')" and ?stop = "12 + length (encodeName (Join ls ''.'')) + 4"
  have parse: "parseQueryName ?q = (?host, qtypeA, ?stop)"
    using assms(9,10,12) by (intro parseQueryName_encoded) simp_all
  note F = fleet_records_aux [OF assms(1-3)]
  obtain e where e: "map_of (z_Records z) ?host = Some e"
    using F [THEN conjunct2] assms(4-8) by force
  have last: "?host \<noteq> []" "last ?host \<noteq> CHR ''.''"
    using Join_last [OF assms(9,10)] by (auto simp: ToLower_def last_map)
  then have look: "LookupA (Some z) ?host = Some (Some e)"
    using e by (simp add: LookupA_def TrimSuffix_dot_id)
  from F [THEN conjunct1, rule_format, OF e] have ip: "length (ze_IP e) = 4"
    and p: "(?host, ze_IP e) \<in> site_pairs (ResolveIPv4 parseIP lookupHost) (cfg_Targets cfg) \<union>
        ns_pairs (ResolveIPv4 parseIP lookupHost) (cfg_Nameservers cfg)"
    and "\<exists>d. ze_TTL e = (case map_of (domainTTL (cfg_Domains cfg)) d of None \<Rightarrow> 30 | Some ttl \<Rightarrow> ttl)"
    by blast+
  from this(3) have ttl: "ze_TTL e < 4294967296" using domainTTL_bound by (auto split: option.splits)
  have len: "12 \<le> length ?q" using assms(12) by simp
  obtain resp where
    "fst (BuildResponse draw now ks ks' ?q r (Some z) txts) = (Reply resp, 0)"
    "read_message resp = Some (message ?q 0 [question ?q ?stop] [rr_of 1 (ze_TTL e) (ze_IP e)] [])"
    using healthy_answer [OF parse last(1) len assms(11) look ip ttl] by blast
  moreover have "message ?q = message hdr"
    using assms(12) by (auto simp: message_def fun_eq_iff)
  moreover have "question ?q ?stop = encodeName (Join ls ''.'') @ be16 qtypeA @ be16 1"
    using assms(12) by (simp add: question_def be16_def)
  ultimately show ?thesis using p assms(8) by auto
qed

theorem site_resolves_witness:
  "\<exists>z resp ip ttl. BuildFromFleet (ResolveIPv4 (\<lambda>_. Some [10, 0, 0, 1]) (\<lambda>_. None)) (\<lambda>_ _ _. [''x.io'']) demo_config ''n1'' 7 = Inr z \<and>
     fst (BuildResponse (\<lambda>_ _. 0) (\<lambda>_. 5) [] [] (demo_query 1) NewRegistry (Some z) None) = (Reply resp, 0) \<and>
     read_message resp = Some (message (replicate 12 7) 0 [encodeName ''www.x.io'' @ be16 1 @ be16 1] [rr_of 1 ttl ip] [])"
proof -
  have r: "ResolveIPv4 (\<lambda>_. Some [10, 0, 0, 1]) (\<lambda>_. None) = (\<lambda>_. Some [10, 0, 0, 1])"
    by (rule ext) (simp add: ResolveIPv4_def To4_def)
  obtain z where
    b: "BuildFromFleet (ResolveIPv4 (\<lambda>_. Some [10, 0, 0, 1]) (\<lambda>_. None)) (\<lambda>_ _ _. [''x.io'']) demo_config ''n1'' 7 = Inr z"
    unfolding r using demo_build by blast
  have f: "find (\<lambda>ns. ns_ID ns = ''n1'') (cfg_Nameservers demo_config) = Some (demo_ns ''n1'' ''ns2.x.io'')"
    by (simp add: demo_config_def demo_ns_def)
  have d: "ToLower ` set (ns_Domains (demo_ns ''n1'' ''ns2.x.io'')) = {''x.io''}"
    by (simp add: demo_ns_def) code_simp
  define t where "t = hd (cfg_Targets demo_config)"
  define s where "s = hd (tg_Sites t)"
  have t: "t \<in> set (cfg_Targets demo_config)" "s \<in> set (tg_Sites t)" "site_Host s = ''www.x.io''"
    by (simp_all add: s_def t_def demo_config_def)
  have j: "Join [''www'', ''x'', ''io''] ''.'' = ''www.x.io''" and l: "ToLower ''www.x.io'' = ''www.x.io''" by code_simp+
  have u: "under_domain (ToLower (site_Host s)) ''x.io''" unfolding t(3) by code_simp
  have dm: "''x.io'' \<in> ToLower ` set (ns_Domains (demo_ns ''n1'' ''ns2.x.io''))" unfolding d by simp
  have ord: "\<And>p i j. ToLower ` set (ns_Domains (demo_ns ''n1'' ''ns2.x.io'')) \<subseteq> set [''x.io'']" unfolding d by simp
  have lab: "\<forall>l \<in> set [''www'', ''x'', ''io'']. label_ok l" by (simp add: label_ok_def)
  have "\<exists>resp ip ttl. fst (BuildResponse (\<lambda>_ _. 0) (\<lambda>_. 5) [] []
        (replicate 12 7 @ encodeName (Join [''www'', ''x'', ''io''] ''.'') @ be16 1 @ be16 1 @ []) NewRegistry (Some z) None) = (Reply resp, 0) \<and>
      read_message resp = Some (message (replicate 12 7) 0 [encodeName (Join [''www'', ''x'', ''io''] ''.'') @ be16 1 @ be16 1] [rr_of 1 ttl ip] [])"
    using site_resolves [OF b f ord t(1,2) dm u _ _ lab, where r = NewRegistry and now = "\<lambda>_. 5" and hdr = "replicate 12 7"
        and rest = "[]" and txts = None and draw = "\<lambda>_ _. 0" and ks = "[]" and ks' = "[]"]
    by (auto simp: t(3) j registry_view_def NewRegistry_def)
  then show ?thesis using b unfolding j demo_query_def by auto
qed

text \<open>
  C39. A crash. A host pattern whose prefix and suffix can overlap is accepted, and an A query for the
  overlapped name makes the range's slice expression panic: any healthy member with such a
  range among its first goes down, since no goroutine of the server recovers.
\<close>

theorem overlap_crash:
  assumes "NewGeneratedRecordRange rid ''load.%d.load.example.com'' start cnt ip ttl = Inr g"
    and "\<And>ft. ft \<in> set dns_failure_types \<Longrightarrow> registry_view r (now ft) (ft @ ''::'') = None"
    and "length hdr = 12" and "map_of (z_Records z) ''load.load.example.com'' = None" and "z_Generated z = g # gs"
  shows "fst (BuildResponse draw now ks ks'
    (hdr @ encodeName ''load.load.example.com'' @ be16 qtypeA @ be16 1 @ rest) r (Some z) txts) = (Panic, 0)"
proof -
  let ?n = "''load.load.example.com''" and ?ls = "[''load'', ''load'', ''example'', ''com'']"
  let ?q = "hdr @ encodeName ?n @ be16 qtypeA @ be16 1 @ rest" and ?stop = "12 + length (encodeName ?n) + 4"
  have j: "Join ?ls ''.'' = ?n" and l: "ToLower ?n = ?n" and d: "TrimSuffix ?n ''.'' = ?n" by code_simp+
  have parse: "parseQueryName ?q = (?n, qtypeA, ?stop)"
    using parseQueryName_encoded [of hdr ?ls qtypeA 1 rest] assms(3) unfolding j by (simp add: l label_ok_def)
  have "parseGeneratedHostPattern ''load.%d.load.example.com'' = Inr (''load.'', ''.load.example.com'', 0)" by code_simp
  then have "gr_Prefix g = ''load.''" "gr_Suffix g = ''.load.example.com''"
    using NewGeneratedRecordRange_Inr(7) [OF assms(1)] by simp_all
  moreover have "HasPrefix ?n ''load.''" "HasSuffix ?n ''.load.example.com''" by code_simp+
  ultimately have "generated_Lookup g ?n = None"
    unfolding generated_Lookup_panic Let_def l d by simp
  then have a: "LookupA (Some z) ?n = None" using assms(4,5) by (simp add: LookupA_def l d)
  define active where active: "active = (\<lambda>ft. fst (dns_lookup draw now r ft))"
  have "ft \<in> set dns_failure_types \<Longrightarrow> active ft = None" for ft
    unfolding active using assms(2) by (intro dns_lookup_inactive)
  then have "verdict active False = Genuine" and "active ''dns_latency'' = None"
    by (simp_all add: verdict_def dns_rules_def dns_failure_types_def)
  with BuildResponse_table [OF _ parse _ active, of txts ks ks' "Some z"] a assms(3) show ?thesis
    by (simp add: acme_answer_def added_latency_def authoritative_def apex_answer_def reply_of_def)
qed

theorem overlap_crash_witness:
  "\<exists>g. NewGeneratedRecordRange ''r'' ''load.%d.load.example.com'' 1 10 [10, 0, 0, 1] 30 = Inr g \<and>
     fst (BuildResponse (\<lambda>_ _. 0) (\<lambda>_. 5) [] [] (replicate 12 7 @ encodeName ''load.load.example.com'' @ be16 1 @ be16 1 @ [])
       NewRegistry (Some \<lparr>z_Records = [], z_Generated = [g], z_Apex = []\<rparr>) None) = (Panic, 0)"
proof -
  obtain g where g: "NewGeneratedRecordRange ''r'' ''load.%d.load.example.com'' 1 10 [10, 0, 0, 1] 30 = Inr g"
  proof
    show "NewGeneratedRecordRange ''r'' ''load.%d.load.example.com'' 1 10 [10, 0, 0, 1] 30 =
      Inr \<lparr>gr_ID = ''r'', gr_HostPattern = ''load.%d.load.example.com'', gr_Prefix = ''load.'',
        gr_Suffix = ''.load.example.com'', gr_Width = 0, gr_Start = 1, gr_End = 10,
        gr_IP = [10, 0, 0, 1], gr_TTL = 30\<rparr>" by code_simp
  qed
  show ?thesis
    by (rule exI [of _ g], rule conjI [OF g], rule overlap_crash [OF g])
      (simp_all add: registry_view_def NewRegistry_def)
qed

text \<open>
  A delay of five seconds never reaches a TCP client. With \<open>added_latency = "5s"\<close>, the value of the
  shipped latency scenario, a query whose answer is not dropped is answered over UDP after
  five seconds, but over TCP nothing is written at all, because the deadline set for the
  read also covers the write.
\<close>

theorem tcp_latency_lost:
  assumes "12 \<le> length query" and "parseQueryName query = (name, qtype, qEnd)"
    and "acme_answer query name qtype qEnd txts = None" and "zones_ok z" and "zones_safe z"
    and "\<And>s. txts = Some s \<Longrightarrow> txts_ok s"
    and "fst (dns_lookup draw now r ''dns_latency'') = Some spec"
    and "dget (fs_Params spec) ''added_latency'' = VString ''5s''"
    and "verdict (\<lambda>ft. fst (dns_lookup draw now r ft)) (name = [] \<or> qEnd = 0) \<noteq> NoReply"
    and "readTCPMessage stream = Some query" and "0 \<le> read_time"
  shows "(\<exists>resp. handleUDPQuery (fst (BuildResponse draw now ks ks' query r (Some z) txts)) = Some (resp, 5 * Second)) \<and>
    fst (HandleTCP (\<lambda>q r. BuildResponse draw now ks ks' q r (Some z) txts) stream read_time r) = None"
proof -
  define active where active: "active = (\<lambda>ft. fst (dns_lookup draw now r ft))"
  have "ParseDuration ''5s'' = Some (5 * Second)" by code_simp
  then have lat: "added_latency (active ''dns_latency'') = 5 * Second"
    using assms(7,8) by (simp add: active added_latency_def)
  obtain rep delay r' where b: "BuildResponse draw now ks ks' query r (Some z) txts = ((rep, delay), r')"
    by (metis prod.exhaust)
  have t: "(rep, delay) = fst (BuildResponse draw now ks ks' query r (Some z) txts)" by (simp add: b)
  have "verdict active (name = [] \<or> qEnd = 0) \<noteq> NoReply" using assms(9) by (simp add: active)
  then have d: "delay = 5 * Second" and n: "rep \<noteq> Drop"
    using t unfolding BuildResponse_table [OF assms(1-3) active] lat
    by (auto simp: reply_of_def split: verdict.splits option.splits)
  have "\<And>z'. Some z = Some z' \<Longrightarrow> zones_ok z' \<and> zones_safe z'" using assms(4,5) by simp
  from response_wellformed_aux [OF assms(2) this assms(6) t [symmetric]] n
  obtain resp where "rep = Reply resp" by blast
  then show ?thesis
    using assms(10,11) b d by (simp add: handleUDPQuery_def HandleTCP_def)
qed

definition slow_registry :: registry where
  "slow_registry = [(''dns_latency::'', \<lparr>af_spec = (specOf ''dns_latency'' [] [])
       \<lparr>fs_Params := [(''added_latency'', VString ''5s'')]\<rparr>, af_expires = 9, af_rng = None, af_nets = []\<rparr>)]"

theorem tcp_latency_lost_witness:
  "fst (HandleTCP (\<lambda>q r. BuildResponse (\<lambda>_ _. 0) (\<lambda>_. 5) [] [] q r (Some demo_zones) None)
     (tcp_frame (demo_query 1)) 0 slow_registry) = None"
proof -
  have look: "dns_lookup (\<lambda>_ _. 0) (\<lambda>_. 5) slow_registry ft =
      (if ft = ''dns_latency'' then Some (af_spec (snd (hd slow_registry))) else None, slow_registry)" for ft
    by (simp add: dns_lookup_def registry_Lookup_def candidates_def failureKey_def specOf_def slow_registry_def roll_def)
  have len: "length (demo_query 1) = 26"
    using parseQueryName_bounds [OF demo_query_parse [of 1]]
    by (simp add: demo_query_def be16_def) code_simp
  have "readTCPMessage (tcp_frame (demo_query 1) @ []) = Some (demo_query 1)"
    unfolding readTCPMessage_def tcp_frame_def using len by (simp add: be16_codec.dec_enc del: append_Nil2) 
  then show ?thesis
    using tcp_latency_lost [OF _ demo_query_parse [of 1], where txts = None and r = slow_registry and read_time = 0
        and z = demo_zones and stream = "tcp_frame (demo_query 1)" and draw = "\<lambda>_ _. 0" and now = "\<lambda>_. 5"
        and ks = "[]" and ks' = "[]" and spec = "af_spec (snd (hd slow_registry))"]
      len demo_zones_ok
    by (simp add: acme_answer_def look verdict_def dns_rules_def) (simp add: slow_registry_def dget_def)
qed

end
