(* ===== verification/Measurement.thy ===== *)
theory Measurement
  imports GoTime "HOL-Library.Product_Lexorder" "HOL-Library.List_Lexorder" "HOL-Library.Char_ord"
begin

text \<open>
  Metric derivation: \<open>src/internal/measurement/measurement.go\<close> and the three database operations
  it calls (\<open>src/internal/db/db.go\<close>). The ground-truth events of a run become failure windows and
  at most one maintenance window, the monitor reports are grouped by service, and each
  service is scored. The database is an association list per table; a JSON column that cannot
  be decoded makes the query of its run fail. Go's maps of services and metrics are lists
  whose order only decides the order of upserts to different keys.
\<close>

section \<open>Rows\<close>

datatype json_column = Null | Json "float64 any" | Malformed

record GroundTruthEvent =
  ge_RunID :: string
  ge_EventType :: string
  ge_TargetID :: string
  ge_FailureType :: string
  ge_OccurredAt :: instant
  ge_Details :: json_column

record MonitorReportRow =
  mr_RunID :: string
  mr_ServiceID :: string
  mr_RetrieveStatus :: string
  mr_RetrieveUnknownReason :: string
  mr_ReasonCode :: string
  mr_EventType :: string
  mr_RawClassification :: string
  mr_NormalizedClassification :: string
  mr_ReportedAt :: "instant option"
  mr_RetrievedAt :: instant
  mr_Metadata :: json_column

record DerivedMetricRow =
  dm_RunID :: string
  dm_ServiceID :: string
  dm_MetricName :: string
  dm_MetricValue :: "float64 option"
  dm_MetricText :: string
  dm_ComputedAt :: instant

definition metric_row :: "float64 option \<Rightarrow> string \<Rightarrow> DerivedMetricRow" where
  "metric_row v t = \<lparr>dm_RunID = [], dm_ServiceID = [], dm_MetricName = [], dm_MetricValue = v,
     dm_MetricText = t, dm_ComputedAt = 0\<rparr>"

section \<open>Failure windows\<close>

record failureWindow =
  fw_kind :: string
  fw_start :: instant
  fw_end :: instant
  fw_details :: params

definition asStringMap :: "float64 any \<Rightarrow> params" where
  "asStringMap v = (case v of VMap m \<Rightarrow> m | _ \<Rightarrow> [])"

definition column :: "json_column \<Rightarrow> float64 any" where
  "column c = (case c of Json v \<Rightarrow> v | _ \<Rightarrow> VNil)"

definition rawString :: "float64 any \<Rightarrow> string" where
  "rawString v = (case v of VString s \<Rightarrow> TrimSpace s | _ \<Rightarrow> [])"

record window_state =
  ws_windows :: "failureWindow list"
  ws_starts :: "(string \<times> instant \<times> params) list"
  ws_mstart :: instant
  ws_maintenance :: "failureWindow option"

definition window_init :: window_state where
  "window_init = \<lparr>ws_windows = [], ws_starts = [], ws_mstart = 0, ws_maintenance = None\<rparr>"

definition window_step :: "window_state \<Rightarrow> GroundTruthEvent \<Rightarrow> window_state" where
  "window_step st e =
    (if ge_EventType e = ''failure_start'' then
       st\<lparr>ws_starts := AList.update (ge_FailureType e)
            (ge_OccurredAt e, asStringMap (column (ge_Details e))) (ws_starts st)\<rparr>
     else if ge_EventType e = ''failure_end'' then
       (case map_of (ws_starts st) (ge_FailureType e) of
          None \<Rightarrow> st
        | Some (since, details) \<Rightarrow>
            st\<lparr>ws_windows := ws_windows st @ [\<lparr>fw_kind = ge_FailureType e, fw_start = since,
                 fw_end = ge_OccurredAt e, fw_details = details\<rparr>],
               ws_starts := AList.delete (ge_FailureType e) (ws_starts st)\<rparr>)
     else if ge_EventType e = ''maintenance_start'' then st\<lparr>ws_mstart := ge_OccurredAt e\<rparr>
     else if ge_EventType e = ''maintenance_end'' then
       (if \<not> IsZero (ws_mstart st) then
          st\<lparr>ws_maintenance := Some \<lparr>fw_kind = [], fw_start = ws_mstart st,
               fw_end = ge_OccurredAt e, fw_details = []\<rparr>, ws_mstart := 0\<rparr>
        else st)
     else st)"

definition failureHTTPMethodStatus :: string where "failureHTTPMethodStatus = ''http_method_status''"
definition failureHTTPTimeout :: string where "failureHTTPTimeout = ''http_timeout''"
definition failureHTTPLatency :: string where "failureHTTPLatency = ''http_latency''"

definition isTLSAdvisoryFailure :: "string \<Rightarrow> bool" where
  "isTLSAdvisoryFailure k \<longleftrightarrow> k = ''tls_deprecated'' \<or> k = ''tls_expiring''"

definition isHealthyGETMethodTrap :: "failureWindow \<Rightarrow> bool" where
  "isHealthyGETMethodTrap w \<longleftrightarrow>
    (if fw_kind w \<noteq> failureHTTPMethodStatus then False
     else let m = rawString (dget (fw_details w) ''method'') in m \<noteq> [] \<and> \<not> EqualFold m ''GET'')"

fun splitWindows :: "failureWindow list \<Rightarrow> failureWindow list \<times> failureWindow list" where
  "splitWindows [] = ([], [])"
| "splitWindows (w # ws) =
    (let (normal, advisory) = splitWindows ws
     in if isTLSAdvisoryFailure (fw_kind w) then (normal, w # advisory)
        else if isHealthyGETMethodTrap w then (normal, advisory)
        else (w # normal, advisory))"

definition effectiveFailureEnd :: "failureWindow \<Rightarrow> instant" where
  "effectiveFailureEnd w =
    (if fw_kind w \<noteq> failureHTTPTimeout \<and> fw_kind w \<noteq> failureHTTPLatency then fw_end w
     else case ParseDuration (rawString (dget (fw_details w) ''delay'')) of
       None \<Rightarrow> fw_end w
     | Some delay \<Rightarrow> if delay \<le> 0 then fw_end w else time_Add (fw_end w) delay)"

definition containsTime :: "failureWindow \<Rightarrow> instant \<Rightarrow> bool" where
  "containsTime w t \<longleftrightarrow> \<not> t < fw_start w \<and> \<not> t > effectiveFailureEnd w"

section \<open>Maintenance coverage\<close>

fun merge_loop :: "failureWindow \<Rightarrow> failureWindow list \<Rightarrow> failureWindow list" where
  "merge_loop cur [] = [cur]"
| "merge_loop cur (w # ws) =
    (if \<not> fw_start w > fw_end cur
     then merge_loop (if fw_end w > fw_end cur then cur\<lparr>fw_end := fw_end w\<rparr> else cur) ws
     else cur # merge_loop w ws)"

definition mergeWindows :: "failureWindow list \<Rightarrow> failureWindow list" where
  "mergeWindows windows =
    (let normalized = filter (\<lambda>w. fw_end w > fw_start w) windows
     in case sort_key (\<lambda>w. (fw_start w, fw_end w)) normalized of
          [] \<Rightarrow> [] | w # ws \<Rightarrow> merge_loop w ws)"

fun overlap_loop :: "failureWindow \<Rightarrow> failureWindow list \<Rightarrow> duration \<Rightarrow> duration \<Rightarrow> duration \<times> duration" where
  "overlap_loop m [] tot overlap = (tot, overlap)"
| "overlap_loop m (w # ws) tot overlap =
    (let tot' = wrap64 (tot + time_Sub (fw_end w) (fw_start w)) in
     if fw_end m < fw_start w \<or> fw_start m > fw_end w then overlap_loop m ws tot' overlap
     else let s = (if fw_start m > fw_start w then fw_start m else fw_start w);
              e = (if fw_end m < fw_end w then fw_end m else fw_end w)
          in overlap_loop m ws tot' (wrap64 (overlap + time_Sub e s)))"

definition overlapFraction :: "failureWindow list \<Rightarrow> failureWindow \<Rightarrow> float64" where
  "overlapFraction windows maintenance =
    (if windows = [] then Fin 0
     else let (tot, overlap) = overlap_loop maintenance (mergeWindows windows) 0 0
          in if tot \<le> 0 then Fin 0 else fdiv (float_of_int overlap) (float_of_int tot))"

definition maintenanceCoverageThreshold :: float64 where
  "maintenanceCoverageThreshold = fl (4 / 5)"

section \<open>Reports of one service\<close>

record serviceData =
  sd_unknown :: bool
  sd_reason :: string
  sd_cooldownSuppressed :: bool
  sd_cooldownUncertain :: bool
  sd_cooldownExplanation :: string
  sd_alerts :: "MonitorReportRow list"

definition serviceData_empty :: serviceData where
  "serviceData_empty = \<lparr>sd_unknown = False, sd_reason = [], sd_cooldownSuppressed = False,
     sd_cooldownUncertain = False, sd_cooldownExplanation = [], sd_alerts = []\<rparr>"

definition ReasonCooldownSuppressed :: string where "ReasonCooldownSuppressed = ''cooldown_suppressed''"
definition ReasonCooldownUncertain :: string where "ReasonCooldownUncertain = ''cooldown_uncertain''"
definition ReasonCooldownResetFailed :: string where "ReasonCooldownResetFailed = ''cooldown_reset_failed''"

fun firstRawString :: "params \<Rightarrow> string list \<Rightarrow> string" where
  "firstRawString m [] = []"
| "firstRawString m (k # ks) = (if rawString (dget m k) \<noteq> [] then rawString (dget m k) else firstRawString m ks)"

definition normalizeMetadataString :: "float64 any \<Rightarrow> string" where
  "normalizeMetadataString v = ToLower (rawString v)"

definition truthy :: "float64 any \<Rightarrow> bool" where
  "truthy v = (case v of
     VBool b \<Rightarrow> b
   | VString s \<Rightarrow> ToLower (TrimSpace s) \<in> {''1'', ''true'', ''yes'', ''y''}
   | VFloat f \<Rightarrow> \<not> feq f (Fin 0)
   | VInt n \<Rightarrow> n \<noteq> 0
   | _ \<Rightarrow> False)"

fun cooldown_keys :: "params \<Rightarrow> string list \<Rightarrow> string option" where
  "cooldown_keys m [] = None"
| "cooldown_keys m (k # ks) =
    (let raw = normalizeMetadataString (dget m k) in
     if raw \<in> {ReasonCooldownSuppressed, ''suppressed''} then Some ReasonCooldownSuppressed
     else if raw \<in> {ReasonCooldownUncertain, ReasonCooldownResetFailed, ''uncertain'', ''reset_failed'', ''reset-failed''}
     then Some ReasonCooldownUncertain
     else cooldown_keys m ks)"

definition cooldownState :: "MonitorReportRow \<Rightarrow> string \<times> string" where
  "cooldownState r =
    (if mr_ReasonCode r = ReasonCooldownSuppressed then (ReasonCooldownSuppressed, mr_RetrieveUnknownReason r)
     else if mr_ReasonCode r = ReasonCooldownUncertain \<or> mr_ReasonCode r = ReasonCooldownResetFailed
     then (ReasonCooldownUncertain, mr_RetrieveUnknownReason r)
     else case column (mr_Metadata r) of
       VMap m \<Rightarrow>
         (let explanation = firstRawString m [''cooldown_reason'', ''cooldown_explanation'', ''reason''] in
          case cooldown_keys m [''reason_code'', ''cooldown_reason_code'', ''cooldown_outcome'', ''cooldown_state''] of
            Some state \<Rightarrow> (state, explanation)
          | None \<Rightarrow>
              if truthy (dget m ''cooldown_suppressed'') then (ReasonCooldownSuppressed, explanation)
              else if truthy (dget m ''cooldown_uncertain'') \<or> truthy (dget m ''cooldown_reset_failed'')
              then (ReasonCooldownUncertain, explanation)
              else ([], []))
     | _ \<Rightarrow> ([], []))"

definition add_report :: "serviceData \<Rightarrow> MonitorReportRow \<Rightarrow> serviceData" where
  "add_report sd0 r =
    (let sd = (if mr_RetrieveStatus r = ''unknown''
               then sd0\<lparr>sd_unknown := True, sd_reason := mr_RetrieveUnknownReason r\<rparr> else sd0);
         (state, explanation) = cooldownState r;
         sd = (if state = ReasonCooldownSuppressed then sd\<lparr>sd_cooldownSuppressed := True\<rparr>
               else if state = ReasonCooldownUncertain then sd\<lparr>sd_cooldownUncertain := True\<rparr> else sd);
         sd = (if state \<noteq> [] \<and> explanation \<noteq> [] \<and> sd_cooldownExplanation sd = []
               then sd\<lparr>sd_cooldownExplanation := explanation\<rparr> else sd)
     in if mr_EventType r = ''alert_fired'' then sd\<lparr>sd_alerts := sd_alerts sd @ [r]\<rparr> else sd)"

definition group_reports :: "MonitorReportRow list \<Rightarrow> (string \<times> serviceData) list" where
  "group_reports rs = fold (\<lambda>r m. AList.update (mr_ServiceID r)
     (add_report (case map_of m (mr_ServiceID r) of None \<Rightarrow> serviceData_empty | Some sd \<Rightarrow> sd) r) m) rs []"

section \<open>Scoring\<close>

record tally =
  ty_truePositive :: bool
  ty_falseNegative :: bool
  ty_falsePositive :: bool
  ty_tlsDetected :: bool
  ty_tlsMissed :: bool
  ty_tlsFalseOutage :: bool
  ty_latency :: "float64 option"

definition alert_step :: "failureWindow list \<Rightarrow> failureWindow list \<Rightarrow> tally \<Rightarrow> MonitorReportRow \<Rightarrow> tally" where
  "alert_step normal advisory st alert =
    (case mr_ReportedAt alert of
       None \<Rightarrow> st
     | Some t \<Rightarrow>
         (let inNormal = find (\<lambda>w. containsTime w t) normal;
              st = (case inNormal of None \<Rightarrow> st
                    | Some w \<Rightarrow> if ty_latency st = None
                               then st\<lparr>ty_latency := Some (Seconds (time_Sub t (fw_start w)))\<rparr> else st);
              inAdvisory = list_ex (\<lambda>w. containsTime w t) advisory;
              st = (if inAdvisory \<and> mr_NormalizedClassification alert = ''tls_advisory''
                    then st\<lparr>ty_tlsDetected := True, ty_tlsMissed := False\<rparr>
                    else if inAdvisory then st\<lparr>ty_tlsFalseOutage := True, ty_tlsMissed := False\<rparr>
                    else st)
          in if inNormal \<noteq> None then st\<lparr>ty_truePositive := True, ty_falseNegative := False\<rparr>
             else if \<not> inAdvisory then st\<lparr>ty_falsePositive := True\<rparr>
             else st))"

definition score :: "failureWindow list \<Rightarrow> failureWindow list \<Rightarrow> MonitorReportRow list \<Rightarrow> tally" where
  "score normal advisory alerts = foldl (alert_step normal advisory)
     \<lparr>ty_truePositive = False, ty_falseNegative = (normal \<noteq> []), ty_falsePositive = False,
      ty_tlsDetected = False, ty_tlsMissed = (advisory \<noteq> []), ty_tlsFalseOutage = False,
      ty_latency = None\<rparr> alerts"

definition boolVal :: "bool \<Rightarrow> float64 option" where
  "boolVal b = Some (Fin (if b then 1 else 0))"

definition computeMetrics ::
  "serviceData \<Rightarrow> failureWindow list \<Rightarrow> failureWindow option \<Rightarrow> (string \<times> DerivedMetricRow) list" where
  "computeMetrics sr windows maintenance =
    (if sd_unknown sr then [(''unknown'', metric_row (Some (Fin 1)) (sd_reason sr))]
     else
       let (normal, advisory) = splitWindows windows;
           st = score normal advisory (sd_alerts sr);
           falseNegative = ty_falseNegative st;
           maintenanceSuppressed = (case maintenance of None \<Rightarrow> False
             | Some m \<Rightarrow> falseNegative \<and> windows \<noteq> [] \<and>
                        fle maintenanceCoverageThreshold (overlapFraction windows m));
           falseNegative = (falseNegative \<and> \<not> maintenanceSuppressed);
           cooldownSuppressed = (falseNegative \<and> windows \<noteq> [] \<and> sd_cooldownSuppressed sr);
           cooldownUncertain = (falseNegative \<and> windows \<noteq> [] \<and> \<not> sd_cooldownSuppressed sr \<and> sd_cooldownUncertain sr);
           falseNegative = (falseNegative \<and> \<not> cooldownSuppressed \<and> \<not> cooldownUncertain)
       in [(''true_positive'', metric_row (boolVal (ty_truePositive st)) []),
           (''false_negative'', metric_row (boolVal falseNegative) []),
           (''false_positive'', metric_row (boolVal (ty_falsePositive st)) []),
           (''unknown'', metric_row (Some (Fin 0)) []),
           (''maintenance_suppressed'', metric_row (boolVal maintenanceSuppressed) []),
           (''cooldown_suppressed'', metric_row (boolVal cooldownSuppressed) (sd_cooldownExplanation sr)),
           (''cooldown_uncertain'', metric_row (boolVal cooldownUncertain) (sd_cooldownExplanation sr)),
           (''tls_advisory_detected'', metric_row (boolVal (ty_tlsDetected st)) []),
           (''tls_advisory_missed'', metric_row (boolVal (ty_tlsMissed st)) []),
           (''tls_advisory_false_outage'', metric_row (boolVal (ty_tlsFalseOutage st)) [])] @
          (case ty_latency st of None \<Rightarrow> [] | Some l \<Rightarrow> [(''detection_latency_s'', metric_row (Some l) [])]))"

section \<open>The database and the derivation\<close>

record database =
  db_events :: "GroundTruthEvent list"
  db_reports :: "MonitorReportRow list"
  db_runs :: "(string \<times> string \<times> instant) list"
  db_metrics :: "((string \<times> string \<times> string) \<times> DerivedMetricRow) list"

definition GroundTruthEventsForRun :: "database \<Rightarrow> string \<Rightarrow> GroundTruthEvent list result" where
  "GroundTruthEventsForRun d runID =
    (let rows = sort_key ge_OccurredAt (filter (\<lambda>e. ge_RunID e = runID) (db_events d))
     in if list_ex (\<lambda>e. ge_Details e = Malformed) rows then Inl ''db: GroundTruthEventsForRun: details''
        else Inr rows)"

text \<open>
  \<open>ORDER BY occurred_at\<close> leaves the order of rows with equal times open. Above it is the order of insertion;
  these are all the lists that the query may return.
\<close>

definition may_return :: "database \<Rightarrow> string \<Rightarrow> GroundTruthEvent list \<Rightarrow> bool" where
  "may_return d runID rows \<longleftrightarrow>
    mset rows = mset (filter (\<lambda>e. ge_RunID e = runID) (db_events d)) \<and> sorted (map ge_OccurredAt rows)"

lemma GroundTruthEventsForRun_may_return: "GroundTruthEventsForRun d runID = Inr rows \<Longrightarrow> may_return d runID rows"
  by (auto simp: GroundTruthEventsForRun_def may_return_def Let_def split: if_splits)

definition MonitorReportsForRun :: "database \<Rightarrow> string \<Rightarrow> MonitorReportRow list result" where
  "MonitorReportsForRun d runID =
    (let rows = sort_key mr_RetrievedAt (filter (\<lambda>r. mr_RunID r = runID) (db_reports d))
     in if list_ex (\<lambda>r. mr_Metadata r = Malformed) rows then Inl ''db: MonitorReportsForRun: metadata''
        else Inr rows)"

definition RunIDsForCampaign :: "database \<Rightarrow> string \<Rightarrow> string list" where
  "RunIDsForCampaign d campaign =
     map fst (sort_key (\<lambda>(i, c, t). (t, i)) (filter (\<lambda>(i, c, t). c = campaign) (db_runs d)))"

definition truncateRunes :: "string \<Rightarrow> nat \<Rightarrow> string" where
  "truncateRunes s m =
    (if m = 0 then [] else if length s \<le> m then s
     else if m \<le> 3 then take m s else take (m - 3) s @ ''...'')"

definition metricTextValue :: "string \<Rightarrow> string" where
  "metricTextValue s = (if s = [] then [] else truncateRunes s 256)"

definition metric_key :: "DerivedMetricRow \<Rightarrow> string \<times> string \<times> string" where
  "metric_key r = (dm_RunID r, dm_ServiceID r, dm_MetricName r)"

definition UpsertDerivedMetric :: "database \<Rightarrow> DerivedMetricRow \<Rightarrow> database" where
  "UpsertDerivedMetric d r = d\<lparr>db_metrics := AList.update (metric_key r)
     (r\<lparr>dm_MetricText := metricTextValue (dm_MetricText r)\<rparr>) (db_metrics d)\<rparr>"

definition service_rows ::
  "string \<Rightarrow> instant \<Rightarrow> failureWindow list \<Rightarrow> failureWindow option \<Rightarrow> string \<times> serviceData \<Rightarrow> DerivedMetricRow list" where
  "service_rows runID now windows maintenance s =
    map (\<lambda>(name, row). row\<lparr>dm_RunID := runID, dm_ServiceID := fst s, dm_MetricName := name, dm_ComputedAt := now\<rparr>)
      (computeMetrics (snd s) windows maintenance)"

definition Derive :: "instant \<Rightarrow> database \<Rightarrow> string \<Rightarrow> unit result \<times> database" where
  "Derive now d runID =
    (case GroundTruthEventsForRun d runID of
       Inl e \<Rightarrow> (Inl (''measurement: load events: '' @ e), d)
     | Inr events \<Rightarrow>
    (case MonitorReportsForRun d runID of
       Inl e \<Rightarrow> (Inl (''measurement: load reports: '' @ e), d)
     | Inr reports \<Rightarrow>
        (let st = foldl window_step window_init events;
             rows = concat (map (service_rows runID now (ws_windows st) (ws_maintenance st)) (group_reports reports))
         in (Inr (), foldl UpsertDerivedMetric d rows))))"

fun derive_runs :: "instant \<Rightarrow> database \<Rightarrow> string list \<Rightarrow> string list \<times> database" where
  "derive_runs now d [] = ([], d)"
| "derive_runs now d (r # rs) =
    (case Derive now d r of (res, d') \<Rightarrow>
     case derive_runs now d' rs of (errs, d'') \<Rightarrow>
       ((case res of Inl e \<Rightarrow> (r @ '': '' @ e) # errs | Inr _ \<Rightarrow> errs), d''))"

definition DeriveCampaign :: "instant \<Rightarrow> database \<Rightarrow> string \<Rightarrow> string list \<times> database" where
  "DeriveCampaign now d campaign = derive_runs now d (RunIDsForCampaign d campaign)"

section \<open>Merged windows cover the same instants\<close>

definition cov :: "failureWindow list \<Rightarrow> instant set" where
  "cov ws = (\<Union>w \<in> set ws. {fw_start w ..< fw_end w})"

definition separated :: "failureWindow list \<Rightarrow> bool" where
  "separated ws \<longleftrightarrow> (\<forall>w \<in> set ws. fw_start w < fw_end w) \<and> sorted_wrt (\<lambda>a b. fw_end a < fw_start b) ws"

lemma cov_simps [simp]: "cov [] = {}" "cov (w # ws) = {fw_start w ..< fw_end w} \<union> cov ws"
  by (simp_all add: cov_def)

lemma finite_cov [simp]: "finite (cov ws)"
  by (simp add: cov_def)

lemma merge_loop_correct:
  assumes "fw_start cur < fw_end cur" and "\<forall>w \<in> set ws. fw_start w < fw_end w \<and> fw_start cur \<le> fw_start w"
    and "sorted_wrt (\<lambda>a b. fw_start a \<le> fw_start b) ws"
  shows "separated (merge_loop cur ws) \<and> cov (merge_loop cur ws) = cov (cur # ws) \<and>
    (\<forall>w \<in> set (merge_loop cur ws). fw_start cur \<le> fw_start w)"
  using assms
proof (induction ws arbitrary: cur)
  case Nil
  then show ?case by (simp add: separated_def)
next
  case (Cons w ws)
  show ?case
  proof (cases "fw_start w \<le> fw_end cur")
    case True
    define c where "c = (if fw_end w > fw_end cur then cur\<lparr>fw_end := fw_end w\<rparr> else cur)"
    have c: "fw_start c = fw_start cur" "fw_end c = max (fw_end cur) (fw_end w)" by (auto simp: c_def)
    have "{fw_start c ..< fw_end c} = {fw_start cur ..< fw_end cur} \<union> {fw_start w ..< fw_end w}"
      using True Cons.prems by (auto simp: c)
    then have "cov (c # ws) = cov (cur # w # ws)" by auto
    moreover have "merge_loop cur (w # ws) = merge_loop c ws" using True by (simp add: c_def)
    ultimately show ?thesis using Cons.IH [of c] Cons.prems c by simp
  next
    case False
    then have m: "merge_loop cur (w # ws) = cur # merge_loop w ws" by simp
    have IH: "separated (merge_loop w ws)" "cov (merge_loop w ws) = cov (w # ws)"
      "\<forall>v \<in> set (merge_loop w ws). fw_start w \<le> fw_start v"
      using Cons.IH [of w] Cons.prems by auto
    have "\<forall>v \<in> set (merge_loop w ws). fw_end cur < fw_start v" using IH(3) False by fastforce
    moreover have "\<forall>v \<in> set (merge_loop w ws). fw_start cur \<le> fw_start v" using IH(3) Cons.prems by fastforce
    ultimately show ?thesis using IH(1,2) Cons.prems(1) unfolding m by (auto simp: separated_def)
  qed
qed

lemma mergeWindows_correct:
  "separated (mergeWindows ws) \<and> cov (mergeWindows ws) = cov ws"
proof -
  define ns where "ns = sort_key (\<lambda>w. (fw_start w, fw_end w)) (filter (\<lambda>w. fw_end w > fw_start w) ws)"
  have set: "set ns = {w \<in> set ws. fw_start w < fw_end w}" by (simp add: ns_def)
  have "cov ns = cov ws" unfolding cov_def set by fastforce
  moreover have m: "mergeWindows ws = (case ns of [] \<Rightarrow> [] | w # ws \<Rightarrow> merge_loop w ws)"
    by (simp add: mergeWindows_def ns_def)
  have "sorted (map (\<lambda>w. (fw_start w, fw_end w)) ns)" unfolding ns_def by simp
  then have "sorted_wrt (\<lambda>a b. fw_start a \<le> fw_start b) ns"
    by (auto simp: sorted_map elim!: sorted_wrt_mono_rel [rotated])
  then show ?thesis
    using calculation set unfolding m
    by (cases ns) (auto simp: separated_def dest!: merge_loop_correct [rotated 2])
qed

section \<open>Coverage as a fraction of instants\<close>

lemma separated_Cons:
  "separated (w # ws) \<longleftrightarrow> fw_start w < fw_end w \<and> (\<forall>v \<in> set ws. fw_end w < fw_start v) \<and> separated ws"
  by (auto simp: separated_def)

lemma cov_disjoint: "separated (w # ws) \<Longrightarrow> {fw_start w ..< fw_end w} \<inter> cov ws = {}"
  by (fastforce simp: separated_Cons cov_def)

lemma card_cov_Cons:
  assumes "separated (w # ws)"
  shows "int (card (cov (w # ws))) = (fw_end w - fw_start w) + int (card (cov ws))"
    and "int (card (cov (w # ws) \<inter> {a ..< b})) =
      max 0 (min (fw_end w) b - max (fw_start w) a) + int (card (cov ws \<inter> {a ..< b}))"
proof -
  have d: "{fw_start w ..< fw_end w} \<inter> cov ws = {}" by (rule cov_disjoint [OF assms])
  show "int (card (cov (w # ws))) = (fw_end w - fw_start w) + int (card (cov ws))"
    using d assms by (simp add: card_Un_disjoint separated_Cons)
  let ?A = "{max (fw_start w) a ..< min (fw_end w) b}" and ?B = "cov ws \<inter> {a ..< b}"
  have int_nat: "int (nat x) = max 0 x" for x :: int by simp
  have "?A \<inter> ?B = {}" using d by fastforce
  then have "card (?A \<union> ?B) = card ?A + card ?B" by (intro card_Un_disjoint) auto
  moreover have "cov (w # ws) \<inter> {a ..< b} = ?A \<union> ?B" by auto
  ultimately show "int (card (cov (w # ws) \<inter> {a ..< b})) =
      max 0 (min (fw_end w) b - max (fw_start w) a) + int (card ?B)"
    by (simp only: of_nat_add card_atLeastLessThan_int int_nat)
qed

lemma overlap_loop_exact:
  assumes "separated ws" and "fw_start m \<le> fw_end m" and "0 \<le> a" and "0 \<le> b" and "b \<le> a"
    and "a + int (card (cov ws)) < 2 ^ 53"
  shows "overlap_loop m ws a b =
    (a + int (card (cov ws)), b + int (card (cov ws \<inter> {fw_start m ..< fw_end m})))"
  using assms
proof (induction ws arbitrary: a b)
  case Nil
  then show ?case by simp
next
  case (Cons w ws)
  let ?len = "fw_end w - fw_start w" and ?ov = "max 0 (min (fw_end w) (fw_end m) - max (fw_start w) (fw_start m))"
  have sep: "separated ws" "fw_start w < fw_end w" using Cons.prems(1) by (auto simp: separated_Cons)
  note card = card_cov_Cons [OF Cons.prems(1)]
  have bound: "a + ?len + int (card (cov ws)) < 2 ^ 53" using Cons.prems(6) card(1) by simp
  have ov: "0 \<le> ?ov" "?ov \<le> ?len" using sep by auto
  have sub: "time_Sub (fw_end w) (fw_start w) = ?len"
    using bound sep Cons.prems(3) by (intro time_Sub_exact) (simp add: in_int64_def)
  have tot: "wrap64 (a + ?len) = a + ?len"
    using bound sep Cons.prems(3) by (intro wrap64_id) (simp add: in_int64_def)
  have IH: "overlap_loop m ws (a + ?len) (b + ?ov) =
      (a + ?len + int (card (cov ws)), b + ?ov + int (card (cov ws \<inter> {fw_start m ..< fw_end m})))"
    using Cons.IH [OF sep(1) Cons.prems(2)] Cons.prems(3-5) sep ov bound by simp
  have step: "overlap_loop m (w # ws) a b = overlap_loop m ws (a + ?len) (b + ?ov)"
  proof (cases "fw_end m < fw_start w \<or> fw_start m > fw_end w")
    case True
    then have "?ov = 0" by auto
    then show ?thesis using True by (simp add: Let_def sub tot)
  next
    case False
    define s e where "s = max (fw_start w) (fw_start m)" and "e = min (fw_end w) (fw_end m)"
    have o: "?ov = e - s" using False Cons.prems(2) sep by (auto simp: s_def e_def)
    have "time_Sub e s = e - s"
      using ov bound sep Cons.prems(3) unfolding o by (intro time_Sub_exact) (simp add: in_int64_def)
    moreover have "wrap64 (b + (e - s)) = b + (e - s)"
      using ov bound sep Cons.prems(3-5) unfolding o by (intro wrap64_id) (simp add: in_int64_def)
    moreover have "(if fw_start m > fw_start w then fw_start m else fw_start w) = s"
      and "(if fw_end m < fw_end w then fw_end m else fw_end w) = e" by (auto simp: s_def e_def)
    ultimately show ?thesis using False by (simp add: Let_def sub tot o)
  qed
  show ?case unfolding step IH card by simp
qed

lemma overlapFraction_exact:
  assumes "cov ws \<noteq> {}" and "fw_start m \<le> fw_end m" and "int (card (cov ws)) < 2 ^ 53"
  shows "overlapFraction ws m =
      Fin (rnd (of_nat (card (cov ws \<inter> {fw_start m ..< fw_end m})) / of_nat (card (cov ws))))"
    and "card (cov ws \<inter> {fw_start m ..< fw_end m}) \<le> card (cov ws)" and "0 < card (cov ws)"
proof -
  let ?c = "card (cov ws)" and ?o = "card (cov ws \<inter> {fw_start m ..< fw_end m})"
  note M = mergeWindows_correct [of ws]
  show le: "?o \<le> ?c" by (intro card_mono) auto
  show pos: "0 < ?c" using assms(1) by (simp add: card_gt_0_iff)
  have "overlap_loop m (mergeWindows ws) 0 0 = (int ?c, int ?o)"
    using overlap_loop_exact [of "mergeWindows ws" m 0 0] M assms(2,3) by simp
  moreover have "ws \<noteq> []" using assms(1) by auto
  moreover have "fdiv (float_of_int (int ?o)) (float_of_int (int ?c)) = Fin (rnd (of_int (int ?o) / of_int (int ?c)))"
    using le pos assms(3) by (intro fdiv_unit) simp_all
  ultimately show "overlapFraction ws m = Fin (rnd (of_nat ?o / of_nat ?c))"
    using pos by (simp add: overlapFraction_def)
qed

lemma coverage_threshold:
  assumes "cov ws \<noteq> {}" and "fw_start m \<le> fw_end m" and "int (card (cov ws)) < 2 ^ 53"
    and "4 * card (cov ws) \<le> 5 * card (cov ws \<inter> {fw_start m ..< fw_end m})"
  shows "fle maintenanceCoverageThreshold (overlapFraction ws m)"
proof -
  let ?c = "card (cov ws)" and ?o = "card (cov ws \<inter> {fw_start m ..< fw_end m})"
  note E = overlapFraction_exact [OF assms(1-3)]
  have "(4 / 5 :: rat) \<le> of_nat ?o / of_nat ?c"
  proof -
    have "of_nat (4 * ?c) \<le> (of_nat (5 * ?o) :: rat)" using assms(4) by (simp only: of_nat_le_iff)
    then show ?thesis using E(3) by (simp add: field_simps)
  qed
  then have le: "rnd (4 / 5) \<le> rnd (of_nat ?o / of_nat ?c)" by (intro rnd_mono) simp_all
  have thr: "maintenanceCoverageThreshold = Fin (rnd (4 / 5))"
    unfolding maintenanceCoverageThreshold_def by (rule fl_bounded(1) [of _ 1]) simp_all
  show ?thesis using le unfolding thr E(1) by (simp only: fle_simps)
qed

section \<open>What the score means\<close>

definition alert_at :: "MonitorReportRow list \<Rightarrow> failureWindow list \<Rightarrow> (MonitorReportRow \<Rightarrow> bool) \<Rightarrow> bool" where
  "alert_at alerts ws P \<longleftrightarrow> (\<exists>a \<in> set alerts. \<exists>t. mr_ReportedAt a = Some t \<and> P a \<and> (\<exists>w \<in> set ws. containsTime w t))"

lemma alert_at_simps [simp]:
  "\<not> alert_at [] ws P"
  "alert_at (as @ [a]) ws P \<longleftrightarrow> alert_at as ws P \<or>
     (\<exists>t. mr_ReportedAt a = Some t \<and> P a \<and> (\<exists>w \<in> set ws. containsTime w t))"
  by (auto simp: alert_at_def)

definition is_advisory :: "MonitorReportRow \<Rightarrow> bool" where
  "is_advisory a \<longleftrightarrow> mr_NormalizedClassification a = ''tls_advisory''"

lemma find_None: "find P xs = None \<longleftrightarrow> \<not> (\<exists>x \<in> set xs. P x)"
  by (auto simp: find_None_iff)

definition inside :: "failureWindow list \<Rightarrow> instant \<Rightarrow> bool" where
  "inside ws t \<longleftrightarrow> list_ex (\<lambda>w. containsTime w t) ws"

lemma find_inside: "(find (\<lambda>w. containsTime w t) ws = None) = (\<not> inside ws t)"
  by (simp add: inside_def find_None list_ex_iff)

lemma alert_step_None: "mr_ReportedAt a = None \<Longrightarrow> alert_step normal advisory st a = st"
  by (simp add: alert_step_def)

lemma alert_step_Some:
  assumes "mr_ReportedAt a = Some t"
  shows "ty_truePositive (alert_step normal advisory st a) = (ty_truePositive st \<or> inside normal t)"
    and "ty_falseNegative (alert_step normal advisory st a) = (ty_falseNegative st \<and> \<not> inside normal t)"
    and "ty_falsePositive (alert_step normal advisory st a) =
      (ty_falsePositive st \<or> \<not> inside normal t \<and> \<not> inside advisory t)"
    and "ty_tlsDetected (alert_step normal advisory st a) =
      (ty_tlsDetected st \<or> inside advisory t \<and> is_advisory a)"
    and "ty_tlsFalseOutage (alert_step normal advisory st a) =
      (ty_tlsFalseOutage st \<or> inside advisory t \<and> \<not> is_advisory a)"
    and "ty_tlsMissed (alert_step normal advisory st a) = (ty_tlsMissed st \<and> \<not> inside advisory t)"
    and "ty_latency (alert_step normal advisory st a) =
      (case ty_latency st of Some l \<Rightarrow> Some l
       | None \<Rightarrow> map_option (\<lambda>w. Seconds (time_Sub t (fw_start w))) (find (\<lambda>w. containsTime w t) normal))"
proof -
  have f: "find (\<lambda>w. containsTime w t) normal = None \<and> \<not> inside normal t \<or>
      (\<exists>w. find (\<lambda>w. containsTime w t) normal = Some w) \<and> inside normal t"
    using find_inside by (metis option.exhaust)
  note simps = alert_step_def assms Let_def inside_def [symmetric] is_advisory_def
  show "ty_truePositive (alert_step normal advisory st a) = (ty_truePositive st \<or> inside normal t)"
    and "ty_falseNegative (alert_step normal advisory st a) = (ty_falseNegative st \<and> \<not> inside normal t)"
    and "ty_falsePositive (alert_step normal advisory st a) =
      (ty_falsePositive st \<or> \<not> inside normal t \<and> \<not> inside advisory t)"
    and "ty_tlsDetected (alert_step normal advisory st a) =
      (ty_tlsDetected st \<or> inside advisory t \<and> is_advisory a)"
    and "ty_tlsFalseOutage (alert_step normal advisory st a) =
      (ty_tlsFalseOutage st \<or> inside advisory t \<and> \<not> is_advisory a)"
    and "ty_tlsMissed (alert_step normal advisory st a) = (ty_tlsMissed st \<and> \<not> inside advisory t)"
    and "ty_latency (alert_step normal advisory st a) =
      (case ty_latency st of Some l \<Rightarrow> Some l
       | None \<Rightarrow> map_option (\<lambda>w. Seconds (time_Sub t (fw_start w))) (find (\<lambda>w. containsTime w t) normal))"
    using f by (auto simp: simps split: option.split)
qed

lemma score_snoc:
  "score normal advisory (as @ [a]) = alert_step normal advisory (score normal advisory as) a"
  by (simp add: score_def)

lemma score_Nil:
  "score normal advisory [] = \<lparr>ty_truePositive = False, ty_falseNegative = (normal \<noteq> []), ty_falsePositive = False,
      ty_tlsDetected = False, ty_tlsMissed = (advisory \<noteq> []), ty_tlsFalseOutage = False, ty_latency = None\<rparr>"
  by (simp add: score_def)

lemma alert_at_inside:
  "alert_at (as @ [a]) ws P \<longleftrightarrow> alert_at as ws P \<or> (\<exists>t. mr_ReportedAt a = Some t \<and> P a \<and> inside ws t)"
  by (simp add: inside_def list_ex_iff)

definition stray :: "failureWindow list \<Rightarrow> MonitorReportRow list \<Rightarrow> bool" where
  "stray ws alerts \<longleftrightarrow> (\<exists>a \<in> set alerts. \<exists>t. mr_ReportedAt a = Some t \<and> \<not> (\<exists>w \<in> set ws. containsTime w t))"

lemma stray_inside: "stray ws (as @ [a]) \<longleftrightarrow> stray ws as \<or> (\<exists>t. mr_ReportedAt a = Some t \<and> \<not> inside ws t)"
  by (auto simp: stray_def inside_def list_ex_iff)

lemma inside_append: "inside (xs @ ys) t \<longleftrightarrow> inside xs t \<or> inside ys t"
  by (simp add: inside_def)

lemma alert_at_nonempty: "alert_at as ws P \<Longrightarrow> ws \<noteq> []"
  by (auto simp: alert_at_def)

lemma score_fields:
  "ty_truePositive (score normal advisory alerts) \<longleftrightarrow> alert_at alerts normal (\<lambda>_. True)"
  "ty_falseNegative (score normal advisory alerts) \<longleftrightarrow> normal \<noteq> [] \<and> \<not> alert_at alerts normal (\<lambda>_. True)"
  "ty_falsePositive (score normal advisory alerts) \<longleftrightarrow> stray (normal @ advisory) alerts"
  "ty_tlsDetected (score normal advisory alerts) \<longleftrightarrow> alert_at alerts advisory is_advisory"
  "ty_tlsFalseOutage (score normal advisory alerts) \<longleftrightarrow> alert_at alerts advisory (\<lambda>a. \<not> is_advisory a)"
  "ty_tlsMissed (score normal advisory alerts) \<longleftrightarrow> advisory \<noteq> [] \<and> \<not> alert_at alerts advisory (\<lambda>_. True)"
proof -
  have *: "(ty_truePositive (score normal advisory alerts) \<longleftrightarrow> alert_at alerts normal (\<lambda>_. True)) \<and>
    (ty_falseNegative (score normal advisory alerts) \<longleftrightarrow> normal \<noteq> [] \<and> \<not> alert_at alerts normal (\<lambda>_. True)) \<and>
    (ty_falsePositive (score normal advisory alerts) \<longleftrightarrow> stray (normal @ advisory) alerts) \<and>
    (ty_tlsDetected (score normal advisory alerts) \<longleftrightarrow> alert_at alerts advisory is_advisory) \<and>
    (ty_tlsFalseOutage (score normal advisory alerts) \<longleftrightarrow> alert_at alerts advisory (\<lambda>a. \<not> is_advisory a)) \<and>
    (ty_tlsMissed (score normal advisory alerts) \<longleftrightarrow> advisory \<noteq> [] \<and> \<not> alert_at alerts advisory (\<lambda>_. True))"
  proof (induction alerts rule: rev_induct)
    case Nil
    then show ?case by (simp add: score_Nil stray_def)
  next
    case (snoc a as)
    show ?case
    proof (cases "mr_ReportedAt a")
      case None
      then show ?thesis using snoc
        by (simp add: score_snoc alert_step_None alert_at_inside stray_inside del: alert_at_simps)
    next
      case (Some t)
      show ?thesis using snoc
        by (simp add: score_snoc alert_step_Some [OF Some] alert_at_inside stray_inside inside_append Some
            del: alert_at_simps) auto
    qed
  qed
  then show "ty_truePositive (score normal advisory alerts) \<longleftrightarrow> alert_at alerts normal (\<lambda>_. True)"
    "ty_falseNegative (score normal advisory alerts) \<longleftrightarrow> normal \<noteq> [] \<and> \<not> alert_at alerts normal (\<lambda>_. True)"
    "ty_falsePositive (score normal advisory alerts) \<longleftrightarrow> stray (normal @ advisory) alerts"
    "ty_tlsDetected (score normal advisory alerts) \<longleftrightarrow> alert_at alerts advisory is_advisory"
    "ty_tlsFalseOutage (score normal advisory alerts) \<longleftrightarrow> alert_at alerts advisory (\<lambda>a. \<not> is_advisory a)"
    "ty_tlsMissed (score normal advisory alerts) \<longleftrightarrow> advisory \<noteq> [] \<and> \<not> alert_at alerts advisory (\<lambda>_. True)"
    by simp_all
qed

text \<open>The latency is that of the first alert, in the order of the reports, inside some window.\<close>

lemma score_latency:
  "ty_latency (score normal advisory alerts) =
    (case List.map_filter (\<lambda>a. Option.bind (mr_ReportedAt a) (\<lambda>t.
       map_option (\<lambda>w. Seconds (time_Sub t (fw_start w))) (find (\<lambda>w. containsTime w t) normal))) alerts of
       [] \<Rightarrow> None | l # _ \<Rightarrow> Some l)"
proof (induction alerts rule: rev_induct)
  case Nil
  then show ?case by (simp add: score_Nil List.map_filter_simps)
next
  case (snoc a as)
  then show ?case
    by (cases "mr_ReportedAt a")
      (auto simp: score_snoc alert_step_None alert_step_Some List.map_filter_def split: list.splits option.splits)
qed

section \<open>The metrics of a service\<close>

definition metric_value :: "(string \<times> DerivedMetricRow) list \<Rightarrow> string \<Rightarrow> float64 option" where
  "metric_value ms name = Option.bind (map_of ms name) dm_MetricValue"

definition outcomes :: "string list" where
  "outcomes = [''true_positive'', ''false_negative'', ''maintenance_suppressed'', ''cooldown_suppressed'', ''cooldown_uncertain'']"

lemma boolVal_one [simp]: "boolVal b = Some (Fin 1) \<longleftrightarrow> b" "boolVal b = Some (Fin 0) \<longleftrightarrow> \<not> b"
  by (simp_all add: boolVal_def)

definition maint_covers :: "failureWindow list \<Rightarrow> failureWindow option \<Rightarrow> bool" where
  "maint_covers windows maintenance = (case maintenance of None \<Rightarrow> False
     | Some m \<Rightarrow> fle maintenanceCoverageThreshold (overlapFraction windows m))"

lemma computeMetrics_values:
  assumes "\<not> sd_unknown sr" and "splitWindows windows = (normal, advisory)"
  defines "hit \<equiv> alert_at (sd_alerts sr) normal (\<lambda>_. True)"
  defines "missed \<equiv> normal \<noteq> [] \<and> \<not> hit"
  shows "metric_value (computeMetrics sr windows maint) ''true_positive'' = boolVal hit"
    and "metric_value (computeMetrics sr windows maint) ''false_positive'' = boolVal (stray (normal @ advisory) (sd_alerts sr))"
    and "metric_value (computeMetrics sr windows maint) ''maintenance_suppressed'' = boolVal (missed \<and> windows \<noteq> [] \<and> maint_covers windows maint)"
    and "metric_value (computeMetrics sr windows maint) ''cooldown_suppressed'' =
      boolVal (missed \<and> windows \<noteq> [] \<and> \<not> maint_covers windows maint \<and> sd_cooldownSuppressed sr)"
    and "metric_value (computeMetrics sr windows maint) ''cooldown_uncertain'' =
      boolVal (missed \<and> windows \<noteq> [] \<and> \<not> maint_covers windows maint \<and> \<not> sd_cooldownSuppressed sr \<and> sd_cooldownUncertain sr)"
    and "metric_value (computeMetrics sr windows maint) ''false_negative'' =
      boolVal (missed \<and> (windows = [] \<or> \<not> maint_covers windows maint \<and> \<not> sd_cooldownSuppressed sr \<and> \<not> sd_cooldownUncertain sr))"
    and "metric_value (computeMetrics sr windows maint) ''detection_latency_s'' = ty_latency (score normal advisory (sd_alerts sr))"
    and "metric_value (computeMetrics sr windows maint) ''tls_advisory_detected'' = boolVal (alert_at (sd_alerts sr) advisory is_advisory)"
    and "metric_value (computeMetrics sr windows maint) ''tls_advisory_missed'' =
      boolVal (advisory \<noteq> [] \<and> \<not> alert_at (sd_alerts sr) advisory (\<lambda>_. True))"
  using assms(1,2) unfolding hit_def missed_def computeMetrics_def metric_value_def maint_covers_def Let_def
  by (auto simp: score_fields metric_row_def boolVal_def split: option.split)

lemma splitWindows_nonempty: "splitWindows windows = (normal, advisory) \<Longrightarrow> normal \<noteq> [] \<Longrightarrow> windows \<noteq> []"
  by auto

section \<open>The metric store as an interface\<close>

text \<open>
  What the derivation relies on: a stored row replaces the row under its own key only, and the
  raw tables do not change.
\<close>

locale metric_store =
  fixes upsert :: "'s \<Rightarrow> DerivedMetricRow \<Rightarrow> 's"
    and stored :: "'s \<Rightarrow> string \<times> string \<times> string \<Rightarrow> DerivedMetricRow option"
    and norm :: "DerivedMetricRow \<Rightarrow> DerivedMetricRow"
    and raw :: "'s \<Rightarrow> 'r"
  assumes stored_upsert: "stored (upsert s r) k = (if k = metric_key r then Some (norm r) else stored s k)"
    and raw_upsert: "raw (upsert s r) = raw s"
begin

lemma raw_upserts: "raw (foldl upsert s rows) = raw s"
  by (induction rows arbitrary: s) (simp_all add: raw_upsert)

lemma stored_upserts:
  "stored (foldl upsert s rows) k =
    (case map_of (rev (map (\<lambda>r. (metric_key r, norm r)) rows)) k of Some r \<Rightarrow> Some r | None \<Rightarrow> stored s k)"
  by (induction rows rule: rev_induct) (simp_all add: stored_upsert split: option.split)

lemma stored_other: "k \<notin> metric_key ` set rows \<Longrightarrow> stored (foldl upsert s rows) k = stored s k"
  by (induction rows arbitrary: s) (simp_all add: stored_upsert)

lemma stored_hit:
  "k \<in> metric_key ` set rows \<Longrightarrow> stored (foldl upsert s rows) k = stored (foldl upsert s' rows) k"
  by (induction rows rule: rev_induct) (auto simp: stored_upsert)

end

definition stored :: "database \<Rightarrow> string \<times> string \<times> string \<Rightarrow> DerivedMetricRow option" where
  "stored d k = map_of (db_metrics d) k"

definition raw_tables :: "database \<Rightarrow> GroundTruthEvent list \<times> MonitorReportRow list \<times> (string \<times> string \<times> instant) list" where
  "raw_tables d = (db_events d, db_reports d, db_runs d)"

interpretation ms: metric_store UpsertDerivedMetric stored
    "\<lambda>r. r\<lparr>dm_MetricText := metricTextValue (dm_MetricText r)\<rparr>" raw_tables
  by unfold_locales (simp_all add: stored_def UpsertDerivedMetric_def raw_tables_def)

section \<open>Derivations\<close>

definition derive_rows ::
  "instant \<Rightarrow> GroundTruthEvent list \<Rightarrow> MonitorReportRow list \<Rightarrow> string \<Rightarrow> DerivedMetricRow list" where
  "derive_rows now events reports runID =
    (let st = foldl window_step window_init events
     in concat (map (service_rows runID now (ws_windows st) (ws_maintenance st)) (group_reports reports)))"

lemma Derive_raw:
  assumes "raw_tables d = raw_tables d'"
  shows "GroundTruthEventsForRun d r = GroundTruthEventsForRun d' r"
    and "MonitorReportsForRun d r = MonitorReportsForRun d' r"
    and "RunIDsForCampaign d c = RunIDsForCampaign d' c"
  using assms by (simp_all add: raw_tables_def GroundTruthEventsForRun_def MonitorReportsForRun_def RunIDsForCampaign_def)

lemma Derive_cases:
  obtains (fail) e where "\<And>d'. raw_tables d' = raw_tables d \<Longrightarrow> Derive now d' r = (Inl e, d')"
  | (ok) rows where "\<And>d'. raw_tables d' = raw_tables d \<Longrightarrow> Derive now d' r = (Inr (), foldl UpsertDerivedMetric d' rows)"
      and "metric_key ` set rows \<subseteq> {r} \<times> UNIV"
proof (cases "\<exists>ev rp. GroundTruthEventsForRun d r = Inr ev \<and> MonitorReportsForRun d r = Inr rp")
  case True
  then obtain ev rp where q: "GroundTruthEventsForRun d r = Inr ev" "MonitorReportsForRun d r = Inr rp" by blast
  have "Derive now d' r = (Inr (), foldl UpsertDerivedMetric d' (derive_rows now ev rp r))"
    if "raw_tables d' = raw_tables d" for d'
    using q unfolding Derive_def Derive_raw [OF that] by (simp add: derive_rows_def Let_def)
  moreover have "metric_key ` set (derive_rows now ev rp r) \<subseteq> {r} \<times> UNIV"
    by (auto simp: derive_rows_def Let_def service_rows_def metric_key_def)
  ultimately show thesis by (rule ok)
next
  case False
  show thesis
  proof (cases "GroundTruthEventsForRun d r")
    case (Inl e)
    have "Derive now d' r = (Inl (''measurement: load events: '' @ e), d')" if "raw_tables d' = raw_tables d" for d'
      using Inl unfolding Derive_def Derive_raw [OF that] by simp
    then show thesis by (rule fail)
  next
    case (Inr ev)
    with False obtain e where "MonitorReportsForRun d r = Inl e" by (cases "MonitorReportsForRun d r") auto
    then have "Derive now d' r = (Inl (''measurement: load reports: '' @ e), d')" if "raw_tables d' = raw_tables d" for d'
      using Inr unfolding Derive_def Derive_raw [OF that] by simp
    then show thesis by (rule fail)
  qed
qed

lemma Derive_keeps_raw: "raw_tables (snd (Derive now d r)) = raw_tables d"
  by (rule Derive_cases [of d now r]) (simp_all add: ms.raw_upserts)

lemma Derive_other: "fst k \<noteq> r \<Longrightarrow> stored (snd (Derive now d r)) k = stored d k"
  by (rule Derive_cases [of d now r]) (force intro: ms.stored_other)+

lemma Derive_again:
  assumes "raw_tables d' = raw_tables d"
    and "stored d' k = stored d k \<or> stored d' k = stored (snd (Derive now d r)) k"
  shows "stored (snd (Derive now d' r)) k = stored (snd (Derive now d r)) k \<and>
    fst (Derive now d' r) = fst (Derive now d r)"
proof (rule Derive_cases [of d now r])
  fix e assume "\<And>d'. raw_tables d' = raw_tables d \<Longrightarrow> Derive now d' r = (Inl e, d')"
  then show ?thesis using assms by auto
next
  fix rows assume D: "\<And>d'. raw_tables d' = raw_tables d \<Longrightarrow> Derive now d' r = (Inr (), foldl UpsertDerivedMetric d' rows)"
  then show ?thesis
    using assms by (cases "k \<in> metric_key ` set rows") (auto simp: ms.stored_other intro: ms.stored_hit)
qed

lemma derive_runs_correct:
  "stored (snd (derive_runs now d rs)) k =
     (if fst k \<in> set rs then stored (snd (Derive now d (fst k))) k else stored d k) \<and>
   length (fst (derive_runs now d rs)) = length (filter (\<lambda>r. isl (fst (Derive now d r))) rs) \<and>
   raw_tables (snd (derive_runs now d rs)) = raw_tables d"
proof (induction rs arbitrary: d)
  case Nil
  then show ?case by simp
next
  case (Cons r rs)
  obtain res d1 where D: "Derive now d r = (res, d1)" by (cases "Derive now d r")
  obtain errs d2 where R: "derive_runs now d1 rs = (errs, d2)" by (cases "derive_runs now d1 rs")
  have raw: "raw_tables d1 = raw_tables d" using Derive_keeps_raw [of now d r] D by simp
  have st: "stored d1 k = stored d k \<or> stored d1 k = stored (snd (Derive now d (fst k))) k"
    using Derive_other [of k r now d] D by (cases "fst k = r") auto
  have res: "fst (Derive now d1 x) = fst (Derive now d x)" for x
    by (rule Derive_cases [of d now x]) (use raw in auto)
  have "stored d2 k = (if fst k \<in> set rs then stored (snd (Derive now d1 (fst k))) k else stored d1 k)"
    using Cons.IH [of d1] R by simp
  then have "stored d2 k = (if fst k \<in> set (r # rs) then stored (snd (Derive now d (fst k))) k else stored d k)"
    using Derive_again [OF raw st] Derive_other [of k r now d] D by auto
  moreover have "length errs = length (filter (\<lambda>r. isl (fst (Derive now d r))) rs)" "raw_tables d2 = raw_tables d"
    using Cons.IH [of d1] R raw by (simp_all add: res)
  ultimately show ?case by (cases res) (simp_all add: D R)
qed

lemma metric_keys_now:
  "map metric_key (derive_rows now events reports r) = map metric_key (derive_rows now' events reports r)"
  by (simp add: derive_rows_def Let_def map_concat o_def service_rows_def metric_key_def split_def)

lemma derive_rows_now:
  "derive_rows now' ev rp r = map (dm_ComputedAt_update (\<lambda>_. now')) (derive_rows now ev rp r)"
  by (simp add: derive_rows_def Let_def map_concat o_def service_rows_def [abs_def] split_def)

lemma upserts_now:
  "map_option (dm_ComputedAt_update (\<lambda>_. 0)) (stored s k) = map_option (dm_ComputedAt_update (\<lambda>_. 0)) (stored s' k) \<Longrightarrow>
   map_option (dm_ComputedAt_update (\<lambda>_. 0))
     (stored (foldl UpsertDerivedMetric s (map (dm_ComputedAt_update (\<lambda>_. t)) rows)) k) =
   map_option (dm_ComputedAt_update (\<lambda>_. 0)) (stored (foldl UpsertDerivedMetric s' rows) k)"
  by (induction rows rule: rev_induct) (auto simp: ms.stored_upsert metric_key_def)

lemma derive_same_rows:
  assumes "k \<in> metric_key ` set (derive_rows now ev rp r)"
  shows "map_option (dm_ComputedAt_update (\<lambda>_. 0)) (stored (foldl UpsertDerivedMetric d' (derive_rows now' ev rp r)) k) =
    map_option (dm_ComputedAt_update (\<lambda>_. 0)) (stored (foldl UpsertDerivedMetric d (derive_rows now ev rp r)) k)"
  using upserts_now [OF refl, where s = d' and t = now' and rows = "derive_rows now ev rp r"] ms.stored_hit [OF assms, of d' d]
  by (simp add: derive_rows_now [of now' ev rp r now])

text \<open>Rows of a service are only ever replaced, never removed.\<close>

lemma unknown_keeps_stale_rows:
  assumes "k \<notin> metric_key ` set (derive_rows now ev rp r)"
    and "GroundTruthEventsForRun d r = Inr ev" and "MonitorReportsForRun d r = Inr rp"
  shows "stored (snd (Derive now d r)) k = stored d k"
  using assms by (simp add: Derive_def derive_rows_def Let_def ms.stored_other)

text \<open>
  Windows are listed in the order in which they end, so of two nested failures the latency is
  measured from the start of the inner one, not from the earliest active failure.
\<close>

definition demo_event :: "string \<Rightarrow> string \<Rightarrow> instant \<Rightarrow> GroundTruthEvent" where
  "demo_event ty f t = \<lparr>ge_RunID = ''r'', ge_EventType = ty, ge_TargetID = ''t'', ge_FailureType = f,
     ge_OccurredAt = t, ge_Details = Null\<rparr>"

lemma latency_of_inner_window:
  "map_option fw_start (find (\<lambda>w. containsTime w 45) (ws_windows (foldl window_step window_init
     [demo_event ''failure_start'' ''dns_servfail'' 1, demo_event ''failure_start'' ''http_5xx'' 30,
      demo_event ''failure_end'' ''http_5xx'' 60, demo_event ''failure_end'' ''dns_servfail'' 100]))) = Some 30"
  by code_simp

section \<open>Properties\<close>

text \<open>
  C4. Every outcome is counted once: for a service whose state was retrieved and a run with a
  visitor-visible failure, exactly one of true positive, false negative, maintenance
  suppressed, cooldown suppressed and cooldown uncertain is 1, whatever the alerts,
  metadata and windows; it is the true positive exactly when some alert lies in a
  visitor-visible failure window, and a false positive is reported exactly when some alert
  lies in no window at all.
\<close>

theorem exactly_one_outcome:
  assumes "\<not> sd_unknown sr" and "splitWindows windows = (normal, advisory)" and "normal \<noteq> []"
  shows "length (filter (\<lambda>n. metric_value (computeMetrics sr windows maint) n = Some (Fin 1)) outcomes) = 1 \<and>
    (metric_value (computeMetrics sr windows maint) ''true_positive'' = Some (Fin 1) \<longleftrightarrow>
      alert_at (sd_alerts sr) normal (\<lambda>_. True)) \<and>
    (metric_value (computeMetrics sr windows maint) ''false_positive'' = Some (Fin 1) \<longleftrightarrow>
      stray (normal @ advisory) (sd_alerts sr))"
proof -
  have "windows \<noteq> []" using assms(2,3) by (rule splitWindows_nonempty)
  then show ?thesis
    by (cases "alert_at (sd_alerts sr) normal (\<lambda>_. True)"; cases "maint_covers windows maint";
        cases "sd_cooldownSuppressed sr"; cases "sd_cooldownUncertain sr")
      (simp_all add: outcomes_def computeMetrics_values [OF assms(1,2)] assms(3))
qed

definition demo_window :: "instant \<Rightarrow> instant \<Rightarrow> failureWindow" where
  "demo_window a b = \<lparr>fw_kind = ''http_5xx'', fw_start = a, fw_end = b, fw_details = []\<rparr>"

theorem exactly_one_outcome_witness:
  "length (filter (\<lambda>n. metric_value (computeMetrics serviceData_empty [demo_window 10 90] None) n = Some (Fin 1)) outcomes) = 1"
  using exactly_one_outcome [where sr = serviceData_empty and windows = "[demo_window 10 90]"
      and normal = "[demo_window 10 90]" and advisory = "[]" and maint = None]
  by (simp add: serviceData_empty_def demo_window_def isTLSAdvisoryFailure_def isHealthyGETMethodTrap_def
      failureHTTPMethodStatus_def)

text \<open>
  C30. Maintenance is measured on instants: the coverage is the correctly rounded fraction of the
  instants of the union of the failure windows (which may overlap, nest or repeat) that lie
  in the maintenance window, and when the exact fraction is at least 80% a missed failure
  is classified as suppressed by maintenance, never as a false negative. The union must be
  shorter than 104 days, so that durations and their quotient are exact.
\<close>

theorem maintenance_coverage:
  assumes "cov windows \<noteq> {}" and "fw_start m \<le> fw_end m" and "int (card (cov windows)) < 2 ^ 53"
    and "4 * card (cov windows) \<le> 5 * card (cov windows \<inter> {fw_start m ..< fw_end m})"
    and "\<not> sd_unknown sr" and "splitWindows windows = (normal, advisory)" and "normal \<noteq> []"
    and "\<not> alert_at (sd_alerts sr) normal (\<lambda>_. True)"
  shows "overlapFraction windows m =
      Fin (rnd (of_nat (card (cov windows \<inter> {fw_start m ..< fw_end m})) / of_nat (card (cov windows)))) \<and>
    metric_value (computeMetrics sr windows (Some m)) ''maintenance_suppressed'' = Some (Fin 1) \<and>
    metric_value (computeMetrics sr windows (Some m)) ''false_negative'' = Some (Fin 0)"
proof -
  have "windows \<noteq> []" using assms(6,7) by (rule splitWindows_nonempty)
  moreover have "maint_covers windows (Some m)"
    using coverage_threshold [OF assms(1-4)] by (simp add: maint_covers_def)
  ultimately show ?thesis
    using overlapFraction_exact(1) [OF assms(1-3)] assms(7,8)
    by (simp add: computeMetrics_values [OF assms(5,6)])
qed

theorem maintenance_coverage_witness:
  "metric_value (computeMetrics serviceData_empty [demo_window 0 6, demo_window 4 10] (Some (demo_window 2 30)))
     ''maintenance_suppressed'' = Some (Fin 1)"
proof -
  have c: "cov [demo_window 0 6, demo_window 4 10] = {0 ..< 10}" by (auto simp: demo_window_def)
  have "cov [demo_window 0 6, demo_window 4 10] \<inter> {2 ..< 30} = {2 ..< 10}" unfolding c by auto
  then show ?thesis
    using maintenance_coverage [where windows = "[demo_window 0 6, demo_window 4 10]" and m = "demo_window 2 30"
        and sr = serviceData_empty and normal = "[demo_window 0 6, demo_window 4 10]" and advisory = "[]"]
    unfolding c by (simp add: serviceData_empty_def demo_window_def isTLSAdvisoryFailure_def
      isHealthyGETMethodTrap_def failureHTTPMethodStatus_def alert_at_def)
qed

text \<open>
  C31. Detection latency: it is present exactly when there is a true positive, is never negative,
  and is the time from the start of a failure window to an alert inside that window: the
  first such alert in report order, against the first window containing it in the order in
  which the windows ended.
\<close>

theorem detection_latency:
  assumes "\<not> sd_unknown sr" and "splitWindows windows = (normal, advisory)"
  shows "(metric_value (computeMetrics sr windows maint) ''detection_latency_s'' \<noteq> None \<longleftrightarrow>
      alert_at (sd_alerts sr) normal (\<lambda>_. True)) \<and>
    (\<forall>v. metric_value (computeMetrics sr windows maint) ''detection_latency_s'' = Some v \<longrightarrow>
      fle (Fin 0) v \<and>
      (\<exists>a \<in> set (sd_alerts sr). \<exists>t w. mr_ReportedAt a = Some t \<and> find (\<lambda>w. containsTime w t) normal = Some w \<and>
         v = Seconds (time_Sub t (fw_start w))))"
proof -
  let ?f = "\<lambda>a. Option.bind (mr_ReportedAt a) (\<lambda>t.
       map_option (\<lambda>w. Seconds (time_Sub t (fw_start w))) (find (\<lambda>w. containsTime w t) normal))"
  have l: "metric_value (computeMetrics sr windows maint) ''detection_latency_s'' =
      (case List.map_filter ?f (sd_alerts sr) of [] \<Rightarrow> None | l # _ \<Rightarrow> Some l)"
    unfolding computeMetrics_values(7) [OF assms] score_latency ..
  have mem: "v \<in> set (List.map_filter ?f (sd_alerts sr)) \<longleftrightarrow> (\<exists>a \<in> set (sd_alerts sr). \<exists>t w. mr_ReportedAt a = Some t \<and>
      find (\<lambda>w. containsTime w t) normal = Some w \<and> v = Seconds (time_Sub t (fw_start w)))" for v
    by (auto simp: in_map_filter bind_eq_Some_conv)
  have nn: "fle (Fin 0) (Seconds (time_Sub t (fw_start w)))" if "find (\<lambda>w. containsTime w t) normal = Some w" for t w
  proof -
    have "containsTime w t" using that by (auto simp: find_Some_iff)
    then have "0 \<le> time_Sub t (fw_start w)" by (simp add: containsTime_def time_Sub_def saturate64_def)
    then show ?thesis by (rule Seconds_nonneg)
  qed
  have "List.map_filter ?f (sd_alerts sr) \<noteq> [] \<longleftrightarrow> (\<exists>v. v \<in> set (List.map_filter ?f (sd_alerts sr)))"
    by (cases "List.map_filter ?f (sd_alerts sr)") auto
  also have "\<dots> \<longleftrightarrow> alert_at (sd_alerts sr) normal (\<lambda>_. True)"
    unfolding mem alert_at_def using find_None [of "\<lambda>w. containsTime w t" normal for t]
    by (metis (no_types, lifting) not_Some_eq)
  finally have present: "List.map_filter ?f (sd_alerts sr) \<noteq> [] \<longleftrightarrow> alert_at (sd_alerts sr) normal (\<lambda>_. True)" .
  show ?thesis
  proof (cases "List.map_filter ?f (sd_alerts sr)")
    case Nil
    then show ?thesis using present unfolding l by simp
  next
    case (Cons x xs)
    then have "x \<in> set (List.map_filter ?f (sd_alerts sr))" by simp
    then have "\<exists>a \<in> set (sd_alerts sr). \<exists>t w. mr_ReportedAt a = Some t \<and>
      find (\<lambda>w. containsTime w t) normal = Some w \<and> x = Seconds (time_Sub t (fw_start w))" by (simp only: mem)
    moreover from this have "fle (Fin 0) x" using nn by blast
    ultimately show ?thesis using present Cons unfolding l by simp
  qed
qed

definition demo_alert :: "instant \<Rightarrow> MonitorReportRow" where
  "demo_alert t = \<lparr>mr_RunID = ''r'', mr_ServiceID = ''s'', mr_RetrieveStatus = ''known'', mr_RetrieveUnknownReason = [],
     mr_ReasonCode = [], mr_EventType = ''alert_fired'', mr_RawClassification = [],
     mr_NormalizedClassification = ''http_failure'', mr_ReportedAt = Some t, mr_RetrievedAt = t, mr_Metadata = Null\<rparr>"

theorem detection_latency_witness:
  "\<exists>v. metric_value (computeMetrics (serviceData_empty\<lparr>sd_alerts := [demo_alert 50]\<rparr>) [demo_window 10 90] None)
       ''detection_latency_s'' = Some v \<and> fle (Fin 0) v"
proof -
  have a: "alert_at [demo_alert 50] [demo_window 10 90] (\<lambda>_. True)"
    by (simp add: alert_at_def demo_alert_def demo_window_def containsTime_def effectiveFailureEnd_def
        failureHTTPTimeout_def failureHTTPLatency_def)
  show ?thesis
    using detection_latency [where sr = "serviceData_empty\<lparr>sd_alerts := [demo_alert 50]\<rparr>" and windows = "[demo_window 10 90]"
        and normal = "[demo_window 10 90]" and advisory = "[]" and maint = None] a
    by (simp add: serviceData_empty_def) (auto simp: demo_window_def isTLSAdvisoryFailure_def isHealthyGETMethodTrap_def
      failureHTTPMethodStatus_def)
qed

text \<open>
  Derivation is repeatable: deriving the same run a second time, at any later time, succeeds
  when the first succeeded, stores the same rows but for the time of computation, and never
  touches the raw tables or the metrics of another run.
\<close>

theorem derive_repeatable:
  assumes "Derive now d r = (Inr (), d1)" and "Derive now' d1 r = (res, d2)"
  shows "res = Inr () \<and> raw_tables d2 = raw_tables d \<and>
    (\<forall>k. map_option (dm_ComputedAt_update (\<lambda>_. 0)) (stored d2 k) =
         map_option (dm_ComputedAt_update (\<lambda>_. 0)) (stored d1 k) \<and>
         (fst k \<noteq> r \<longrightarrow> stored d2 k = stored d k))"
proof -
  have raw: "raw_tables d1 = raw_tables d" using Derive_keeps_raw [of now d r] assms(1) by simp
  obtain ev rp where q: "GroundTruthEventsForRun d r = Inr ev" "MonitorReportsForRun d r = Inr rp"
    and d1: "d1 = foldl UpsertDerivedMetric d (derive_rows now ev rp r)"
    using assms(1) by (auto simp: Derive_def derive_rows_def Let_def split: sum.splits)
  have "Derive now' d1 r = (Inr (), foldl UpsertDerivedMetric d1 (derive_rows now' ev rp r))"
    using q unfolding Derive_def Derive_raw [OF raw] by (simp add: derive_rows_def Let_def)
  then have res: "res = Inr ()" and d2: "d2 = foldl UpsertDerivedMetric d1 (derive_rows now' ev rp r)"
    using assms(2) by simp_all
  have "raw_tables d2 = raw_tables d" using raw by (simp add: d2 ms.raw_upserts)
  moreover have "map_option (dm_ComputedAt_update (\<lambda>_. 0)) (stored d2 k) =
      map_option (dm_ComputedAt_update (\<lambda>_. 0)) (stored d1 k)" for k
  proof (cases "k \<in> metric_key ` set (derive_rows now ev rp r)")
    case True
    then show ?thesis unfolding d1 d2 by (rule derive_same_rows)
  next
    case False
    then have "k \<notin> metric_key ` set (derive_rows now' ev rp r)"
      using metric_keys_now [of now ev rp r now'] by (metis image_set)
    then show ?thesis by (simp add: d2 ms.stored_other)
  qed
  moreover have "stored d2 k = stored d k" if "fst k \<noteq> r" for k
    using Derive_other [OF that, of now d] Derive_other [OF that, of now' d1] assms by simp
  ultimately show ?thesis using res by blast
qed

definition demo_db :: database where
  "demo_db = \<lparr>db_events = [demo_event ''failure_start'' ''http_5xx'' 10, demo_event ''failure_end'' ''http_5xx'' 90],
     db_reports = [demo_alert 50], db_runs = [(''r'', ''c'', 1)], db_metrics = []\<rparr>"

theorem derive_repeatable_witness:
  "\<exists>d1 d2. Derive 100 demo_db ''r'' = (Inr (), d1) \<and> Derive 200 d1 ''r'' = (Inr (), d2) \<and>
     raw_tables d2 = raw_tables demo_db"
proof -
  obtain ev rp where "GroundTruthEventsForRun demo_db ''r'' = Inr ev" "MonitorReportsForRun demo_db ''r'' = Inr rp"
    by (simp add: GroundTruthEventsForRun_def MonitorReportsForRun_def demo_db_def demo_event_def demo_alert_def)
  then obtain d1 where d1: "Derive 100 demo_db ''r'' = (Inr (), d1)" by (simp add: Derive_def Let_def)
  obtain res d2 where d2: "Derive 200 d1 ''r'' = (res, d2)" by (cases "Derive 200 d1 ''r''")
  show ?thesis using derive_repeatable [OF d1 d2] d1 d2 by auto
qed

text \<open>
  C32. A campaign derives every run on its own: after deriving a campaign the metrics of each of
  its runs are those a derivation of that run alone would have stored, the rows of all other
  runs are untouched, and one error is reported for exactly each run whose rows could not be
  read, so a broken run never holds up the runs after it.
\<close>

theorem campaign_independent:
  "stored (snd (DeriveCampaign now d c)) k =
     (if fst k \<in> set (RunIDsForCampaign d c) then stored (snd (Derive now d (fst k))) k else stored d k) \<and>
   length (fst (DeriveCampaign now d c)) =
     length (filter (\<lambda>r. isl (fst (Derive now d r))) (RunIDsForCampaign d c)) \<and>
   raw_tables (snd (DeriveCampaign now d c)) = raw_tables d"
  unfolding DeriveCampaign_def by (rule derive_runs_correct)

end
