(* ===== verification/Scenario.thy ===== *)
theory Scenario
  imports GoTime
begin

text \<open>
  Scenario files: \<open>src/internal/scenario/scenario.go\<close>. The raw records are what the TOML decoder
  fills (decoding itself is the library's work); \<open>validate\<close> and its helpers turn them into a
  scenario or the first error, with the defaults they apply. Error messages are kept without
  the formatted values. A \<open>map[string]string\<close> is the list of its entries in the order in which
  Go visits them; nil and empty are the same.
\<close>

section \<open>Raw records\<close>

record rawFailure =
  rf_Type :: string
  rf_Rate :: float64
  rf_Offset :: string
  rf_Duration :: string
  rf_StatusCode :: int
  rf_HeaderName :: string
  rf_HeaderValue :: string
  rf_Method :: string
  rf_Phase :: string
  rf_Delay :: string
  rf_TruncateAfterBytes :: "int option"
  rf_Variant :: string
  rf_ChainLength :: int
  rf_Content :: string
  rf_AddedLatency :: string
  rf_Mode :: string
  rf_DaysExpired :: int
  rf_DaysRemaining :: int
  rf_Reason :: string
  rf_Regions :: "string list"

record rawMaintenance =
  rm_StartOffset :: string
  rm_Duration :: string

record raw =
  raw_ID :: string
  raw_Version :: string
  raw_Description :: string
  raw_Target :: string
  raw_Monitors :: "string list"
  raw_MonitorKind :: string
  raw_FreshHostname :: bool
  raw_CheckFrequency :: string
  raw_GracePeriod :: string
  raw_Duration :: string
  raw_Seed :: "int option"
  raw_Keyword :: string
  raw_KeywordCheck :: string
  raw_ResponseTimeThreshold :: string
  raw_RequestHeaders :: "(string \<times> string) list"
  raw_Maintenance :: "rawMaintenance option"
  raw_Failures :: "rawFailure list"

section \<open>Validated records\<close>

record Failure =
  f_Type :: string
  f_Rate :: float64
  f_Offset :: duration
  f_Duration :: duration
  f_StatusCode :: int
  f_HeaderName :: string
  f_HeaderValue :: string
  f_Method :: string
  f_Phase :: string
  f_Delay :: duration
  f_TruncateAfterBytes :: "int option"
  f_Variant :: string
  f_ChainLength :: int
  f_Content :: string
  f_AddedLatency :: duration
  f_Mode :: string
  f_DaysExpired :: int
  f_DaysRemaining :: int
  f_Reason :: string
  f_Regions :: "string list"

record Maintenance =
  mt_StartOffset :: duration
  mt_Duration :: duration

record Scenario =
  sc_ID :: string
  sc_Version :: string
  sc_Description :: string
  sc_Target :: string
  sc_Monitors :: "string list"
  sc_MonitorKind :: string
  sc_FreshHostname :: bool
  sc_CheckFrequency :: duration
  sc_GracePeriod :: duration
  sc_Duration :: duration
  sc_Seed :: "int option"
  sc_Failures :: "Failure list"
  sc_Keyword :: string
  sc_KeywordCheck :: string
  sc_ResponseTimeThreshold :: duration
  sc_RequestHeaders :: "(string \<times> string) list"
  sc_Maintenance :: "Maintenance option"

section \<open>Validation\<close>

definition parseDuration :: "string \<Rightarrow> string \<Rightarrow> bool \<Rightarrow> duration result" where
  "parseDuration field s required =
    (if s = [] then (if required then Inl (''scenario: '' @ field @ '' is required'') else Inr 0)
     else case ParseDuration s of
       None \<Rightarrow> Inl (''scenario: '' @ field @ '': invalid duration'')
     | Some d \<Rightarrow> Inr d)"

definition validateMonitorKind :: "string \<Rightarrow> string result" where
  "validateMonitorKind kind0 =
    (let kind = TrimSpace kind0 in
     if kind = [] then Inr ''http''
     else if kind \<in> {''http'', ''dns'', ''tcp'', ''ssl_certificate'', ''heartbeat''} then Inr kind
     else Inl ''scenario: monitor_kind must be one of: http, dns, tcp, ssl_certificate, heartbeat'')"

definition normalizeRequestHeaders :: "(string \<times> string) list \<Rightarrow> (string \<times> string) list" where
  "normalizeRequestHeaders hs =
     foldl (\<lambda>m (k0, v). let k = TrimSpace k0 in if k = [] then m else AList.update k v m) [] hs"

definition validateMaintenance :: "rawMaintenance \<Rightarrow> Maintenance result" where
  "validateMaintenance rm =
    rbind (parseDuration ''maintenance.start_offset'' (rm_StartOffset rm) False) (\<lambda>startOffset.
      if startOffset < 0 then Inl ''scenario: maintenance.start_offset must be non-negative''
      else rbind (parseDuration ''maintenance.duration'' (rm_Duration rm) True) (\<lambda>dur.
        if dur \<le> 0 then Inl ''scenario: maintenance.duration must be positive''
        else Inr \<lparr>mt_StartOffset = startOffset, mt_Duration = dur\<rparr>))"

definition CanaryKeyword :: string where "CanaryKeyword = ''uptime-bench-canary''"

definition has_content :: "Failure list \<Rightarrow> bool" where
  "has_content fs = list_ex (\<lambda>f. f_Type f = ''http_body'') fs"

definition has_injected :: "Failure list \<Rightarrow> bool" where
  "has_injected fs = list_ex (\<lambda>f. f_Type f = ''http_body'' \<and> f_Content f = ''keyword_injected'') fs"

definition check_ok :: "string \<Rightarrow> bool" where
  "check_ok c \<longleftrightarrow> c = ''present'' \<or> c = ''absent''"

definition applyKeywordDefaults :: "Scenario \<Rightarrow> Scenario result" where
  "applyKeywordDefaults s =
    (if \<not> has_content (sc_Failures s) then
       (if sc_KeywordCheck s \<noteq> [] \<and> \<not> check_ok (sc_KeywordCheck s)
        then Inl ''scenario: keyword_check must be one of: present, absent'' else Inr s)
     else if sc_Keyword s = [] \<and> has_injected (sc_Failures s)
     then Inl ''scenario: keyword is required at scenario level when any failure is content = keyword_injected''
     else
       let s1 = (if sc_Keyword s = [] then s\<lparr>sc_Keyword := CanaryKeyword\<rparr> else s);
           s2 = (if sc_KeywordCheck s1 = []
                 then s1\<lparr>sc_KeywordCheck := (if has_injected (sc_Failures s1) then ''absent'' else ''present'')\<rparr>
                 else s1)
       in if \<not> check_ok (sc_KeywordCheck s2)
          then Inl ''scenario: keyword_check must be one of: present, absent'' else Inr s2)"

definition validateMethod :: "string \<Rightarrow> bool \<Rightarrow> unit result" where
  "validateMethod method required =
    (if method = [] then (if required then Inl ''method must be one of: GET, HEAD'' else Inr ())
     else if method = ''GET'' \<or> method = ''HEAD'' then Inr ()
     else Inl ''method must be one of: GET, HEAD'')"

abbreviation status_ok :: "int \<Rightarrow> bool" where
  "status_ok c \<equiv> \<not> (c < 100 \<or> c > 599)"

abbreviation default :: "string \<Rightarrow> string \<Rightarrow> string" where
  "default v d \<equiv> (if v = [] then d else v)"

definition content_values :: "string list" where
  "content_values = [''empty'', ''error_page'', ''keyword_missing'', ''keyword_injected'',
     ''ransomware'', ''defacement'', ''malicious_script'', ''spam_links'']"

definition validateFailureType :: "Failure \<Rightarrow> Failure result" where
  "validateFailureType f =
    (let t = f_Type f in
     if t = ''http_status'' then
       (if \<not> status_ok (f_StatusCode f) then Inl ''status_code must be a valid HTTP status code'' else Inr f)
     else if t = ''http_method_status'' then
       (if \<not> status_ok (f_StatusCode f) then Inl ''status_code must be a valid HTTP status code''
        else rbind (validateMethod (f_Method f) True) (\<lambda>_.
          if f_Regions f \<noteq> [] then Inl ''regions are not supported for http_method_status'' else Inr f))
     else if t = ''http_timeout'' then
       rbind (validateMethod (f_Method f) False) (\<lambda>_.
         if f_Phase f = [] then Inl ''phase is required for http_timeout''
         else if f_Phase f \<notin> {''ttfb'', ''body'', ''total''} then Inl ''phase must be one of: ttfb, body, total''
         else if f_Delay f = 0 then Inl ''delay is required for http_timeout'' else Inr f)
     else if t = ''http_latency'' then
       rbind (validateMethod (f_Method f) False) (\<lambda>_.
         if f_Delay f = 0 then Inl ''delay is required for http_latency'' else Inr f)
     else if t = ''http_header_status'' then
       (if \<not> status_ok (f_StatusCode f) then Inl ''status_code must be a valid HTTP status code''
        else if f_HeaderName f = [] then Inl ''header_name is required for http_header_status'' else Inr f)
     else if t = ''http_partial'' then rbind (validateMethod (f_Method f) False) (\<lambda>_. Inr f)
     else if t = ''http_redirect'' then
       rbind (validateMethod (f_Method f) False) (\<lambda>_.
         if f_Variant f = [] then Inl ''variant is required for http_redirect''
         else if f_Variant f \<notin> {''loop'', ''chain''} then Inl ''variant must be one of: loop, chain''
         else if f_Variant f = ''chain'' \<and> f_ChainLength f = 0 then Inr (f\<lparr>f_ChainLength := 15\<rparr>)
         else Inr f)
     else if t = ''http_body'' then
       rbind (validateMethod (f_Method f) False) (\<lambda>_.
         if f_Content f = [] then Inl ''content is required for http_body''
         else if f_Content f \<notin> set content_values
         then Inl ''content must be one of: empty, error_page, ...'' else Inr f)
     else if t \<in> {''tcp_refused'', ''tcp_timeout''} then Inr f
     else if t \<in> {''dns_nxdomain'', ''dns_servfail'', ''dns_timeout'', ''dns_cname_nxdomain''} then Inr f
     else if t = ''dns_latency'' then
       (if f_AddedLatency f = 0 then Inl ''added_latency is required for dns_latency'' else Inr f)
     else if t = ''dns_ns_unavailable'' then
       (let f = f\<lparr>f_Mode := default (f_Mode f) ''silent''\<rparr> in
        if f_Mode f \<notin> {''silent'', ''servfail''} then Inl ''mode must be one of: silent, servfail'' else Inr f)
     else if t = ''tls_expired'' then
       Inr (if f_DaysExpired f = 0 then f\<lparr>f_DaysExpired := 1\<rparr> else f)
     else if t = ''tls_expiring'' then
       (if f_DaysRemaining f \<le> 0 then Inl ''days_remaining must be a positive integer'' else Inr f)
     else if t = ''tls_invalid'' then
       (let f = f\<lparr>f_Variant := default (f_Variant f) ''self_signed''\<rparr> in
        if f_Variant f \<notin> {''self_signed'', ''hostname_mismatch''}
        then Inl ''variant must be one of: self_signed, hostname_mismatch'' else Inr f)
     else if t = ''tls_handshake'' then
       (let f = f\<lparr>f_Reason := default (f_Reason f) ''version_mismatch''\<rparr> in
        if f_Reason f \<notin> {''version_mismatch'', ''no_common_cipher''}
        then Inl ''reason must be one of: version_mismatch, no_common_cipher'' else Inr f)
     else if t = ''tls_deprecated'' then
       (let f = f\<lparr>f_Variant := default (f_Variant f) ''TLS11''\<rparr> in
        if f_Variant f \<notin> {''TLS10'', ''TLS11''} then Inl ''variant must be one of: TLS10, TLS11'' else Inr f)
     else Inl ''unknown failure type'')"

definition validateFailure :: "rawFailure \<Rightarrow> Failure result" where
  "validateFailure rf =
    (if rf_Type rf = [] then Inl ''type is required''
     else
       let rate = (if feq (rf_Rate rf) (Fin 0) then Fin 1 else rf_Rate rf) in
       if fle rate (Fin 0) \<or> flt (Fin 1) rate then Inl ''rate must be in (0.0, 1.0]''
       else rbind (parseDuration ''offset'' (rf_Offset rf) False) (\<lambda>offset.
         if offset < 0 then Inl ''offset must be non-negative''
         else rbind (if rf_Duration rf = [] then Inr 0
                     else rbind (parseDuration ''duration'' (rf_Duration rf) True) (\<lambda>d.
                       if d \<le> 0 then Inl ''duration must be positive'' else Inr d)) (\<lambda>duration.
         rbind (parseDuration ''delay'' (rf_Delay rf) False) (\<lambda>delay.
         rbind (parseDuration ''added_latency'' (rf_AddedLatency rf) False) (\<lambda>added.
           validateFailureType
             \<lparr>f_Type = rf_Type rf, f_Rate = rate, f_Offset = offset, f_Duration = duration,
              f_StatusCode = rf_StatusCode rf, f_HeaderName = TrimSpace (rf_HeaderName rf),
              f_HeaderValue = rf_HeaderValue rf, f_Method = rf_Method rf, f_Phase = rf_Phase rf,
              f_Delay = delay, f_TruncateAfterBytes = rf_TruncateAfterBytes rf, f_Variant = rf_Variant rf,
              f_ChainLength = rf_ChainLength rf, f_Content = rf_Content rf, f_AddedLatency = added,
              f_Mode = rf_Mode rf, f_DaysExpired = rf_DaysExpired rf, f_DaysRemaining = rf_DaysRemaining rf,
              f_Reason = rf_Reason rf, f_Regions = rf_Regions rf\<rparr>)))))"

definition validate :: "raw \<Rightarrow> Scenario result" where
  "validate r =
    (if raw_ID r = [] then Inl ''scenario: id is required''
     else if raw_Version r = [] then Inl ''scenario: version is required''
     else if raw_Target r = [] then Inl ''scenario: target is required''
     else if raw_Monitors r = [] then Inl ''scenario: at least one monitor is required''
     else if raw_Failures r = [] then Inl ''scenario: at least one failures block is required''
     else
       rbind (parseDuration ''check_frequency'' (raw_CheckFrequency r) True) (\<lambda>checkFreq.
       rbind (validateMonitorKind (raw_MonitorKind r)) (\<lambda>monitorKind.
       rbind (parseDuration ''grace_period'' (raw_GracePeriod r) True) (\<lambda>gracePeriod.
       rbind (parseDuration ''duration'' (raw_Duration r) True) (\<lambda>duration.
       rbind (parseDuration ''response_time_threshold'' (raw_ResponseTimeThreshold r) False) (\<lambda>threshold.
         if threshold < 0 then Inl ''scenario: response_time_threshold must be non-negative''
         else
           rbind (rmap validateFailure (raw_Failures r)) (\<lambda>failures.
           rbind (applyKeywordDefaults
             \<lparr>sc_ID = raw_ID r, sc_Version = raw_Version r, sc_Description = raw_Description r,
              sc_Target = raw_Target r, sc_Monitors = raw_Monitors r, sc_MonitorKind = monitorKind,
              sc_FreshHostname = raw_FreshHostname r, sc_CheckFrequency = checkFreq,
              sc_GracePeriod = gracePeriod, sc_Duration = duration, sc_Seed = raw_Seed r,
              sc_Failures = failures, sc_Keyword = raw_Keyword r, sc_KeywordCheck = raw_KeywordCheck r,
              sc_ResponseTimeThreshold = threshold,
              sc_RequestHeaders = normalizeRequestHeaders (raw_RequestHeaders r),
              sc_Maintenance = None\<rparr>) (\<lambda>s.
           case raw_Maintenance r of
             None \<Rightarrow> Inr s
           | Some rm \<Rightarrow> rbind (validateMaintenance rm) (\<lambda>m. Inr (s\<lparr>sc_Maintenance := Some m\<rparr>))))))))))"

section \<open>What an accepted failure satisfies\<close>

definition failure_types :: "string list" where
  "failure_types = [''http_status'', ''http_method_status'', ''http_timeout'', ''http_latency'',
     ''http_header_status'', ''http_partial'', ''http_redirect'', ''http_body'', ''tcp_refused'', ''tcp_timeout'',
     ''dns_nxdomain'', ''dns_servfail'', ''dns_timeout'', ''dns_cname_nxdomain'', ''dns_latency'',
     ''dns_ns_unavailable'', ''tls_expired'', ''tls_expiring'', ''tls_invalid'', ''tls_handshake'', ''tls_deprecated'']"

definition requirement :: "string \<Rightarrow> Failure \<Rightarrow> bool" where
  "requirement t f =
    (if t = ''http_status'' then 100 \<le> f_StatusCode f \<and> f_StatusCode f \<le> 599
     else if t = ''http_method_status'' then 100 \<le> f_StatusCode f \<and> f_StatusCode f \<le> 599 \<and>
       f_Method f \<in> {''GET'', ''HEAD''} \<and> f_Regions f = []
     else if t = ''http_timeout'' then f_Method f \<in> {[], ''GET'', ''HEAD''} \<and>
       f_Phase f \<in> {''ttfb'', ''body'', ''total''} \<and> f_Delay f \<noteq> 0
     else if t = ''http_latency'' then f_Method f \<in> {[], ''GET'', ''HEAD''} \<and> f_Delay f \<noteq> 0
     else if t = ''http_header_status'' then 100 \<le> f_StatusCode f \<and> f_StatusCode f \<le> 599 \<and> f_HeaderName f \<noteq> []
     else if t = ''http_partial'' then f_Method f \<in> {[], ''GET'', ''HEAD''}
     else if t = ''http_redirect'' then f_Method f \<in> {[], ''GET'', ''HEAD''} \<and>
       f_Variant f \<in> {''loop'', ''chain''} \<and> (f_Variant f = ''loop'' \<or> f_ChainLength f \<noteq> 0)
     else if t = ''http_body'' then f_Method f \<in> {[], ''GET'', ''HEAD''} \<and>
       f_Content f \<in> set content_values
     else if t = ''dns_latency'' then f_AddedLatency f \<noteq> 0
     else if t = ''dns_ns_unavailable'' then f_Mode f \<in> {''silent'', ''servfail''}
     else if t = ''tls_expired'' then f_DaysExpired f \<noteq> 0
     else if t = ''tls_expiring'' then 0 < f_DaysRemaining f
     else if t = ''tls_invalid'' then f_Variant f \<in> {''self_signed'', ''hostname_mismatch''}
     else if t = ''tls_handshake'' then f_Reason f \<in> {''version_mismatch'', ''no_common_cipher''}
     else if t = ''tls_deprecated'' then f_Variant f \<in> {''TLS10'', ''TLS11''}
     else t \<in> set failure_types)"

lemma content_values_nonempty: "c \<in> set content_values \<Longrightarrow> c \<noteq> []"
  by (auto simp: content_values_def)

lemma validateMethod_iff [simp]:
  "validateMethod m True = Inr u \<longleftrightarrow> m \<in> {''GET'', ''HEAD''}"
  "validateMethod m False = Inr u \<longleftrightarrow> m \<in> {[], ''GET'', ''HEAD''}"
  by (auto simp: validateMethod_def)

lemma validateFailureType_types: "validateFailureType f = Inr g \<Longrightarrow> f_Type f \<in> set failure_types"
  by (rule ccontr) (simp add: validateFailureType_def failure_types_def)

lemma validateFailureType_sound:
  assumes "validateFailureType f = Inr g"
  shows "requirement (f_Type f) g"
  using validateFailureType_types [OF assms] assms
  unfolding failure_types_def list.set insert_iff empty_iff
  by (elim disjE; simp add: validateFailureType_def requirement_def Let_def failure_types_def split: if_splits) auto

lemma validateFailureType_type:
  assumes "validateFailureType f = Inr g"
  shows "f_Type g = f_Type f"
  using validateFailureType_types [OF assms] assms
  unfolding failure_types_def list.set insert_iff empty_iff
  by (elim disjE; simp add: validateFailureType_def Let_def split: if_splits) auto

lemma validateFailureType_complete:
  assumes "requirement (f_Type f) f"
  shows "validateFailureType f = Inr f"
proof -
  have t: "f_Type f \<in> set failure_types"
    by (rule ccontr) (use assms in \<open>simp add: requirement_def failure_types_def\<close>)
  show ?thesis
    using t assms unfolding failure_types_def list.set insert_iff empty_iff
    by (elim disjE; cases f; simp add: validateFailureType_def requirement_def Let_def validateMethod_def
        failure_types_def content_values_nonempty)
      auto
qed

definition failure_ok :: "Failure \<Rightarrow> bool" where
  "failure_ok f \<longleftrightarrow> requirement (f_Type f) f \<and> \<not> fle (f_Rate f) (Fin 0) \<and> \<not> flt (Fin 1) (f_Rate f) \<and>
     0 \<le> f_Offset f \<and> 0 \<le> f_Duration f"

lemma validateFailureType_keeps:
  assumes "validateFailureType f = Inr g"
  shows "f_Rate g = f_Rate f" and "f_Offset g = f_Offset f" and "f_Duration g = f_Duration f"
  using validateFailureType_types [OF assms] assms
  unfolding failure_types_def list.set insert_iff empty_iff
  by (elim disjE; simp add: validateFailureType_def Let_def split: if_splits; auto)+

lemma validateFailure_ok:
  assumes "validateFailure rf = Inr f"
  shows "failure_ok f"
proof -
  obtain g where g: "validateFailureType g = Inr f" "\<not> fle (f_Rate g) (Fin 0)" "\<not> flt (Fin 1) (f_Rate g)"
    "0 \<le> f_Offset g" "0 \<le> f_Duration g"
    using assms by (auto simp: validateFailure_def Let_def not_le not_less split: if_splits)
  then show ?thesis
    using validateFailureType_sound [OF g(1)] validateFailureType_type [OF g(1)] validateFailureType_keeps [OF g(1)]
    by (simp add: failure_ok_def)
qed

definition keyword_ok :: "Scenario \<Rightarrow> bool" where
  "keyword_ok s \<longleftrightarrow>
    (if has_content (sc_Failures s) then sc_Keyword s \<noteq> [] \<and> check_ok (sc_KeywordCheck s)
     else sc_KeywordCheck s = [] \<or> check_ok (sc_KeywordCheck s))"

lemma applyKeywordDefaults_cases:
  assumes "applyKeywordDefaults s = Inr s'"
  obtains "s' = s" "keyword_ok s" "has_content (sc_Failures s) \<Longrightarrow> sc_Keyword s \<noteq> []"
  | k c where "has_content (sc_Failures s)" "s' = s\<lparr>sc_Keyword := k, sc_KeywordCheck := c\<rparr>"
      "k \<noteq> []" "check_ok c" "sc_Keyword s = [] \<longrightarrow> \<not> has_injected (sc_Failures s)"
      "sc_Keyword s = [] \<or> k = sc_Keyword s"
proof (cases "has_content (sc_Failures s)")
  case False
  with assms have "s' = s" "keyword_ok s"
    by (auto simp: applyKeywordDefaults_def keyword_ok_def split: if_splits)
  with False show thesis by (intro that(1)) simp_all
next
  case True
  define k where "k = (if sc_Keyword s = [] then CanaryKeyword else sc_Keyword s)"
  define c where "c = (if sc_KeywordCheck s = [] then if has_injected (sc_Failures s) then ''absent'' else ''present''
    else sc_KeywordCheck s)"
  have no: "\<not> (sc_Keyword s = [] \<and> has_injected (sc_Failures s))"
    using assms True by (auto simp: applyKeywordDefaults_def)
  have s2: "applyKeywordDefaults s = (if \<not> check_ok c
    then Inl ''scenario: keyword_check must be one of: present, absent''
    else Inr (s\<lparr>sc_Keyword := k, sc_KeywordCheck := c\<rparr>))"
    using True no by (cases s) (simp add: applyKeywordDefaults_def Let_def k_def c_def)
  show thesis
    using True no assms unfolding s2
    by (intro that(2) [where k = k and c = c]) (simp_all add: k_def CanaryKeyword_def split: if_splits)
qed

lemma applyKeywordDefaults_ok: "applyKeywordDefaults s = Inr s' \<Longrightarrow> keyword_ok s'"
  by (erule applyKeywordDefaults_cases) (simp_all add: keyword_ok_def)

lemma applyKeywordDefaults_keeps:
  assumes "applyKeywordDefaults s = Inr s'"
  shows "sc_ID s' = sc_ID s" "sc_Version s' = sc_Version s" "sc_Target s' = sc_Target s"
    "sc_Monitors s' = sc_Monitors s" "sc_MonitorKind s' = sc_MonitorKind s" "sc_Failures s' = sc_Failures s"
    "sc_ResponseTimeThreshold s' = sc_ResponseTimeThreshold s" "sc_Maintenance s' = sc_Maintenance s"
    "sc_Keyword s \<noteq> [] \<Longrightarrow> sc_Keyword s' = sc_Keyword s"
  by (rule applyKeywordDefaults_cases [OF assms]; simp)+

lemma check_ok_nonempty: "check_ok c \<Longrightarrow> c \<noteq> []"
  by (auto simp: check_ok_def)

lemma applyKeywordDefaults_complete: "keyword_ok s \<Longrightarrow> applyKeywordDefaults s = Inr s"
  by (cases "has_content (sc_Failures s)")
    (simp_all add: applyKeywordDefaults_def keyword_ok_def Let_def check_ok_nonempty)

lemma has_injected_content: "has_injected fs \<Longrightarrow> has_content fs"
  by (auto simp: has_injected_def has_content_def list_ex_iff)

definition maintenance_ok :: "Maintenance option \<Rightarrow> bool" where
  "maintenance_ok m = (case m of None \<Rightarrow> True | Some x \<Rightarrow> 0 \<le> mt_StartOffset x \<and> 0 < mt_Duration x)"

lemma validateMaintenance_ok: "validateMaintenance rm = Inr m \<Longrightarrow> maintenance_ok (Some m)"
  by (auto simp: validateMaintenance_def maintenance_ok_def split: if_splits)

definition scenario_ok :: "Scenario \<Rightarrow> bool" where
  "scenario_ok s \<longleftrightarrow> sc_ID s \<noteq> [] \<and> sc_Version s \<noteq> [] \<and> sc_Target s \<noteq> [] \<and> sc_Monitors s \<noteq> [] \<and>
     sc_Failures s \<noteq> [] \<and> list_all failure_ok (sc_Failures s) \<and>
     sc_MonitorKind s \<in> {''http'', ''dns'', ''tcp'', ''ssl_certificate'', ''heartbeat''} \<and>
     0 \<le> sc_ResponseTimeThreshold s \<and> keyword_ok s \<and> maintenance_ok (sc_Maintenance s)"

lemma validateMonitorKind_ok:
  "validateMonitorKind k = Inr m \<Longrightarrow> m \<in> {''http'', ''dns'', ''tcp'', ''ssl_certificate'', ''heartbeat''}"
  by (auto simp: validateMonitorKind_def Let_def split: if_splits)

lemma validate_cases:
  assumes "validate r = Inr s"
  obtains fs s0 s1 where "0 \<le> sc_ResponseTimeThreshold s0"
    "sc_MonitorKind s0 \<in> {''http'', ''dns'', ''tcp'', ''ssl_certificate'', ''heartbeat''}"
    "rmap validateFailure (raw_Failures r) = Inr (sc_Failures s0)" "applyKeywordDefaults s0 = Inr s1"
    "sc_ID s0 = raw_ID r" "sc_Version s0 = raw_Version r" "sc_Target s0 = raw_Target r" "sc_Monitors s0 = raw_Monitors r"
    "sc_Keyword s0 = raw_Keyword r" "sc_Maintenance s0 = None"
    "raw_ID r \<noteq> []" "raw_Version r \<noteq> []" "raw_Target r \<noteq> []" "raw_Monitors r \<noteq> []" "raw_Failures r \<noteq> []"
    "s = s1 \<and> raw_Maintenance r = None \<or>
     (\<exists>m. s = s1\<lparr>sc_Maintenance := Some m\<rparr> \<and> maintenance_ok (Some m) \<and> raw_Maintenance r \<noteq> None)"
proof -
  from assms [unfolded validate_def rbind_Inr_iff guard_Inr_iff not_less] obtain freq kind grace dur thr fs s0 s1 where
    v: "validateMonitorKind (raw_MonitorKind r) = Inr kind" "0 \<le> thr"
    "rmap validateFailure (raw_Failures r) = Inr fs" "applyKeywordDefaults s0 = Inr s1"
    "raw_ID r \<noteq> []" "raw_Version r \<noteq> []" "raw_Target r \<noteq> []" "raw_Monitors r \<noteq> []" "raw_Failures r \<noteq> []"
    "(case raw_Maintenance r of None \<Rightarrow> Inr s1
      | Some rm \<Rightarrow> rbind (validateMaintenance rm) (\<lambda>m. Inr (s1\<lparr>sc_Maintenance := Some m\<rparr>))) = Inr s"
    and s0: "s0 = \<lparr>sc_ID = raw_ID r, sc_Version = raw_Version r, sc_Description = raw_Description r,
              sc_Target = raw_Target r, sc_Monitors = raw_Monitors r, sc_MonitorKind = kind,
              sc_FreshHostname = raw_FreshHostname r, sc_CheckFrequency = freq,
              sc_GracePeriod = grace, sc_Duration = dur, sc_Seed = raw_Seed r,
              sc_Failures = fs, sc_Keyword = raw_Keyword r, sc_KeywordCheck = raw_KeywordCheck r,
              sc_ResponseTimeThreshold = thr,
              sc_RequestHeaders = normalizeRequestHeaders (raw_RequestHeaders r), sc_Maintenance = None\<rparr>"
    by (elim exE conjE) (rule that, assumption+, rule refl)
  have "s = s1 \<and> raw_Maintenance r = None \<or>
     (\<exists>m. s = s1\<lparr>sc_Maintenance := Some m\<rparr> \<and> maintenance_ok (Some m) \<and> raw_Maintenance r \<noteq> None)"
    using v(10) by (cases "raw_Maintenance r") (auto dest: validateMaintenance_ok)
  with v s0 validateMonitorKind_ok [OF v(1)] show thesis by (intro that [of s0 s1]) simp_all
qed

lemma rmap_Inr_all2: "rmap f xs = Inr ys \<Longrightarrow> list_all2 (\<lambda>x y. f x = Inr y) xs ys"
  by (induction xs arbitrary: ys) auto

lemma rmap_failures_ok: "rmap validateFailure rfs = Inr fs \<Longrightarrow> list_all failure_ok fs"
  by (induction rfs arbitrary: fs) (auto dest: validateFailure_ok)

definition example_failure :: rawFailure where
  "example_failure = \<lparr>rf_Type = ''http_body'', rf_Rate = Fin 0, rf_Offset = [], rf_Duration = ''30s'',
     rf_StatusCode = 0, rf_HeaderName = [], rf_HeaderValue = [], rf_Method = [], rf_Phase = [], rf_Delay = [],
     rf_TruncateAfterBytes = None, rf_Variant = [], rf_ChainLength = 0, rf_Content = ''empty'',
     rf_AddedLatency = [], rf_Mode = [], rf_DaysExpired = 0, rf_DaysRemaining = 0, rf_Reason = [],
     rf_Regions = []\<rparr>"

definition example_raw :: "string \<Rightarrow> raw" where
  "example_raw dur = \<lparr>raw_ID = ''body'', raw_Version = ''1'', raw_Description = [], raw_Target = ''site'',
     raw_Monitors = [''m''], raw_MonitorKind = [], raw_FreshHostname = False, raw_CheckFrequency = ''1m'',
     raw_GracePeriod = ''0s'', raw_Duration = dur, raw_Seed = None, raw_Keyword = [], raw_KeywordCheck = [],
     raw_ResponseTimeThreshold = [], raw_RequestHeaders = [], raw_Maintenance = None,
     raw_Failures = [example_failure]\<rparr>"

text \<open>
  C33. What the loader accepts: every scenario that passes validation has an id, a version, a
  target, monitors and failures, each failure with a rate in (0, 1], a non-negative offset and
  duration and the parameters its type requires; a content failure comes with a keyword and a
  check that is present or absent; a maintenance window starts at or after the scenario and
  lasts. Nothing is dropped or reordered on the way: the failures are those of the file, one by one.
\<close>

theorem accepted_scenario:
  assumes "validate r = Inr s"
  shows "scenario_ok s \<and> sc_ID s = raw_ID r \<and> sc_Target s = raw_Target r \<and> sc_Monitors s = raw_Monitors r \<and>
    list_all2 (\<lambda>rf f. validateFailure rf = Inr f) (raw_Failures r) (sc_Failures s) \<and>
    (sc_Maintenance s = None \<longleftrightarrow> raw_Maintenance r = None) \<and>
    (if raw_Keyword r = [] then True else sc_Keyword s = raw_Keyword r)"
proof -
  obtain s0 s1 where thr: "0 \<le> sc_ResponseTimeThreshold s0"
    and kind: "sc_MonitorKind s0 \<in> {''http'', ''dns'', ''tcp'', ''ssl_certificate'', ''heartbeat''}"
    and fs: "rmap validateFailure (raw_Failures r) = Inr (sc_Failures s0)"
    and kw: "applyKeywordDefaults s0 = Inr s1"
    and s0: "sc_ID s0 = raw_ID r" "sc_Version s0 = raw_Version r" "sc_Target s0 = raw_Target r"
      "sc_Monitors s0 = raw_Monitors r" "sc_Keyword s0 = raw_Keyword r" "sc_Maintenance s0 = None"
    and ne: "raw_ID r \<noteq> []" "raw_Version r \<noteq> []" "raw_Target r \<noteq> []" "raw_Monitors r \<noteq> []"
      "raw_Failures r \<noteq> []"
    and s: "s = s1 \<and> raw_Maintenance r = None \<or>
      (\<exists>m. s = s1\<lparr>sc_Maintenance := Some m\<rparr> \<and> maintenance_ok (Some m) \<and> raw_Maintenance r \<noteq> None)"
    by (rule validate_cases [OF assms])
  note k = applyKeywordDefaults_keeps [OF kw]
  have all2: "list_all2 (\<lambda>rf f. validateFailure rf = Inr f) (raw_Failures r) (sc_Failures s1)"
    using rmap_Inr_all2 [OF fs] k by simp
  then have nz: "sc_Failures s1 \<noteq> []"
    using ne by auto
  have ok: "list_all failure_ok (sc_Failures s1)"
    using rmap_failures_ok [OF fs] k by simp
  have s1: "scenario_ok s1"
    using thr kind s0 ne k nz ok applyKeywordDefaults_ok [OF kw]
    by (simp add: scenario_ok_def maintenance_ok_def)
  have upd: "scenario_ok (s1\<lparr>sc_Maintenance := m\<rparr>)" if "maintenance_ok m" for m
    using s1 that by (simp add: scenario_ok_def keyword_ok_def)
  have kwd: "if raw_Keyword r = [] then True else sc_Keyword s1 = raw_Keyword r"
    using k(9) s0 by simp
  from s show ?thesis
    using s1 upd all2 kwd k s0 by (elim disjE conjE exE) simp_all
qed

lemma accepted_scenario_witness:
  "\<exists>s. validate (example_raw ''5m'') = Inr s \<and> scenario_ok s \<and> sc_ID s = ''body''"
proof -
  have "\<not> Option.is_none (case validate (example_raw ''5m'') of Inl _ \<Rightarrow> None | Inr s \<Rightarrow> Some s)"
    by code_simp
  then obtain s where s: "validate (example_raw ''5m'') = Inr s"
    by (cases "validate (example_raw ''5m'')") simp_all
  from accepted_scenario [OF s] s show ?thesis
    by (auto simp: example_raw_def)
qed

lemma negative_duration_accepted:
  "case validate (example_raw ''-5m'') of Inl e \<Rightarrow> False | Inr s \<Rightarrow> sc_Duration s < 0"
  by code_simp

lemma zero_rate_is_certain:
  "case validateFailure example_failure of Inl e \<Rightarrow> False | Inr f \<Rightarrow> f_Rate f = Fin 1"
  by code_simp

text \<open>
  Applying the defaults is a normal form: a failure that the type check lets through is let
  through again unchanged, and one is let through unchanged exactly when it already carries what
  its type requires; the same holds for the keyword defaults of a scenario.
\<close>

theorem defaults_stable:
  "(case validateFailureType f of Inl e \<Rightarrow> True | Inr g \<Rightarrow> validateFailureType g = Inr g) \<and>
   (validateFailureType f = Inr f \<longleftrightarrow> requirement (f_Type f) f) \<and>
   (case applyKeywordDefaults s of Inl e \<Rightarrow> True | Inr s' \<Rightarrow> applyKeywordDefaults s' = Inr s') \<and>
   (applyKeywordDefaults s = Inr s \<longleftrightarrow> keyword_ok s)"
proof (intro conjI)
  show "case validateFailureType f of Inl e \<Rightarrow> True | Inr g \<Rightarrow> validateFailureType g = Inr g"
    by (auto split: sum.splits simp: validateFailureType_type dest: validateFailureType_sound
        intro!: validateFailureType_complete)
  show "validateFailureType f = Inr f \<longleftrightarrow> requirement (f_Type f) f"
    by (auto intro: validateFailureType_complete dest: validateFailureType_sound)
  show "case applyKeywordDefaults s of Inl e \<Rightarrow> True | Inr s' \<Rightarrow> applyKeywordDefaults s' = Inr s'"
    by (auto split: sum.splits intro!: applyKeywordDefaults_complete dest: applyKeywordDefaults_ok)
  show "applyKeywordDefaults s = Inr s \<longleftrightarrow> keyword_ok s"
    by (auto intro: applyKeywordDefaults_complete dest: applyKeywordDefaults_ok)
qed

end
