(* ===== verification/Services.thy ===== *)
theory Services
  imports Registry
begin

text \<open>
  The services file: \<open>src/internal/serviceconfig/serviceconfig.go\<close>. Decoding TOML is the library's
  work; the loop of \<open>Parse\<close> runs over the decoded entries and returns the first error. The
  entries of \<open>probe_ranges\<close> are listed in the order in which Go visits that map, and
  \<open>net.ParseCIDR\<close> is the argument \<open>pc\<close>. \<open>collectCIDRs\<close> (\<open>src/internal/runner/runner.go\<close>) expands the
  regions of a failure over the enabled services.
\<close>

section \<open>Records\<close>

record ServiceCapacity =
  cap_Unlimited :: bool
  cap_MaxActiveMonitors :: int
  cap_ReservedMonitors :: int
  cap_MaxParallelRuns :: int
  cap_APIRateLimitPerMinute :: int
  cap_BillingModel :: string
  cap_Source :: string
  cap_Notes :: string

record Service =
  svc_ID :: string
  svc_Type :: string
  svc_URL :: string
  svc_Auth :: "(string \<times> string) list"
  svc_Enabled :: bool
  svc_ProbeRanges :: "(string \<times> string list) list"
  svc_Capacity :: ServiceCapacity

section \<open>Loading\<close>

definition validateCapacity :: "ServiceCapacity \<Rightarrow> unit result" where
  "validateCapacity c =
    (if cap_MaxActiveMonitors c < 0 then Inl ''services: capacity.max_active_monitors must be non-negative''
     else if cap_ReservedMonitors c < 0 then Inl ''services: capacity.reserved_monitors must be non-negative''
     else if cap_MaxParallelRuns c < 0 then Inl ''services: capacity.max_parallel_runs must be non-negative''
     else if cap_APIRateLimitPerMinute c < 0
     then Inl ''services: capacity.api_rate_limit_per_minute must be non-negative''
     else if \<not> cap_Unlimited c \<and> cap_MaxActiveMonitors c > 0 then
       (if cap_ReservedMonitors c > cap_MaxActiveMonitors c
        then Inl ''services: capacity.reserved_monitors exceeds max_active_monitors''
        else if cap_MaxParallelRuns c > cap_MaxActiveMonitors c - cap_ReservedMonitors c
        then Inl ''services: capacity.max_parallel_runs exceeds available monitor capacity''
        else Inr ())
     else Inr ())"

fun parse_services :: "cidr_parser \<Rightarrow> string list \<Rightarrow> Service list \<Rightarrow> Service list result" where
  "parse_services pc seen [] = Inr []"
| "parse_services pc seen (s # ss) =
    (if svc_ID s = [] then Inl ''services: id is required''
     else if svc_Type s = [] then Inl ''services: type is required''
     else if svc_ID s \<in> set seen then Inl ''services: duplicate id''
     else if list_ex (\<lambda>(region, cidrs). list_ex (\<lambda>c. pc c = None) cidrs) (svc_ProbeRanges s)
     then Inl ''services: probe_ranges: invalid CIDR''
     else rbind (validateCapacity (svc_Capacity s)) (\<lambda>_.
       rbind (parse_services pc (svc_ID s # seen) ss) (\<lambda>out. Inr (s # out))))"

definition Parse_services :: "cidr_parser \<Rightarrow> Service list \<Rightarrow> Service list result" where
  "Parse_services pc entries = parse_services pc [] entries"

section \<open>Regions\<close>

definition svc_ranges :: "Service \<Rightarrow> string \<Rightarrow> string list" where
  "svc_ranges s region = (case map_of (svc_ProbeRanges s) region of None \<Rightarrow> [] | Some cs \<Rightarrow> cs)"

definition collectCIDRs :: "string list \<Rightarrow> Service list option \<Rightarrow> string list" where
  "collectCIDRs regions svcCfg =
    (case svcCfg of None \<Rightarrow> []
     | Some services \<Rightarrow>
        (if regions = [] then []
         else foldl (\<lambda>acc s. if \<not> svc_Enabled s then acc
                else foldl (\<lambda>acc region. foldl add_new acc (svc_ranges s region)) acc regions)
              [] services))"

section \<open>What a loaded file guarantees\<close>

definition capacity_ok :: "ServiceCapacity \<Rightarrow> bool" where
  "capacity_ok c \<longleftrightarrow> 0 \<le> cap_MaxActiveMonitors c \<and> 0 \<le> cap_ReservedMonitors c \<and>
     0 \<le> cap_MaxParallelRuns c \<and> 0 \<le> cap_APIRateLimitPerMinute c \<and>
     (cap_Unlimited c \<or> cap_MaxActiveMonitors c = 0 \<or>
      cap_ReservedMonitors c + cap_MaxParallelRuns c \<le> cap_MaxActiveMonitors c)"

definition ranges_ok :: "cidr_parser \<Rightarrow> (string \<times> string list) list \<Rightarrow> bool" where
  "ranges_ok pc rs \<longleftrightarrow> (\<forall>(region, cidrs) \<in> set rs. \<forall>c \<in> set cidrs. pc c \<noteq> None)"

definition service_ok :: "cidr_parser \<Rightarrow> Service \<Rightarrow> bool" where
  "service_ok pc s \<longleftrightarrow> svc_ID s \<noteq> [] \<and> svc_Type s \<noteq> [] \<and> capacity_ok (svc_Capacity s) \<and>
     ranges_ok pc (svc_ProbeRanges s)"

lemma validateCapacity_iff: "validateCapacity c = Inr u \<longleftrightarrow> capacity_ok c"
  by (auto simp: validateCapacity_def capacity_ok_def)

lemma ranges_checked:
  "list_ex (\<lambda>(region, cidrs). list_ex (\<lambda>c. pc c = None) cidrs) rs \<longleftrightarrow> \<not> ranges_ok pc rs"
  by (induction rs) (auto simp: list_ex_iff ranges_ok_def)

lemma parse_services_iff:
  "parse_services pc seen ss = Inr out \<longleftrightarrow>
     out = ss \<and> list_all (service_ok pc) ss \<and> distinct (map svc_ID ss) \<and> set (map svc_ID ss) \<inter> set seen = {}"
proof (induction ss arbitrary: seen out)
  case Nil
  then show ?case by auto
next
  case (Cons s ss)
  show ?case
    unfolding parse_services.simps ranges_checked
    by (auto simp: Cons.IH validateCapacity_iff service_ok_def)
qed

lemma set_add_regions:
  "set (foldl (\<lambda>acc region. foldl add_new acc (svc_ranges s region)) acc regions) =
     set acc \<union> (\<Union>r \<in> set regions. set (svc_ranges s r))"
  by (induction regions arbitrary: acc) auto

lemma distinct_add_regions:
  "distinct acc \<Longrightarrow> distinct (foldl (\<lambda>acc region. foldl add_new acc (svc_ranges s region)) acc regions)"
  by (induction regions arbitrary: acc) (auto simp: distinct_add_new)

lemma collect_services:
  "set (foldl (\<lambda>acc s. if \<not> svc_Enabled s then acc
       else foldl (\<lambda>acc region. foldl add_new acc (svc_ranges s region)) acc regions) acc services) =
     set acc \<union> (\<Union>s \<in> {s \<in> set services. svc_Enabled s}. \<Union>r \<in> set regions. set (svc_ranges s r))"
  by (induction services arbitrary: acc) (auto simp: set_add_regions)

lemma distinct_collect_services:
  "distinct acc \<Longrightarrow> distinct (foldl (\<lambda>acc s. if \<not> svc_Enabled s then acc
       else foldl (\<lambda>acc region. foldl add_new acc (svc_ranges s region)) acc regions) acc services)"
  by (induction services arbitrary: acc) (auto simp: distinct_add_regions)

lemma collectCIDRs_distinct: "distinct (collectCIDRs regions cfg)"
  by (auto simp: collectCIDRs_def distinct_collect_services split: option.splits)

lemma collectCIDRs_set:
  "set (collectCIDRs regions (Some services)) =
     {c. \<exists>s \<in> set services. svc_Enabled s \<and> (\<exists>r \<in> set regions. c \<in> set (svc_ranges s r))}"
  by (auto simp: collectCIDRs_def collect_services)

end
