(* ===== verification/Run_Targets.thy ===== *)
theory Run_Targets
  imports Scenario Services Fleet Dns_Zones
begin

text \<open>
  What a run is aimed at: the endpoint, URL, parameters and control members the runner derives
  from a scenario and the fleet (\<open>src/internal/runner/runner.go\<close> and the member selection of
  \<open>src/internal/runner/dns_failure.go\<close>). \<open>sha\<close> is \<open>sha256.Sum256\<close> on byte strings, a list of 32
  bytes, and \<open>sprintf\<close> is \<open>fmt.Sprintf\<close> with one integer argument; both are arguments, and what a
  theorem needs of them is its hypothesis. A scenario and a fleet are never nil here.
\<close>

type_synonym hash = "string \<Rightarrow> byte list"
type_synonym sprintf = "string \<Rightarrow> int \<Rightarrow> string"

section \<open>Target and endpoint\<close>

record targetEndpoint =
  ep_host :: string
  ep_path :: string

text \<open>\<open>t.UnixNano()\<close>: the epoch is 62135596800 seconds after the zero time.\<close>

definition UnixNano :: "instant \<Rightarrow> int" where
  "UnixNano t = wrap64 (t - 62135596800 * Second)"

definition effectiveSeed :: "Scenario \<Rightarrow> instant \<Rightarrow> int" where
  "effectiveSeed sc startedAt = (case sc_Seed sc of Some s \<Rightarrow> s | None \<Rightarrow> UnixNano startedAt)"

fun resolveTarget :: "Target list \<Rightarrow> string \<Rightarrow> Target result" where
  "resolveTarget [] targetID = Inl ''target not found in fleet config''"
| "resolveTarget (t # ts) targetID = (if tg_ID t = targetID then Inr t else resolveTarget ts targetID)"

definition site_path :: "string \<Rightarrow> string" where
  "site_path path0 = (let path = TrimSpace path0; path = (if path = [] then ''/'' else path)
     in if HasPrefix path ''/'' then path else ''/'' @ path)"

definition normalizeSitePaths :: "string list \<Rightarrow> string list" where
  "normalizeSitePaths paths =
    (if paths = [] then [''/'']
     else let out = foldl (\<lambda>out path. add_new out (site_path path)) [] paths
          in if out = [] then [''/''] else out)"

definition hash_index :: "hash \<Rightarrow> string \<Rightarrow> nat \<Rightarrow> nat" where
  "hash_index sha key n = nat (foldl (\<lambda>v b. v * 256 + uint b) 0 (take 8 (sha key)) mod int n)"

definition stableScenarioIndex :: "hash \<Rightarrow> Scenario \<Rightarrow> nat \<Rightarrow> nat" where
  "stableScenarioIndex sha sc n = (if n \<le> 1 then 0 else hash_index sha (sc_ID sc) n)"

abbreviation NUL :: string where "NUL \<equiv> [CHR 0x00]"

definition stableRunIndex :: "hash \<Rightarrow> Scenario \<Rightarrow> string \<Rightarrow> int \<Rightarrow> string \<Rightarrow> int \<Rightarrow> nat" where
  "stableRunIndex sha sc runID seed salt n =
    (if n \<le> 1 then 0
     else hash_index sha (sc_ID sc @ NUL @ runID @ NUL @ show_int seed @ NUL @ salt) (nat n))"

definition selectMonitorPath :: "hash \<Rightarrow> Scenario \<Rightarrow> string list \<Rightarrow> string" where
  "selectMonitorPath sha sc paths =
    (let normalized = normalizeSitePaths paths in
     if normalized = [] then ''/''
     else
       let nonRoot = filter (\<lambda>p. p \<noteq> ''/'') normalized;
           candidates = (if length normalized > 1 \<and> nonRoot \<noteq> [] then nonRoot else normalized)
       in candidates ! stableScenarioIndex sha sc (length candidates))"

definition targetEndpointForRun ::
  "hash \<Rightarrow> sprintf \<Rightarrow> Scenario \<Rightarrow> Target \<Rightarrow> string \<Rightarrow> int \<Rightarrow> targetEndpoint result" where
  "targetEndpointForRun sha sprintf sc target runID seed =
    (if sc_FreshHostname sc then
       (if tg_GeneratedSites target = []
        then Inl ''scenario requested fresh_hostname but target has no generated_sites''
        else
          let rangeIndex = stableRunIndex sha sc runID seed ''generated-range'' (int (length (tg_GeneratedSites target)));
              generated = tg_GeneratedSites target ! rangeIndex;
              siteIndex = wrap64 (gs_Start generated +
                int (stableRunIndex sha sc runID seed ''generated-host'' (gs_Count generated)))
          in Inr \<lparr>ep_host = sprintf (gs_HostPattern generated) siteIndex,
                  ep_path = selectMonitorPath sha sc (gs_Paths generated)\<rparr>)
     else case tg_Sites target of
       [] \<Rightarrow> Inr \<lparr>ep_host = tg_Address target, ep_path = []\<rparr>
     | site # _ \<Rightarrow> Inr \<lparr>ep_host = site_Host site, ep_path = selectMonitorPath sha sc (site_Paths site)\<rparr>)"

definition targetEndpointForScenario :: "hash \<Rightarrow> sprintf \<Rightarrow> Scenario \<Rightarrow> Target \<Rightarrow> targetEndpoint" where
  "targetEndpointForScenario sha sprintf sc target =
    (case targetEndpointForRun sha sprintf sc target [] 0 of
       Inr endpoint \<Rightarrow> endpoint
     | Inl e \<Rightarrow> (case tg_Sites target of
         [] \<Rightarrow> \<lparr>ep_host = tg_Address target, ep_path = []\<rparr>
       | site # _ \<Rightarrow> \<lparr>ep_host = site_Host site, ep_path = selectMonitorPath sha sc (site_Paths site)\<rparr>))"

section \<open>The monitored URL\<close>

definition hex_digit :: "int \<Rightarrow> char" where
  "hex_digit n = (if n < 10 then char_of (48 + n) else char_of (87 + n))"

definition hex_encode :: "byte list \<Rightarrow> string" where
  "hex_encode bs = concat (map (\<lambda>b. [hex_digit (uint b div 16), hex_digit (uint b mod 16)]) bs)"

definition monitorURLToken :: "hash \<Rightarrow> Scenario \<Rightarrow> string \<Rightarrow> string" where
  "monitorURLToken sha sc runID =
    (if TrimSpace (sc_ID sc) = [] then []
     else hex_encode (take 4 (sha (if runID \<noteq> [] then sc_ID sc @ NUL @ runID else sc_ID sc))))"

definition scenarioUsesTLS :: "Scenario \<Rightarrow> bool" where
  "scenarioUsesTLS sc = list_ex (\<lambda>f. HasPrefix (f_Type f) ''tls_'') (sc_Failures sc)"

text \<open>
  \<open>url.URL.String\<close> for a scheme, a host, a path and a raw query: bytes outside the unreserved
  and the allowed punctuation are percent-encoded, with different punctuation in a host and in
  a path.
\<close>

definition unreserved :: "char \<Rightarrow> bool" where
  "unreserved c = (let n = of_char c :: int in (48 \<le> n \<and> n \<le> 57) \<or> (65 \<le> n \<and> n \<le> 90) \<or>
     (97 \<le> n \<and> n \<le> 122) \<or> c \<in> set ''-_.~'')"

definition upper_hex :: "int \<Rightarrow> char" where
  "upper_hex n = (if n < 10 then char_of (48 + n) else char_of (55 + n))"

definition percent :: "string \<Rightarrow> string \<Rightarrow> string" where
  "percent allowed s = concat (map (\<lambda>c. if unreserved c \<or> c \<in> set allowed then [c]
     else let n = of_char c in [CHR ''%'', upper_hex (n div 16), upper_hex (n mod 16)]) s)"

definition escape_host :: "string \<Rightarrow> string" where
  "escape_host = percent (''!$&()*+,;=:[]<>'' @ [CHR 0x22, CHR 0x27])"

definition escape_path :: "string \<Rightarrow> string" where
  "escape_path = percent ''$&+,/:;=@''"

definition url_String :: "string \<Rightarrow> string \<Rightarrow> string \<Rightarrow> string \<Rightarrow> string" where
  "url_String scheme host path query =
    scheme @ '':'' @ (if host \<noteq> [] \<or> path \<noteq> [] then ''//'' else []) @ escape_host host @
    (if path \<noteq> [] \<and> hd path \<noteq> CHR ''/'' \<and> host \<noteq> [] then ''/'' else []) @
    (if path = ''*'' then path else escape_path path) @
    (if query = [] then [] else ''?'' @ query)"

definition monitorTargetURLForRun :: "hash \<Rightarrow> Scenario \<Rightarrow> targetEndpoint \<Rightarrow> string \<Rightarrow> string" where
  "monitorTargetURLForRun sha sc endpoint runID =
    (let scheme = (if scenarioUsesTLS sc then ''https'' else ''http'');
         token = monitorURLToken sha sc runID
     in url_String scheme (ep_host endpoint) (ep_path endpoint) (if token \<noteq> [] then ''ub='' @ token else []))"

definition monitorTargetURLForEndpoint :: "hash \<Rightarrow> Scenario \<Rightarrow> targetEndpoint \<Rightarrow> string" where
  "monitorTargetURLForEndpoint sha sc endpoint = monitorTargetURLForRun sha sc endpoint []"

definition monitorTargetURL :: "hash \<Rightarrow> sprintf \<Rightarrow> Scenario \<Rightarrow> Target \<Rightarrow> string" where
  "monitorTargetURL sha sprintf sc target =
    monitorTargetURLForEndpoint sha sc (targetEndpointForScenario sha sprintf sc target)"

section \<open>Maintenance and content\<close>

record MaintenanceWindow =
  mw_Start :: instant
  mw_End :: instant

definition maintenanceWindowFor :: "Scenario \<Rightarrow> instant \<Rightarrow> MaintenanceWindow option" where
  "maintenanceWindowFor sc startedAt =
    (case sc_Maintenance sc of None \<Rightarrow> None
     | Some m \<Rightarrow> let windowStart = time_Add startedAt (mt_StartOffset m)
         in Some \<lparr>mw_Start = windowStart, mw_End = time_Add windowStart (mt_Duration m)\<rparr>)"

definition forbiddenMarkersForContent :: "string \<Rightarrow> string list" where
  "forbiddenMarkersForContent content =
    (if content = ''error_page'' then [''Error establishing a database connection'']
     else if content = ''defacement'' then [''H4CK3D'']
     else if content = ''ransomware'' then [''DARKLOCK RANSOMWARE v3.1'']
     else if content = ''malicious_script'' then
       [''cdn.track-analytics-js.example/v2/t.min.js'', ''metrics.evil-cdn.example/collect.js'']
     else if content = ''spam_links'' then
       [''buy cheap viagra online no prescription'', ''free casino slots no deposit bonus'',
        ''bitcoin investment platform guaranteed returns'']
     else [])"

definition forbiddenKeywordsForScenario :: "Scenario \<Rightarrow> string list" where
  "forbiddenKeywordsForScenario sc =
    foldl (\<lambda>out f. foldl add_new out (forbiddenMarkersForContent (f_Content f))) [] (sc_Failures sc)"

section \<open>The parameters of a failure\<close>

definition param :: "bool \<Rightarrow> string \<Rightarrow> float64 any \<Rightarrow> params" where
  "param b k v = (if b then [(k, v)] else [])"

definition failureParams :: "Scenario \<Rightarrow> Failure \<Rightarrow> params" where
  "failureParams sc f =
    [(''rate'', VFloat (f_Rate f))] @
    param (f_StatusCode f \<noteq> 0) ''status_code'' (VInt (f_StatusCode f)) @
    param (f_HeaderName f \<noteq> []) ''header_name'' (VString (f_HeaderName f)) @
    param (f_HeaderValue f \<noteq> []) ''header_value'' (VString (f_HeaderValue f)) @
    param (sc_RequestHeaders sc \<noteq> []) ''request_headers'' (VStrMap (sc_RequestHeaders sc)) @
    param (f_Method f \<noteq> []) ''method'' (VString (f_Method f)) @
    param (f_Phase f \<noteq> []) ''phase'' (VString (f_Phase f)) @
    param (f_Delay f \<noteq> 0) ''delay'' (VString (duration_String (f_Delay f))) @
    (case f_TruncateAfterBytes f of None \<Rightarrow> [] | Some n \<Rightarrow> [(''truncate_after_bytes'', VInt n)]) @
    param (f_Variant f \<noteq> []) ''variant'' (VString (f_Variant f)) @
    param (f_ChainLength f \<noteq> 0) ''chain_length'' (VInt (f_ChainLength f)) @
    param (f_Content f \<noteq> []) ''content'' (VString (f_Content f)) @
    param (sc_Keyword sc \<noteq> [] \<and> f_Type f = ''http_body'' \<and>
        (f_Content f = ''keyword_missing'' \<or> f_Content f = ''keyword_injected''))
      ''keyword'' (VString (sc_Keyword sc)) @
    param (f_AddedLatency f \<noteq> 0) ''added_latency'' (VString (duration_String (f_AddedLatency f))) @
    param (f_Mode f \<noteq> []) ''mode'' (VString (f_Mode f)) @
    param (f_DaysExpired f \<noteq> 0) ''days_expired'' (VInt (f_DaysExpired f)) @
    param (f_DaysRemaining f \<noteq> 0) ''days_remaining'' (VInt (f_DaysRemaining f)) @
    param (f_Reason f \<noteq> []) ''reason'' (VString (f_Reason f)) @
    param (f_Regions f \<noteq> []) ''regions'' (VList (map VString (f_Regions f)))"

definition targetHostPathForFailure :: "targetEndpoint \<Rightarrow> Failure \<Rightarrow> string \<times> string" where
  "targetHostPathForFailure endpoint f =
    (if f_Type f \<in> {''tcp_refused'', ''dns_nxdomain'', ''dns_servfail'', ''dns_timeout'',
        ''dns_cname_nxdomain'', ''dns_latency'', ''dns_ns_unavailable''} then ([], [])
     else if f_Type f \<in> {''tcp_timeout'', ''tls_expired'', ''tls_expiring'', ''tls_invalid'',
        ''tls_handshake'', ''tls_deprecated''} then (ep_host endpoint, [])
     else (ep_host endpoint, ep_path endpoint))"

section \<open>The members a failure is sent to\<close>

record controlMember =
  cmb_ID :: string
  cmb_Kind :: string
  cmb_Address :: string
  cmb_ControlPort :: int
  cmb_DNSPort :: int

definition isDNSFailureType :: "string \<Rightarrow> bool" where
  "isDNSFailureType t \<longleftrightarrow> t \<in> {''dns_nxdomain'', ''dns_servfail'', ''dns_timeout'', ''dns_cname_nxdomain'',
     ''dns_latency'', ''dns_ns_unavailable''}"

definition controlMemberSelectionKey :: "hash \<Rightarrow> int \<Rightarrow> string \<Rightarrow> string \<Rightarrow> string" where
  "controlMemberSelectionKey sha seed failureType memberID =
    hex_encode (sha (show_int seed @ NUL @ failureType @ NUL @ memberID))"

definition dns_member :: "Nameserver \<Rightarrow> controlMember" where
  "dns_member ns = \<lparr>cmb_ID = ns_ID ns, cmb_Kind = ''dns'', cmb_Address = ns_Address ns,
     cmb_ControlPort = ns_ControlPort ns, cmb_DNSPort = ns_DNSPort ns\<rparr>"

definition affected_members :: "float64 \<Rightarrow> nat \<Rightarrow> nat" where
  "affected_members rate0 n =
    (let rate = (if fle rate0 (Fin 0) then Fin 1 else rate0);
         rate = (if flt (Fin 1) rate then Fin 1 else rate);
         affected = int64_of_float (fadd (fmul rate (float_of_int (int n))) (fl (999999 / 1000000)));
         affected = (if affected < 1 then 1 else affected)
     in if affected > int n then n else nat affected)"

definition controlMembersForFailure ::
  "hash \<Rightarrow> Config \<Rightarrow> Target \<Rightarrow> Failure \<Rightarrow> int \<Rightarrow> controlMember list result" where
  "controlMembersForFailure sha fc target f seed =
    (if isDNSFailureType (f_Type f) then
       (if cfg_Nameservers fc = [] then Inl ''dns failure requires at least one configured nameserver''
        else
          let members = map dns_member (cfg_Nameservers fc) in
          if f_Type f \<noteq> ''dns_ns_unavailable'' then Inr members
          else if length members < 2
          then Inl ''dns_ns_unavailable requires at least two configured nameservers''
          else Inr (take (affected_members (f_Rate f) (length members))
                 (sort_key (\<lambda>m. controlMemberSelectionKey sha seed (f_Type f) (cmb_ID m)) members)))
     else Inr [\<lparr>cmb_ID = tg_ID target, cmb_Kind = ''target'', cmb_Address = tg_Address target,
                cmb_ControlPort = tg_ControlPort target, cmb_DNSPort = 0\<rparr>])"

definition controlMemberIDs :: "controlMember list \<Rightarrow> string list" where
  "controlMemberIDs members = map cmb_ID members"

end
