(* ===== verification/Run_Schedule.thy ===== *)
theory Run_Schedule
  imports Run_Targets Measurement "HOL-Library.Product_Lexorder"
begin

text \<open>
  The failure timeline of a run (\<open>scheduleFailureEvents\<close> and its helpers in
  \<open>src/internal/runner/runner.go\<close>), and what it means to the parts that consume it: the registry of a
  fleet member, which receives one operation per event, and the measurement engine, which reads
  one logged row per event.
\<close>

section \<open>The timeline\<close>

record failureEvent =
  fe_at :: instant
  fe_activate :: bool
  fe_failure :: Failure

definition effectiveFailureDuration :: "duration \<Rightarrow> Failure \<Rightarrow> duration" where
  "effectiveFailureDuration scenarioDuration f =
    (if f_Duration f > 0 then f_Duration f else scenarioDuration)"

definition latestFailureEndOffset :: "duration \<Rightarrow> Failure list \<Rightarrow> duration" where
  "latestFailureEndOffset scenarioDuration failures =
    foldl (\<lambda>latest f. let stop = wrap64 (f_Offset f + effectiveFailureDuration scenarioDuration f)
       in if stop > latest then stop else latest) 0 failures"

definition failure_events :: "instant \<Rightarrow> duration \<Rightarrow> Failure \<Rightarrow> failureEvent list" where
  "failure_events start scenarioDuration f =
    (let activateAt = time_Add start (f_Offset f);
         deactivateAt = time_Add activateAt (effectiveFailureDuration scenarioDuration f)
     in [\<lparr>fe_at = activateAt, fe_activate = True, fe_failure = f\<rparr>,
         \<lparr>fe_at = deactivateAt, fe_activate = False, fe_failure = f\<rparr>])"

text \<open>The stable sort by time, activations before deactivations at one instant.\<close>

definition event_key :: "failureEvent \<Rightarrow> instant \<times> bool" where
  "event_key e = (fe_at e, \<not> fe_activate e)"

definition scheduleFailureEvents :: "instant \<Rightarrow> duration \<Rightarrow> Failure list \<Rightarrow> failureEvent list" where
  "scheduleFailureEvents start scenarioDuration failures =
    sort_key event_key (concat (map (failure_events start scenarioDuration) failures))"

section \<open>Order and extent\<close>

lemma event_key_less:
  "event_key e < event_key e' \<longleftrightarrow> fe_at e < fe_at e' \<or> fe_at e = fe_at e' \<and> fe_activate e \<and> \<not> fe_activate e'"
  by (auto simp: event_key_def less_prod_def less_eq_prod_def)

lemma event_key_le:
  "event_key e \<le> event_key e' \<longleftrightarrow>
     fe_at e < fe_at e' \<or> fe_at e = fe_at e' \<and> (fe_activate e \<or> \<not> fe_activate e')"
  by (auto simp: event_key_def less_eq_prod_def)

lemma set_schedule:
  "set (scheduleFailureEvents start dur fs) = (\<Union>f \<in> set fs. set (failure_events start dur f))"
  by (auto simp: scheduleFailureEvents_def)

lemma sorted_schedule: "sorted (map event_key (scheduleFailureEvents start dur fs))"
  by (simp add: scheduleFailureEvents_def)

lemma mset_schedule:
  "mset (scheduleFailureEvents start dur fs) = (\<Sum>f \<in># mset fs. mset (failure_events start dur f))"
  by (simp add: scheduleFailureEvents_def) (induction fs, auto)

lemma failure_events_simps [simp]:
  "failure_events start dur f =
    [\<lparr>fe_at = start + f_Offset f, fe_activate = True, fe_failure = f\<rparr>,
     \<lparr>fe_at = start + f_Offset f + effectiveFailureDuration dur f, fe_activate = False, fe_failure = f\<rparr>]"
  by (simp add: failure_events_def time_Add_def Let_def)

lemma latest_max:
  "latestFailureEndOffset d fs = foldl max 0 (map (\<lambda>f. wrap64 (f_Offset f + effectiveFailureDuration d f)) fs)"
  unfolding latestFailureEndOffset_def Let_def by (rule foldl_max_map)

definition timeline_ok :: "duration \<Rightarrow> Failure list \<Rightarrow> bool" where
  "timeline_ok dur fs \<longleftrightarrow> 0 \<le> dur \<and>
     list_all (\<lambda>f. 0 \<le> f_Offset f \<and> in_int64 (f_Offset f + effectiveFailureDuration dur f)) fs"

lemma effective_nonneg: "0 \<le> dur \<Longrightarrow> 0 \<le> effectiveFailureDuration dur f"
  by (simp add: effectiveFailureDuration_def)

lemma schedule_within:
  assumes "timeline_ok dur fs" and "e \<in> set (scheduleFailureEvents start dur fs)"
  shows "start \<le> fe_at e \<and> fe_at e \<le> start + latestFailureEndOffset dur fs"
proof -
  from assms(2) obtain f where f: "f \<in> set fs" and e: "e \<in> set (failure_events start dur f)"
    by (auto simp: set_schedule)
  have r: "0 \<le> f_Offset f" "in_int64 (f_Offset f + effectiveFailureDuration dur f)"
    using assms(1) f by (auto simp: timeline_ok_def list_all_iff)
  have d: "0 \<le> effectiveFailureDuration dur f"
    using assms(1) by (simp add: timeline_ok_def effective_nonneg)
  have "f_Offset f + effectiveFailureDuration dur f \<le> latestFailureEndOffset dur fs"
    unfolding latest_max using f wrap64_id [OF r(2)] by (intro foldl_max_upper) force
  then show ?thesis using e r d by auto
qed

lemma schedule_length: "length (scheduleFailureEvents start dur fs) = 2 * length fs"
  by (simp add: scheduleFailureEvents_def) (induction fs, auto)

section \<open>What a member's registry sees\<close>

text \<open>
  \<open>specFor\<close> is the failure specification of the activation request the runner sends (see
  \<open>Runner\<close>); only its type, host and path decide the key. \<open>when\<close> gives the time at which the member
  handles the request of an event.
\<close>

definition event_op ::
  "(Failure \<Rightarrow> FailureSpec) \<Rightarrow> 64 word \<Rightarrow> (failureEvent \<Rightarrow> instant) \<Rightarrow> failureEvent \<Rightarrow> instant \<times> reg_op" where
  "event_op specFor seed when e =
    (let s = specFor (fe_failure e)
     in (when e, if fe_activate e then RSet s seed else RRemove (fs_Type s) (fs_Host s) (fs_Path s)))"

abbreviation key_of :: "(Failure \<Rightarrow> FailureSpec) \<Rightarrow> failureEvent \<Rightarrow> string" where
  "key_of specFor e \<equiv> failureKey (specFor (fe_failure e))"

lemma failureKey_of_spec [simp]:
  "failureKey (specOf (fs_Type s) (fs_Host s) (fs_Path s)) = failureKey s"
  by (simp add: failureKey_def specOf_def)

text \<open>The newest operation on a key decides; a removal leaves nothing.\<close>

lemma history_event:
  "history_view (event_op specFor seed when e # h) now k =
    (if key_of specFor e = k
     then (if fe_activate e \<and> \<not> now > when e + fs_Duration (specFor (fe_failure e))
           then Some (specFor (fe_failure e)) else None)
     else history_view h now k)"
  by (simp add: event_op_def Let_def)

lemma history_last:
  assumes "history_view (map (event_op specFor seed when) h) now k = Some s"
  shows "\<exists>us e vs. h = us @ e # vs \<and> key_of specFor e = k \<and> fe_activate e \<and> (\<forall>e' \<in> set us. key_of specFor e' \<noteq> k)"
  using assms
proof (induction h)
  case Nil
  then show ?case by simp
next
  case (Cons e h)
  show ?case
  proof (cases "key_of specFor e = k")
    case True
    then have "fe_activate e" using Cons.prems by (simp add: history_event split: if_splits)
    with True show ?thesis by (intro exI [of _ "[]"] exI [of _ e] exI [of _ h]) simp
  next
    case False
    then have "history_view (map (event_op specFor seed when) h) now k = Some s"
      using Cons.prems by (simp add: history_event)
    from Cons.IH [OF this] obtain us e' vs where "h = us @ e' # vs" "key_of specFor e' = k" "fe_activate e'"
      "\<forall>x \<in> set us. key_of specFor x \<noteq> k" by blast
    with False show ?thesis by (intro exI [of _ "e # us"] exI [of _ e'] exI [of _ vs]) simp
  qed
qed

lemma sorted_before:
  assumes "sorted (map key xs)" and "xs = us @ y # vs" and "z \<in> set xs" and "key y < key z"
  shows "z \<in> set vs"
proof -
  have "z \<notin> set us"
    using assms by (auto simp: sorted_append)
  then show ?thesis using assms by auto
qed

lemma schedule_drains:
  assumes "0 \<le> dur" and "\<forall>e \<in> set es. when e \<le> now" and es: "es = scheduleFailureEvents start dur fs"
  shows "registry_view (registry_run pc draw (map (event_op specFor seed when) es)) now k = None"
proof (rule ccontr)
  assume "registry_view (registry_run pc draw (map (event_op specFor seed when) es)) now k \<noteq> None"
  then obtain s where "history_view (map (event_op specFor seed when) (rev es)) now k = Some s"
    using assms(2) by (subst (asm) history_refinement) (auto simp: event_op_def Let_def rev_map)
  then obtain us e vs where split: "rev es = us @ e # vs" and e: "key_of specFor e = k" "fe_activate e"
    and later: "\<forall>e' \<in> set us. key_of specFor e' \<noteq> k"
    by (blast dest: history_last)
  have es': "es = rev vs @ e # rev us"
    using arg_cong [OF split, of rev] by simp
  then have "e \<in> set (scheduleFailureEvents start dur fs)"
    using es by auto
  then obtain f where f: "f \<in> set fs" "e \<in> set (failure_events start dur f)"
    unfolding set_schedule by blast
  define d where "d = \<lparr>fe_at = start + f_Offset f + effectiveFailureDuration dur f, fe_activate = False, fe_failure = f\<rparr>"
  have ef: "e = \<lparr>fe_at = start + f_Offset f, fe_activate = True, fe_failure = f\<rparr>"
    using f(2) e(2) by auto
  have "d \<in> set es"
    using f(1) unfolding es set_schedule by (auto simp: d_def)
  moreover have "event_key e < event_key d"
    using effective_nonneg [OF assms(1), of f] by (auto simp: event_key_less ef d_def)
  ultimately have "d \<in> set (rev us)"
    using sorted_before [of event_key es "rev vs" e "rev us" d] sorted_schedule es es' by blast
  then show False
    using later e(1) by (auto simp: d_def ef)
qed

section \<open>What the measurement engine sees\<close>

text \<open>The ground-truth row of an event, logged at time \<open>t\<close> with the parameters of the activation.\<close>

definition event_row :: "string \<Rightarrow> string \<Rightarrow> instant \<Rightarrow> json_column \<Rightarrow> failureEvent \<Rightarrow> GroundTruthEvent" where
  "event_row runID targetID t details e =
    \<lparr>ge_RunID = runID, ge_EventType = (if fe_activate e then ''failure_start'' else ''failure_end''),
     ge_TargetID = targetID, ge_FailureType = f_Type (fe_failure e), ge_OccurredAt = t, ge_Details = details\<rparr>"

abbreviation start_event :: "instant \<Rightarrow> Failure \<Rightarrow> failureEvent" where
  "start_event start f \<equiv> \<lparr>fe_at = start + f_Offset f, fe_activate = True, fe_failure = f\<rparr>"

abbreviation end_event :: "instant \<Rightarrow> duration \<Rightarrow> Failure \<Rightarrow> failureEvent" where
  "end_event start dur f \<equiv>
     \<lparr>fe_at = start + f_Offset f + effectiveFailureDuration dur f, fe_activate = False, fe_failure = f\<rparr>"

definition logged_window ::
  "instant \<Rightarrow> duration \<Rightarrow> (failureEvent \<Rightarrow> instant) \<Rightarrow> (failureEvent \<Rightarrow> json_column) \<Rightarrow> Failure \<Rightarrow> failureWindow" where
  "logged_window start dur time details f =
    \<lparr>fw_kind = f_Type f, fw_start = time (start_event start f), fw_end = time (end_event start dur f),
     fw_details = asStringMap (column (details (start_event start f)))\<rparr>"

lemma event_key_start_end: "0 \<le> dur \<Longrightarrow> event_key (start_event start f) < event_key (end_event start dur f)"
  using effective_nonneg [of dur f] by (auto simp: event_key_less)

lemma distinct_schedule:
  assumes "distinct fs"
  shows "distinct (scheduleFailureEvents start dur fs)"
proof -
  have "distinct (concat (map (failure_events start dur) fs))"
    using assms by (induction fs) auto
  then show ?thesis by (simp add: scheduleFailureEvents_def)
qed

lemma split_sides:
  assumes es: "scheduleFailureEvents start dur fs = p @ e # q" and "distinct fs" and "0 \<le> dur" and "f \<in> set fs"
  shows "e = start_event start f \<Longrightarrow> end_event start dur f \<notin> set p"
    and "e = end_event start dur f \<Longrightarrow> start_event start f \<in> set p \<and> e \<notin> set p"
proof -
  have mem: "start_event start f \<in> set (p @ e # q)" "end_event start dur f \<in> set (p @ e # q)"
    unfolding es [symmetric] set_schedule using assms(4) by (auto intro: bexI [of _ f])
  have dist: "distinct (p @ e # q)" using distinct_schedule [OF assms(2)] es by metis
  have sort: "sorted (map event_key (p @ e # q))" using sorted_schedule es by metis
  show "end_event start dur f \<notin> set p" if "e = start_event start f"
  proof -
    have "end_event start dur f \<in> set q"
      by (rule sorted_before [OF sort refl mem(2)]) (simp only: that event_key_start_end [OF assms(3)])
    then show ?thesis using dist by auto
  qed
  show "start_event start f \<in> set p \<and> e \<notin> set p" if e: "e = end_event start dur f"
  proof
    show "e \<notin> set p" using dist by simp
    show "start_event start f \<in> set p"
    proof (rule ccontr)
      assume "start_event start f \<notin> set p"
      then have "start_event start f \<in> set q" using mem(1) e by auto
      then have "event_key e \<le> event_key (start_event start f)" using sort by (auto simp: sorted_append)
      then show False using event_key_start_end [OF assms(3), of start f] e by simp
    qed
  qed
qed

definition log_inv ::
  "instant \<Rightarrow> duration \<Rightarrow> (failureEvent \<Rightarrow> instant) \<Rightarrow> (failureEvent \<Rightarrow> json_column) \<Rightarrow> Failure list \<Rightarrow>
   failureEvent list \<Rightarrow> window_state \<Rightarrow> bool" where
  "log_inv start dur time details fs p st \<longleftrightarrow>
    (\<forall>f \<in> set fs. map_of (ws_starts st) (f_Type f) =
       (if start_event start f \<in> set p \<and> end_event start dur f \<notin> set p
        then Some (time (start_event start f), asStringMap (column (details (start_event start f)))) else None)) \<and>
    mset (ws_windows st) =
      image_mset (logged_window start dur time details) (filter_mset (\<lambda>f. end_event start dur f \<in> set p) (mset fs))"

lemma filter_mset_one_more:
  assumes "distinct fs" and "g \<in> set fs" and "\<not> P g" and "\<And>f. f \<in> set fs \<Longrightarrow> Q f \<longleftrightarrow> P f \<or> f = g"
  shows "filter_mset Q (mset fs) = add_mset g (filter_mset P (mset fs))"
  using assms
proof (induction fs)
  case Nil
  then show ?case by simp
next
  case (Cons h fs)
  show ?case
  proof (cases "h = g")
    case True
    with Cons.prems have "\<And>f. f \<in> set fs \<Longrightarrow> Q f \<longleftrightarrow> P f" by auto
    then have "filter_mset Q (mset fs) = filter_mset P (mset fs)"
      by (intro filter_mset_cong) auto
    with True Cons.prems show ?thesis by auto
  next
    case False
    with Cons show ?thesis by auto
  qed
qed

lemma log_inv_step:
  assumes es: "scheduleFailureEvents start dur fs = p @ e # q" and dist: "distinct (map f_Type fs)" and "0 \<le> dur"
    and inv: "log_inv start dur time details fs p st"
  shows "log_inv start dur time details fs (p @ [e]) (window_step st (event_row r tg (time e) (details e) e))"
proof -
  have df: "distinct fs" using dist by (simp add: distinct_map)
  have inj: "f = g" if "f \<in> set fs" "g \<in> set fs" "f_Type f = f_Type g" for f g
    using dist that by (auto simp: distinct_map dest: inj_onD)
  have "e \<in> set (scheduleFailureEvents start dur fs)" using es by simp
  then obtain g where g: "g \<in> set fs" "e = start_event start g \<or> e = end_event start dur g"
    unfolding set_schedule by auto
  note starts = inv [unfolded log_inv_def, THEN conjunct1, rule_format]
    and wins = inv [unfolded log_inv_def, THEN conjunct2]
  from g(2) show ?thesis
  proof
    assume e: "e = start_event start g"
    have no: "end_event start dur g \<notin> set p"
      by (rule split_sides(1) [OF es df assms(3) g(1) e])
    have "map_of (AList.update (f_Type g) v (ws_starts st)) (f_Type f) =
        (if f = g then Some v else map_of (ws_starts st) (f_Type f))" if "f \<in> set fs" for f v
      using inj [OF that g(1)] by auto
    then show ?thesis
      using no wins starts by (auto simp: log_inv_def window_step_def event_row_def e)
  next
    assume e: "e = end_event start dur g"
    have p: "start_event start g \<in> set p" "e \<notin> set p"
      using split_sides(2) [OF es df assms(3) g(1) e] by auto
    have look: "map_of (ws_starts st) (f_Type g) =
        Some (time (start_event start g), asStringMap (column (details (start_event start g))))"
      using starts [OF g(1)] p e by simp
    have more: "filter_mset (\<lambda>f. end_event start dur f \<in> set (p @ [e])) (mset fs) =
        add_mset g (filter_mset (\<lambda>f. end_event start dur f \<in> set p) (mset fs))"
      using p(2) by (intro filter_mset_one_more [OF df g(1)]) (auto simp: e)
    have "map_of (AList.delete (f_Type g) (ws_starts st)) (f_Type f) =
        (if f = g then None else map_of (ws_starts st) (f_Type f))" if "f \<in> set fs" for f
      using inj [OF that g(1)] by auto
    then show ?thesis
      unfolding log_inv_def more
      using look wins starts p by (auto simp: window_step_def event_row_def e logged_window_def)
  qed
qed

lemma log_windows_prefix:
  assumes "distinct (map f_Type fs)" and "0 \<le> dur"
  shows "scheduleFailureEvents start dur fs = p @ q \<Longrightarrow> ws_starts st = [] \<Longrightarrow> ws_windows st = [] \<Longrightarrow>
    log_inv start dur time details fs p
      (foldl window_step st (map (\<lambda>e. event_row r tg (time e) (details e) e) p))"
proof (induction p arbitrary: q rule: rev_induct)
  case Nil
  then show ?case by (simp add: log_inv_def)
next
  case (snoc e p)
  from snoc.prems have "scheduleFailureEvents start dur fs = p @ e # q" by simp
  from log_inv_step [OF this assms snoc.IH [OF this snoc.prems(2,3)]] show ?case by simp
qed

lemma log_windows:
  assumes "distinct (map f_Type fs)" and "0 \<le> dur" and "ws_starts st = []" and "ws_windows st = []"
  shows "mset (ws_windows (foldl window_step st
      (map (\<lambda>e. event_row r tg (time e) (details e) e) (scheduleFailureEvents start dur fs)))) =
    image_mset (logged_window start dur time details) (mset fs)"
proof -
  have "filter_mset (\<lambda>f. end_event start dur f \<in> set (scheduleFailureEvents start dur fs)) (mset fs) = mset fs"
    by (auto simp: filter_mset_eq_conv set_schedule)
  then show ?thesis
    using log_windows_prefix [OF assms(1,2), of start "scheduleFailureEvents start dur fs" "[]" st time details r tg]
      assms(3,4)
    by (simp add: log_inv_def)
qed

section \<open>The time a member keeps a failure\<close>

text \<open>The duration sent with every activation of a run.\<close>

definition targetAutoExpiry :: "Scenario \<Rightarrow> duration" where
  "targetAutoExpiry sc =
    wrap64 (wrap64 (latestFailureEndOffset (sc_Duration sc) (sc_Failures sc) + sc_GracePeriod sc) + 30 * Second)"

lemma latest_attained:
  assumes "timeline_ok dur fs" and "fs \<noteq> []"
  shows "start + latestFailureEndOffset dur fs \<in> fe_at ` {e \<in> set (scheduleFailureEvents start dur fs). \<not> fe_activate e}"
proof -
  let ?stop = "\<lambda>f. wrap64 (f_Offset f + effectiveFailureDuration dur f)"
  have r: "?stop f = f_Offset f + effectiveFailureDuration dur f" "0 \<le> ?stop f" if "f \<in> set fs" for f
    using assms(1) that effective_nonneg [of dur f] by (auto simp: timeline_ok_def list_all_iff wrap64_id)
  have "\<exists>f \<in> set fs. latestFailureEndOffset dur fs = ?stop f"
  proof (cases "latestFailureEndOffset dur fs = 0")
    case True
    obtain f where f: "f \<in> set fs" using assms(2) by (cases fs) auto
    then have "?stop f \<le> latestFailureEndOffset dur fs"
      unfolding latest_max by (intro foldl_max_upper) auto
    with True r(2) [OF f] f show ?thesis by force
  next
    case False
    then show ?thesis
      using foldl_max_attained [of 0 "map ?stop fs"] unfolding latest_max by auto
  qed
  then obtain f where "f \<in> set fs" "latestFailureEndOffset dur fs = f_Offset f + effectiveFailureDuration dur f"
    using r by auto
  then show ?thesis
    by (intro image_eqI [of _ _ "end_event start dur f"]) (auto simp: set_schedule)
qed

definition example_fail :: "string \<Rightarrow> duration \<Rightarrow> duration \<Rightarrow> Failure" where
  "example_fail ty offset dur =
    \<lparr>f_Type = ty, f_Rate = Fin 1, f_Offset = offset, f_Duration = dur, f_StatusCode = 503, f_HeaderName = [],
     f_HeaderValue = [], f_Method = [], f_Phase = [], f_Delay = 0, f_TruncateAfterBytes = None, f_Variant = [],
     f_ChainLength = 0, f_Content = [], f_AddedLatency = 0, f_Mode = [], f_DaysExpired = 0,
     f_DaysRemaining = 0, f_Reason = [], f_Regions = []\<rparr>"

definition example_scenario :: "Failure list \<Rightarrow> Scenario" where
  "example_scenario fs = \<lparr>sc_ID = ''x'', sc_Version = ''1'', sc_Description = [], sc_Target = ''site'',
     sc_Monitors = [''m''], sc_MonitorKind = ''http'', sc_FreshHostname = False, sc_CheckFrequency = Minute,
     sc_GracePeriod = Minute, sc_Duration = 5 * Minute, sc_Seed = Some 1, sc_Failures = fs, sc_Keyword = [],
     sc_KeywordCheck = [], sc_ResponseTimeThreshold = 0, sc_RequestHeaders = [], sc_Maintenance = None\<rparr>"

text \<open>
  C20. The timeline of a run: two events per failure, sorted by time, none before the start and none
  after the latest failure end, which the last deactivation attains. A member that handles an
  activation at or after its scheduled time keeps the failure until at least thirty seconds
  after every scheduled deactivation, so the automatic expiry never cuts a failure short.
\<close>

theorem timeline_bounds:
  assumes "timeline_ok (sc_Duration sc) (sc_Failures sc)" and "sc_Failures sc \<noteq> []" and "0 \<le> sc_GracePeriod sc"
    and "latestFailureEndOffset (sc_Duration sc) (sc_Failures sc) + sc_GracePeriod sc + 30 * Second < 2 ^ 63"
    and es: "es = scheduleFailureEvents start (sc_Duration sc) (sc_Failures sc)"
  shows "length es = 2 * length (sc_Failures sc) \<and> sorted (map event_key es) \<and>
    (\<forall>e \<in> set es. start \<le> fe_at e \<and> fe_at e \<le> start + latestFailureEndOffset (sc_Duration sc) (sc_Failures sc)) \<and>
    fe_at (last es) = start + latestFailureEndOffset (sc_Duration sc) (sc_Failures sc) \<and> \<not> fe_activate (last es) \<and>
    (\<forall>a \<in> set es. \<forall>d \<in> set es. \<forall>now \<ge> fe_at a. fe_at d + 30 * Second \<le> now + targetAutoExpiry sc)"
proof -
  let ?L = "latestFailureEndOffset (sc_Duration sc) (sc_Failures sc)"
  have win: "start \<le> fe_at e \<and> fe_at e \<le> start + ?L" if "e \<in> set es" for e
    using schedule_within [OF assms(1)] that unfolding es by blast
  have L: "0 \<le> ?L" unfolding latest_max by (rule foldl_max_ge_init)
  have exp: "targetAutoExpiry sc = ?L + sc_GracePeriod sc + 30 * Second"
    using assms(3,4) L by (simp add: targetAutoExpiry_def wrap64_id in_int64_def)
  obtain d where d: "d \<in> set es" "\<not> fe_activate d" "fe_at d = start + ?L"
    using latest_attained [OF assms(1,2), of start] unfolding es by force
  have ne: "es \<noteq> []" using d(1) by auto
  have sort: "sorted (map event_key es)" unfolding es by (rule sorted_schedule)
  have "event_key d \<le> event_key (last es)"
    using sort d(1) ne by (cases es rule: rev_cases) (auto simp: sorted_append)
  then have last: "fe_at (last es) = start + ?L \<and> \<not> fe_activate (last es)"
    using win [OF last_in_set [OF ne]] d by (auto simp: event_key_le)
  have "fe_at d + 30 * Second \<le> now + targetAutoExpiry sc"
    if "a \<in> set es" "d \<in> set es" "fe_at a \<le> now" for a d now
    using win [OF that(1)] win [OF that(2)] that(3) exp assms(3) by simp
  with win last sort show ?thesis
    using schedule_length [of start "sc_Duration sc" "sc_Failures sc"] es by auto
qed

lemma timeline_bounds_witness:
  "fe_at (last (scheduleFailureEvents 100 (5 * Minute)
     [example_fail ''http_status'' 0 0, example_fail ''tcp_refused'' Minute (10 * Minute)])) = 100 + 11 * Minute"
proof -
  let ?sc = "example_scenario [example_fail ''http_status'' 0 0, example_fail ''tcp_refused'' Minute (10 * Minute)]"
  have L: "latestFailureEndOffset (sc_Duration ?sc) (sc_Failures ?sc) = 11 * Minute" by code_simp
  have "timeline_ok (sc_Duration ?sc) (sc_Failures ?sc)" "sc_Failures ?sc \<noteq> []" "0 \<le> sc_GracePeriod ?sc"
    by code_simp+
  moreover have "latestFailureEndOffset (sc_Duration ?sc) (sc_Failures ?sc) + sc_GracePeriod ?sc + 30 * Second < 2 ^ 63"
    unfolding L by (simp add: example_scenario_def)
  ultimately show ?thesis
    using timeline_bounds [OF _ _ _ _ refl, of ?sc 100] L by (simp add: example_scenario_def)
qed

text \<open>
  C21. Once a member has handled the events of a run, none of the run's failures is left on it: on
  every key the last operation of the timeline is a removal, whatever failures share the key
  and however late the member handles each request.
\<close>

theorem schedule_drains_registry:
  assumes "0 \<le> dur" and "\<forall>e \<in> set es. when e \<le> now" and "es = scheduleFailureEvents start dur fs"
  shows "registry_view (registry_run pc draw (map (event_op specFor seed when) es)) now k = None"
  using assms by (rule schedule_drains)

lemma schedule_drains_registry_witness:
  "registry_view (registry_run (\<lambda>c. None) (\<lambda>s n. 0) (map (event_op (\<lambda>f. specOf (f_Type f) ''h'' ''/'') 1 fe_at)
     (scheduleFailureEvents 0 5 [example_fail ''http_status'' 0 0]))) 100 ''k'' = None"
  by (rule schedule_drains_registry [OF _ _ refl]) (simp, code_simp)

lemma handoff_order:
  assumes "0 < effectiveFailureDuration dur f" and "0 < effectiveFailureDuration dur g"
    and "f_Offset g = f_Offset f + effectiveFailureDuration dur f"
  shows "scheduleFailureEvents start dur [f, g] =
    [start_event start f, start_event start g, end_event start dur f, end_event start dur g]"
  using assms
  by (simp add: scheduleFailureEvents_def event_key_def less_eq_prod_def)

text \<open>
  C38. A hand-over between two failures with the same key does not work: when one ends at the instant
  the other starts, the new activation is handled first and the deactivation of the old one
  then removes it, so the new failure is off for all of its window, while the ground truth
  has a start for it. Its window is lost there too: of the two failures the measurement
  engine sees a single window, and that one has the length of the hand-over.
\<close>

theorem handoff_lost:
  assumes "0 < effectiveFailureDuration dur f" and "0 < effectiveFailureDuration dur g"
    and "f_Offset g = f_Offset f + effectiveFailureDuration dur f"
    and "f_Type f = f_Type g" and "failureKey (specFor f) = failureKey (specFor g)"
    and "\<forall>e \<in> set (scheduleFailureEvents start dur [f, g]). when e \<le> now"
  shows "take 3 (scheduleFailureEvents start dur [f, g]) =
      [start_event start f, start_event start g, end_event start dur f] \<and>
    registry_view (registry_run pc draw (map (event_op specFor seed when)
      (take 3 (scheduleFailureEvents start dur [f, g])))) now (failureKey (specFor g)) = None \<and>
    map (\<lambda>w. (fw_start w, fw_end w)) (ws_windows (foldl window_step window_init
      (map (\<lambda>e. event_row r tg (time e) (details e) e) (scheduleFailureEvents start dur [f, g])))) =
      [(time (start_event start g), time (end_event start dur f))]"
proof (intro conjI)
  note order = handoff_order [OF assms(1-3), of start]
  show "take 3 (scheduleFailureEvents start dur [f, g]) =
      [start_event start f, start_event start g, end_event start dur f]"
    by (simp add: order)
  show "registry_view (registry_run pc draw (map (event_op specFor seed when)
      (take 3 (scheduleFailureEvents start dur [f, g])))) now (failureKey (specFor g)) = None"
    using assms(5,6) unfolding order
    by (subst history_refinement) (auto simp: event_op_def Let_def)
  show "map (\<lambda>w. (fw_start w, fw_end w)) (ws_windows (foldl window_step window_init
      (map (\<lambda>e. event_row r tg (time e) (details e) e) (scheduleFailureEvents start dur [f, g])))) =
      [(time (start_event start g), time (end_event start dur f))]"
    using assms(4) unfolding order
    by (simp add: window_step_def window_init_def event_row_def)
qed

lemma handoff_lost_witness:
  "registry_view (registry_run (\<lambda>c. None) (\<lambda>s n. 0) (map (event_op (\<lambda>f. specOf (f_Type f) ''h'' ''/'') 1 fe_at)
     (take 3 (scheduleFailureEvents 0 5 [example_fail ''http_status'' 0 0, example_fail ''http_status'' 5 5]))))
     100 (failureKey (specOf ''http_status'' ''h'' ''/'')) = None"
proof -
  let ?f = "example_fail ''http_status'' 0 0" and ?g = "example_fail ''http_status'' 5 5"
  have "0 < effectiveFailureDuration 5 ?f" "0 < effectiveFailureDuration 5 ?g"
    "f_Offset ?g = f_Offset ?f + effectiveFailureDuration 5 ?f" "f_Type ?f = f_Type ?g"
    "\<forall>e \<in> set (scheduleFailureEvents 0 5 [?f, ?g]). fe_at e \<le> 100"
    by code_simp+
  note facts = this
  have key: "failureKey (specOf (f_Type ?f) ''h'' ''/'') = failureKey (specOf (f_Type ?g) ''h'' ''/'')"
    and ty: "f_Type ?g = ''http_status''"
    by (simp_all add: example_fail_def)
  show ?thesis
    using handoff_lost [OF facts(1-4) _ facts(5), where specFor = "\<lambda>f. specOf (f_Type f) ''h'' ''/''"
        and pc = "\<lambda>c. None" and draw = "\<lambda>s n. 0" and seed = 1 and time = fe_at, OF key, THEN conjunct2, THEN conjunct1]
    unfolding ty .
qed

end
