(* ===== verification/Dns_Probe.thy ===== *)
theory Dns_Probe
  imports Run_Targets Dns_Server
begin

text \<open>
  The exposure check the runner makes after it has activated a DNS failure:
  \<open>src/internal/runner/dns_failure.go\<close>. It builds an A query, sends it to every selected nameserver
  and compares the answer with the requested failure. What the network does with a query is an
  argument, one of the four outcomes of dialling, writing and reading; everything else is the
  code's own: the query bytes, the reader of the response, the comparison.
\<close>

section \<open>The query\<close>

definition buildDNSAQuery :: "string \<Rightarrow> byte list" where
  "buildDNSAQuery host0 =
    (let host = TrimSuffix (TrimSpace host0) ''.''
     in [0x12, 0x34] @ [0x01, 0x00] @ [0x00, 0x01] @ [0x00, 0x00] @ [0x00, 0x00] @ [0x00, 0x00] @
        concat (map (\<lambda>label. byte_of_nat (length label) # bytes_of label) (Split CHR ''.'' host)) @
        [0x00] @ [0x00, 0x01] @ [0x00, 0x01])"

section \<open>The reader of the response\<close>

function skipDNSName :: "byte list \<Rightarrow> nat \<Rightarrow> nat option" where
  "skipDNSName msg pos =
    (if pos \<ge> length msg then None
     else
       let b = msg ! pos; l = unat b; pos1 = pos + 1 in
       if l = 0 then Some pos1
       else if b AND 0xC0 = 0xC0 then (if pos1 \<ge> length msg then None else Some (pos1 + 1))
       else if b AND 0xC0 \<noteq> 0 then None
       else if pos1 + l > length msg then None
       else skipDNSName msg (pos1 + l))"
  by pat_completeness auto
termination
  by (relation "measure (\<lambda>(msg, pos). length msg - pos)") auto

declare skipDNSName.simps [simp del]

definition be_at :: "byte list \<Rightarrow> nat \<Rightarrow> nat" where
  "be_at msg pos = unat (msg ! pos) * 256 + unat (msg ! (pos + 1))"

fun skip_questions :: "byte list \<Rightarrow> nat \<Rightarrow> nat \<Rightarrow> nat option" where
  "skip_questions msg 0 pos = Some pos"
| "skip_questions msg (Suc n) pos =
    (case skipDNSName msg pos of
       None \<Rightarrow> None
     | Some p \<Rightarrow> if p + 4 > length msg then None else skip_questions msg n (p + 4))"

fun read_answers :: "byte list \<Rightarrow> nat \<Rightarrow> nat \<Rightarrow> bool \<Rightarrow> bool \<times> string option" where
  "read_answers msg 0 pos hasCNAME = (hasCNAME, None)"
| "read_answers msg (Suc n) pos hasCNAME =
    (case skipDNSName msg pos of
       None \<Rightarrow> (hasCNAME, Some ''malformed DNS answer'')
     | Some p \<Rightarrow>
         if p + 10 > length msg then (hasCNAME, Some ''malformed DNS answer'')
         else
           let ty = be_at msg p; rdlen = be_at msg (p + 8); q = p + 10 in
           if q + rdlen > length msg then (hasCNAME, Some ''truncated DNS answer'')
           else read_answers msg n (q + rdlen) (hasCNAME \<or> ty = 5))"

definition parseDNSProbeResponse :: "byte list \<Rightarrow> (nat \<times> nat \<times> bool) \<times> string option" where
  "parseDNSProbeResponse msg =
    (if length msg < 12 then ((0, 0, False), Some ''short DNS response'')
     else
       let rcode = unat (msg ! 3 AND 0x0F); qdcount = be_at msg 4; answerCount = be_at msg 6 in
       case skip_questions msg qdcount 12 of
         None \<Rightarrow> ((rcode, answerCount, False), Some ''malformed DNS question'')
       | Some pos \<Rightarrow>
           (case read_answers msg answerCount pos False of
              (hasCNAME, err) \<Rightarrow> ((rcode, answerCount, hasCNAME), err)))"

section \<open>The probe\<close>

record dnsExposureCheck =
  xc_NameserverID :: string
  xc_Address :: string
  xc_Observable :: bool
  xc_Error :: string
  xc_RCode :: nat
  xc_AnswerCount :: nat
  xc_HasCNAME :: bool
  xc_ElapsedMS :: int

record dnsExposureResult =
  xr_Host :: string
  xr_FailureType :: string
  xr_Observable :: bool
  xr_Reason :: string
  xr_Checks :: "dnsExposureCheck list"

text \<open>What happens on the wire, with the milliseconds since the query was about to be written.\<close>

datatype probe_io =
    Dial_error string
  | Write_error string int
  | Read_error string int
  | Received "byte list" int

definition JoinHostPort :: "string \<Rightarrow> int \<Rightarrow> string" where
  "JoinHostPort host port =
    (if CHR '':'' \<in> set host then ''['' @ host @ '']:'' @ show_int port else host @ '':'' @ show_int port)"

definition probeAuthoritativeDNS ::
  "(controlMember \<Rightarrow> byte list \<Rightarrow> duration \<Rightarrow> probe_io) \<Rightarrow> controlMember \<Rightarrow> string \<Rightarrow> duration \<Rightarrow> dnsExposureCheck" where
  "probeAuthoritativeDNS net m host timeout =
    (let check = \<lparr>xc_NameserverID = cmb_ID m, xc_Address = JoinHostPort (cmb_Address m) (cmb_DNSPort m),
           xc_Observable = False, xc_Error = [], xc_RCode = 0, xc_AnswerCount = 0, xc_HasCNAME = False,
           xc_ElapsedMS = 0\<rparr>
     in case net m (buildDNSAQuery host) timeout of
          Dial_error e \<Rightarrow> check\<lparr>xc_Error := e\<rparr>
        | Write_error e ms \<Rightarrow> check\<lparr>xc_Error := e, xc_ElapsedMS := ms\<rparr>
        | Read_error e ms \<Rightarrow> check\<lparr>xc_Error := e, xc_ElapsedMS := ms\<rparr>
        | Received msg ms \<Rightarrow>
            (case parseDNSProbeResponse (take 1500 msg) of
               ((rcode, answers, cname), err) \<Rightarrow>
                 check\<lparr>xc_Error := (case err of None \<Rightarrow> [] | Some e \<Rightarrow> e), xc_RCode := rcode,
                   xc_AnswerCount := answers, xc_HasCNAME := cname, xc_ElapsedMS := ms\<rparr>))"

definition isTimeoutErrorText :: "string \<Rightarrow> bool" where
  "isTimeoutErrorText s0 = (let s = ToLower s0 in
     sublist ''timeout'' s \<or> sublist ''i/o timeout'' s \<or> sublist ''deadline exceeded'' s)"

definition dnsProbeMatchesFailure :: "Failure \<Rightarrow> dnsExposureCheck \<Rightarrow> bool" where
  "dnsProbeMatchesFailure f check =
    (if f_Type f = ''dns_nxdomain'' then xc_Error check = [] \<and> xc_RCode check = 3
     else if f_Type f = ''dns_servfail'' then xc_Error check = [] \<and> xc_RCode check = 2
     else if f_Type f = ''dns_timeout'' then isTimeoutErrorText (xc_Error check)
     else if f_Type f = ''dns_cname_nxdomain''
     then xc_Error check = [] \<and> xc_RCode check = 0 \<and> xc_HasCNAME check
     else if f_Type f = ''dns_latency'' then
       (if xc_Error check \<noteq> [] \<or> xc_RCode check \<noteq> 0 then False
        else let minLatency = wrap64 (f_AddedLatency f - 25 * Millisecond);
                 minLatency = (if minLatency < 0 then 0 else minLatency)
             in wrap64 (xc_ElapsedMS check * Millisecond) \<ge> minLatency)
     else if f_Type f = ''dns_ns_unavailable'' then
       (if f_Mode f = ''servfail'' then xc_Error check = [] \<and> xc_RCode check = 2
        else isTimeoutErrorText (xc_Error check))
     else False)"

definition dnsExposureProbeTimeout :: "Failure \<Rightarrow> duration \<Rightarrow> duration" where
  "dnsExposureProbeTimeout f controlTimeout =
    (let timeout = (if controlTimeout > 0 \<and> controlTimeout < 3 * Second then controlTimeout else 3 * Second)
     in if f_Type f = ''dns_latency'' \<and> f_AddedLatency f > 0 \<and> timeout \<le> f_AddedLatency f then
          (let timeout = wrap64 (f_AddedLatency f + Second)
           in if controlTimeout > 0 \<and> timeout > controlTimeout then controlTimeout else timeout)
        else timeout)"

definition checkDNSFailureExposure ::
  "(controlMember \<Rightarrow> byte list \<Rightarrow> duration \<Rightarrow> probe_io) \<Rightarrow> Failure \<Rightarrow> string \<Rightarrow> controlMember list \<Rightarrow>
   duration \<Rightarrow> dnsExposureResult" where
  "checkDNSFailureExposure net f host members controlTimeout =
    (let result = \<lparr>xr_Host = host, xr_FailureType = f_Type f, xr_Observable = True, xr_Reason = [], xr_Checks = []\<rparr>
     in if TrimSpace host = [] then result\<lparr>xr_Observable := False, xr_Reason := ''empty DNS host''\<rparr>
        else if members = [] then
          result\<lparr>xr_Observable := False, xr_Reason := ''no DNS control members selected''\<rparr>
        else
          let timeout = dnsExposureProbeTimeout f controlTimeout;
              checks = map (\<lambda>m. let check = probeAuthoritativeDNS net m host timeout
                  in check\<lparr>xc_Observable := dnsProbeMatchesFailure f check\<rparr>)
                (filter (\<lambda>m. cmb_Kind m = ''dns'') members);
              observable = list_all xc_Observable checks
          in if checks = [] then
               result\<lparr>xr_Observable := False, xr_Reason := ''no DNS members were probed''\<rparr>
             else result\<lparr>xr_Observable := observable, xr_Checks := checks,
                    xr_Reason := (if observable then []
                      else ''authoritative DNS response did not match requested failure'')\<rparr>)"

section \<open>The reader agrees with the strict reader\<close>

text \<open>
  Positions into the message against suffixes of it: whatever \<open>read_name\<close>, \<open>read_question\<close> and
  \<open>read_rr\<close> accept, the probe's loops step over in the same way.
\<close>

lemma read16_drop: "read16 (drop p msg) = Some (v, r) \<longleftrightarrow> p + 2 \<le> length msg \<and> v = be_at msg p \<and> r = drop (p + 2) msg"
proof (cases "p + 2 \<le> length msg")
  case True
  then have "drop p msg = msg ! p # msg ! Suc p # drop (Suc (Suc p)) msg"
    by (simp add: Cons_nth_drop_Suc)
  then show ?thesis using True by (auto simp: be_at_def)
next
  case False
  then have "length (drop p msg) < 2" by simp
  then have "read16 (drop p msg) = None" by (cases "drop p msg" rule: read16.cases) auto
  then show ?thesis using False by simp
qed

lemma read32_drop: "read32 (drop p msg) = Some (v, r) \<Longrightarrow> p + 4 \<le> length msg \<and> r = drop (p + 4) msg"
proof -
  assume a: "read32 (drop p msg) = Some (v, r)"
  then obtain b0 b1 b2 b3 where d: "drop p msg = b0 # b1 # b2 # b3 # r"
    by (cases "drop p msg" rule: read32.cases) auto
  then have "length (drop p msg) = 4 + length r" by simp
  moreover have "drop 4 (drop p msg) = r" by (simp add: d numeral_eq_Suc)
  ultimately show ?thesis by (auto simp: add.commute)
qed

lemma skip_reads_name:
  "read_name (drop pos msg) = Some (n, r) \<Longrightarrow> \<exists>p. skipDNSName msg pos = Some p \<and> p \<le> length msg \<and> r = drop p msg"
proof (induction msg pos arbitrary: n r rule: skipDNSName.induct)
  case (1 msg pos)
  have lt: "pos < length msg"
    using "1.prems" by (cases "pos < length msg") (simp_all add: read_name.simps)
  let ?b = "msg ! pos" and ?l = "unat (msg ! pos)"
  have d: "drop pos msg = ?b # drop (Suc pos) msg"
    using lt by (simp add: Cons_nth_drop_Suc)
  note name = "1.prems" [unfolded d read_name.simps [of "?b # drop (Suc pos) msg"], simplified]
  show ?case
  proof (cases "?l = 0")
    case True
    then have "?b = 0" by (simp add: unsigned_eq_0_iff)
    then show ?thesis using name lt by (subst skipDNSName.simps) simp
  next
    case nz: False
    then have b0: "?b \<noteq> 0" by auto
    show ?thesis
    proof (cases "?b AND 0xC0 = 0xC0")
      case True
      then obtain c where "drop (Suc pos) msg = c # r"
        using name b0 by (cases "drop (Suc pos) msg") (simp_all split: list.splits)
      then have "Suc pos < length msg" "drop (Suc (Suc pos)) msg = r"
        by (metis drop_eq_Nil list.distinct(1) not_le) (metis drop_Suc list.sel(3) tl_drop \<open>drop (Suc pos) msg = c # r\<close>)
      then show ?thesis using True nz lt by (subst skipDNSName.simps) (simp add: Let_def)
    next
      case False
      have len: "\<not> ?l > 63" "?l \<le> length msg - Suc pos"
        using name b0 False by (auto split: if_splits)
      then obtain n' where rec: "read_name (drop (pos + 1 + ?l) msg) = Some (n', r)"
        using name b0 False by (auto simp: add.commute split: if_splits option.splits)
      have "list_all (\<lambda>n. (of_nat n :: byte) AND 0xC0 = 0) [0 ..< 64]" by code_simp
      then have "(of_nat ?l :: byte) AND 0xC0 = 0" using len(1) unfolding list_all_iff by (auto dest!: bspec [of _ _ ?l])
      then have m: "?b AND 0xC0 = 0" by simp
      have "\<exists>p. skipDNSName msg (pos + 1 + ?l) = Some p \<and> p \<le> length msg \<and> r = drop p msg"
        by (rule "1.IH" [OF _ refl refl refl nz False _ _ rec]) (use m len lt in auto)
      then show ?thesis using nz False m len lt by (subst skipDNSName.simps) (simp add: Let_def)
    qed
  qed
qed

lemma skip_reads_question:
  "read_question (drop pos msg) = Some (q, r) \<Longrightarrow>
     \<exists>p. skipDNSName msg pos = Some p \<and> p + 4 \<le> length msg \<and> r = drop (p + 4) msg"
  by (auto simp: read_question_def add.commute split: option.splits if_splits dest!: skip_reads_name)

lemma skip_questions_reads:
  "decode_seq read_question n (drop pos msg) = Some (qs, r) \<Longrightarrow>
     \<exists>p. skip_questions msg n pos = Some p \<and> (n = 0 \<or> p \<le> length msg) \<and> r = drop p msg"
proof (induction n arbitrary: pos qs r)
  case 0
  then show ?case by simp
next
  case (Suc n)
  then obtain q r1 qs' where q: "read_question (drop pos msg) = Some (q, r1)"
    and rest: "decode_seq read_question n r1 = Some (qs', r)"
    by (auto split: option.splits)
  obtain p where p: "skipDNSName msg pos = Some p" "p + 4 \<le> length msg" "r1 = drop (p + 4) msg"
    using skip_reads_question [OF q] by blast
  from Suc.IH [OF rest [unfolded p(3)]] obtain p' where
    "skip_questions msg n (p + 4) = Some p'" "n = 0 \<or> p' \<le> length msg" "r = drop p' msg" by blast
  then show ?case using p by (cases n) auto
qed

lemma read_answer_step:
  assumes "read_rr (drop pos msg) = Some (x, r)"
  shows "\<exists>p. skipDNSName msg pos = Some p \<and> p + 10 + be_at msg (p + 8) \<le> length msg \<and>
    be_at msg p = rr_type x \<and> r = drop (p + 10 + be_at msg (p + 8)) msg"
proof -
  from assms obtain n r0 ty r1 cl r2 ttl r3 len r4 where
    n: "read_name (drop pos msg) = Some (n, r0)" and ty: "read16 r0 = Some (ty, r1)"
    and cl: "read16 r1 = Some (cl, r2)" and ttl: "read32 r2 = Some (ttl, r3)" and len: "read16 r3 = Some (len, r4)"
    and fin: "len \<le> length r4" "rr_type x = ty" "r = drop len r4"
    by (auto simp: read_rr_def split: option.splits if_splits)
  obtain p where p: "skipDNSName msg pos = Some p" "p \<le> length msg" "r0 = drop p msg"
    using skip_reads_name [OF n] by blast
  have 1: "p + 2 \<le> length msg" "ty = be_at msg p" "r1 = drop (p + 2) msg"
    using ty unfolding p(3) read16_drop by auto
  have 2: "r2 = drop (p + 4) msg"
    using cl unfolding 1(3) read16_drop by (simp add: numeral_eq_Suc)
  have 3: "r3 = drop (p + 8) msg"
    using read32_drop [OF ttl [unfolded 2]] by (simp add: add.commute)
  have 4: "p + 10 \<le> length msg" "len = be_at msg (p + 8)" "r4 = drop (p + 10) msg"
    using len unfolding 3 read16_drop by (auto simp: add.commute)
  show ?thesis
    using p 1 4 fin by (intro exI [of _ p]) (auto simp: add.commute)
qed

lemma read_answers_reads:
  "decode_seq read_rr n (drop pos msg) = Some (xs, r) \<Longrightarrow>
     read_answers msg n pos c = (c \<or> (\<exists>x \<in> set xs. rr_type x = 5), None)"
proof (induction n arbitrary: pos xs r c)
  case 0
  then show ?case by simp
next
  case (Suc n)
  then obtain x r1 xs' where x: "read_rr (drop pos msg) = Some (x, r1)"
    and rest: "decode_seq read_rr n r1 = Some (xs', r)" and xs: "xs = x # xs'"
    by (auto split: option.splits)
  obtain p where p: "skipDNSName msg pos = Some p" "p + 10 + be_at msg (p + 8) \<le> length msg"
    "be_at msg p = rr_type x" "r1 = drop (p + 10 + be_at msg (p + 8)) msg"
    using read_answer_step [OF x] by blast
  then show ?case
    using Suc.IH [OF rest [unfolded p(4)]] xs by (auto simp: Let_def)
qed

lemma decode_seq_length: "decode_seq dec n bs = Some (xs, r) \<Longrightarrow> length xs = n"
  by (induction n arbitrary: bs xs r) (auto split: option.splits)

lemma probe_reads:
  assumes "read_message msg = Some m"
  shows "parseDNSProbeResponse msg =
    ((unat (dm_flags m ! 1 AND 0x0F), length (dm_answer m), \<exists>x \<in> set (dm_answer m). rr_type x = 5), None)"
proof -
  from assms obtain qd r1 an r2 ns r3 ar r4 q r5 a r6 au r7 where
    l: "12 \<le> length msg" and qd: "read16 (drop 4 msg) = Some (qd, r1)" and an: "read16 r1 = Some (an, r2)"
    and ns: "read16 r2 = Some (ns, r3)" and ar: "read16 r3 = Some (ar, r4)"
    and q: "decode_seq read_question qd r4 = Some (q, r5)" and a: "decode_seq read_rr an r5 = Some (a, r6)"
    and m: "dm_answer m = a" "dm_flags m = take 2 (drop 2 msg)"
    by (auto simp: read_message_def not_less split: option.splits if_splits)
  have 1: "qd = be_at msg 4" "r1 = drop 6 msg" using qd unfolding read16_drop by auto
  have 2: "an = be_at msg 6" "r2 = drop 8 msg" using an unfolding 1(2) read16_drop by auto
  have 3: "r3 = drop 10 msg" using ns unfolding 2(2) read16_drop by auto
  have 4: "r4 = drop 12 msg" using ar unfolding 3 read16_drop by auto
  obtain p where p: "skip_questions msg qd 12 = Some p" "r5 = drop p msg"
    using skip_questions_reads [OF q [unfolded 4]] by blast
  have "read_answers msg an p False = (\<exists>x \<in> set a. rr_type x = 5, None)"
    using read_answers_reads [OF a [unfolded p(2)], of False] by simp
  moreover have "dm_flags m ! 1 = msg ! 3" using l by (simp add: m)
  moreover have "length a = an" by (rule decode_seq_length [OF a])
  ultimately show ?thesis
    using l p 1 2 m by (simp add: parseDNSProbeResponse_def Let_def)
qed

section \<open>The probe against the server\<close>

definition host_ok :: "string \<Rightarrow> bool" where
  "host_ok host \<longleftrightarrow> name_ok host \<and> TrimSpace host = host"

lemma probe_query:
  assumes "host_ok host"
  shows "parseQueryName (buildDNSAQuery host) = (ToLower host, 1, 12 + length (encodeName host) + 4)"
    and "length (buildDNSAQuery host) = 12 + length (encodeName host) + 4"
    and "length (encodeName host) \<le> 255"
proof -
  let ?ls = "Split CHR ''.'' host"
  let ?hdr = "[0x12, 0x34, 0x01, 0x00, 0x00, 0x01, 0x00, 0x00, 0x00, 0x00, 0x00, 0x00] :: byte list"
  have ls: "?ls \<noteq> []" "\<forall>l \<in> set ?ls. label_ok l" and j: "Join ?ls ''.'' = host" and name: "name_ok host"
    using assms by (auto simp: host_ok_def name_ok_def list_all_iff Join_Split)
  have trim: "TrimSuffix (TrimSpace host) ''.'' = host"
    using Join_last [OF ls] assms by (auto simp: j host_ok_def intro: TrimSuffix_dot_id)
  have one: "be16 (Suc 0) = [0, 1]" by code_simp
  have q: "buildDNSAQuery host = ?hdr @ encodeName host @ be16 1 @ be16 1"
    using encodeName_Join [OF ls]
    by (simp add: buildDNSAQuery_def trim j encode_label_def [abs_def] one)
  show "parseQueryName (buildDNSAQuery host) = (ToLower host, 1, 12 + length (encodeName host) + 4)"
    using parseQueryName_encoded [of ?hdr ?ls 1 1 "[]", OF _ ls] unfolding q j by simp
  show "length (buildDNSAQuery host) = 12 + length (encodeName host) + 4" by (simp add: q)
  show "length (encodeName host) \<le> 255" by (rule name_ok_wire(2) [OF name])
qed

text \<open>A reply on its way back to the probe: nothing comes, or its bytes arrive.\<close>

definition deliver :: "reply \<Rightarrow> int \<Rightarrow> probe_io" where
  "deliver rep ms = (case rep of Reply bs \<Rightarrow> Received bs ms | _ \<Rightarrow> Read_error ''read udp: i/o timeout'' ms)"

lemma probe_of_reply:
  assumes "net m (buildDNSAQuery host) timeout = deliver (Reply bs) ms" and "length bs \<le> 1500"
    and "read_message bs = Some (message query rc qs ans auth)"
  shows "xc_Error (probeAuthoritativeDNS net m host timeout) = []"
    and "xc_RCode (probeAuthoritativeDNS net m host timeout) = unat (rc AND 0x0F)"
    and "xc_HasCNAME (probeAuthoritativeDNS net m host timeout) \<longleftrightarrow> (\<exists>x \<in> set ans. rr_type x = 5)"
  using assms probe_reads [OF assms(3)]
  by (simp_all add: probeAuthoritativeDNS_def deliver_def Let_def message_def)

lemma probe_of_silence:
  assumes "net m (buildDNSAQuery host) timeout = deliver Drop ms"
  shows "xc_Error (probeAuthoritativeDNS net m host timeout) = ''read udp: i/o timeout''"
  using assms by (simp add: probeAuthoritativeDNS_def deliver_def Let_def)

lemma timeout_text: "isTimeoutErrorText ''read udp: i/o timeout''" "\<not> isTimeoutErrorText []"
  by code_simp+

text \<open>The answer each verdict of the server should give the probe.\<close>

definition expected :: "string \<Rightarrow> string \<Rightarrow> bool \<Rightarrow> verdict \<Rightarrow> bool" where
  "expected t mode missing v =
    (if t = ''dns_nxdomain'' then v = Fail 3 \<or> v = Genuine \<and> missing
     else if t = ''dns_servfail'' then v = Fail 2
     else if t = ''dns_timeout'' then v = NoReply
     else if t = ''dns_cname_nxdomain'' then v = DeadCname
     else if t = ''dns_ns_unavailable'' then (if mode = ''servfail'' then v = Fail 2 else v = NoReply)
     else False)"

lemma verdict_cases: "verdict active False \<in> {NoReply, Fail 2, Fail 3, DeadCname, Genuine}"
  by (simp add: verdict_def dns_rules_def)

lemma rcode_values:
  "unat (0 AND 0x0F :: byte) = 0" "unat ((2 AND 0x0F) AND 0x0F :: byte) = 2" "unat ((3 AND 0x0F) AND 0x0F :: byte) = 3"
  "unat (3 AND 0x0F :: byte) = 3"
  by code_simp+

lemma response_lengths:
  assumes "length query \<le> 300" and "12 \<le> length query"
  shows "errorResponse query qEnd rc = Some bs \<Longrightarrow> length bs \<le> 1500"
    and "cnameNXDomainResponse query qEnd ttl = Some bs \<Longrightarrow> length bs \<le> 1500"
    and "aResponse query qEnd ip ttl = Some bs \<Longrightarrow> length ip = 4 \<Longrightarrow> length bs \<le> 1500"
    and "nxdomainWithSOA query qEnd apex = Some bs \<Longrightarrow> apex_ok apex \<Longrightarrow> length bs \<le> 1500"
proof -
  have s: "length q \<le> 300" if "slice query 12 qEnd = Some q" for q
    using that assms by (auto simp: slice_def split: if_splits)
  show "errorResponse query qEnd rc = Some bs \<Longrightarrow> length bs \<le> 1500"
    using assms by (auto simp: errorResponse_def Let_def header_def dest!: s split: if_splits option.splits)
  show "cnameNXDomainResponse query qEnd ttl = Some bs \<Longrightarrow> length bs \<le> 1500"
    using assms by (auto simp: cnameNXDomainResponse_def header_def rr_bytes_def qptr_def cnameTarget_def
        bytes_of_def dest!: s split: option.splits)
  show "aResponse query qEnd ip ttl = Some bs \<Longrightarrow> length ip = 4 \<Longrightarrow> length bs \<le> 1500"
    using assms by (auto simp: aResponse_def header_def rr_bytes_def qptr_def To4_def dest!: s split: option.splits)
  show "nxdomainWithSOA query qEnd apex = Some bs \<Longrightarrow> apex_ok apex \<Longrightarrow> length bs \<le> 1500"
    using assms name_ok_wire(2) [of "za_Name apex"] name_ok_wire(2) [of "soa_MName (za_SOA apex)"]
      name_ok_wire(2) [of "soa_RName (za_SOA apex)"]
    by (auto simp: nxdomainWithSOA_def header_def rr_bytes_def soaRDATA_def apex_ok_def soa_ok_def
        dest!: s split: option.splits)
qed

lemma genuine_reads:
  assumes q: "parseQueryName query = (name, 1, qEnd)" and "qEnd \<noteq> 0" and "12 \<le> length query" and "length query \<le> 300"
    and z: "\<And>z. zones = Some z \<Longrightarrow> zones_ok z \<and> zones_safe z"
  obtains bs ans auth where "authoritative query name 1 qEnd zones ks ks' = Some bs" "length bs \<le> 1500"
    "read_message bs = Some (message query (if LookupA zones name = Some None then 3 else 0)
       [question query qEnd] ans auth)" "\<not> (\<exists>x \<in> set ans. rr_type x = 5)"
proof -
  have apex: "apex_answer query name 1 qEnd zones ks = None" by (simp add: apex_answer_def)
  show thesis
  proof (cases "LookupA zones name")
    case None
    then obtain z' where "zones = Some z'" by (cases zones) (auto simp: LookupA_def)
    then show ?thesis using None z LookupA_total [of z' name] by simp
  next
    case (Some e)
    show ?thesis
    proof (cases e)
      case none: None
      from negative_answer_reads [OF q assms(2,3), of zones ks'] z obtain resp auth where
        r: "negative_answer query name qEnd zones ks' = Some resp"
        "read_message resp = Some (message query 3 [question query qEnd] [] auth)" by blast
      have "length resp \<le> 1500"
      proof (cases "LookupApex zones ks' name")
        case None
        then show ?thesis using r(1) response_lengths(1) [OF assms(4,3)] by (simp add: negative_answer_def)
      next
        case a: (Some apex)
        then obtain z' where "zones = Some z'" by (auto simp: LookupApex_def split: option.splits)
        then have "apex_ok apex" using a z LookupApex_ok by blast
        then show ?thesis using r(1) a response_lengths(4) [OF assms(4,3)] by (simp add: negative_answer_def)
      qed
      then show ?thesis
        using r Some none apex by (intro that [of resp "[]" auth]) (simp_all add: authoritative_def)
    next
      case e: (Some x)
      then obtain z' where z': "zones = Some z'" using Some by (cases zones) (auto simp: LookupA_def)
      then have ip: "length (ze_IP x) = 4" "ze_TTL x < 4294967296"
        using z Some e LookupA_ok by blast+
      from aResponse_reads [OF q assms(2,3) ip] obtain resp where
        r: "aResponse query qEnd (ze_IP x) (ze_TTL x) = Some resp"
        "read_message resp = Some (message query 0 [question query qEnd] [rr_of 1 (ze_TTL x) (ze_IP x)] [])" by blast
      have "length resp \<le> 1500" by (rule response_lengths(3) [OF assms(4,3) r(1) ip(1)])
      then show ?thesis
        using r Some e apex by (intro that [of resp "[rr_of 1 (ze_TTL x) (ze_IP x)]" "[]"])
          (simp_all add: authoritative_def rr_of_def)
    qed
  qed
qed

lemma sees_error:
  assumes "parseQueryName (buildDNSAQuery host) = (name, qtype, qEnd)"
    and "12 \<le> length (buildDNSAQuery host)" and "length (buildDNSAQuery host) \<le> 300"
    and io: "net m (buildDNSAQuery host) timeout = deliver (reply_of (errorResponse (buildDNSAQuery host) qEnd rc)) ms"
    and c: "c = probeAuthoritativeDNS net m host timeout"
  shows "xc_Error c = [] \<and> xc_RCode c = unat ((rc AND 0x0F) AND 0x0F) \<and> \<not> xc_HasCNAME c"
proof -
  obtain bs where bs: "errorResponse (buildDNSAQuery host) qEnd rc = Some bs"
    "read_message bs = Some (message (buildDNSAQuery host) (rc AND 0x0F)
       (if qEnd = 0 then [] else [question (buildDNSAQuery host) qEnd]) [] [])"
    using errorResponse_reads [OF assms(1,2), of rc] by blast
  have d: "net m (buildDNSAQuery host) timeout = deliver (Reply bs) ms" using io bs(1) by (simp add: reply_of_def)
  show ?thesis
    using probe_of_reply [of net m host timeout bs ms, OF d response_lengths(1) [OF assms(3,2) bs(1)] bs(2)] c by simp
qed

lemma sees_cname:
  assumes "parseQueryName (buildDNSAQuery host) = (name, qtype, qEnd)" and "qEnd \<noteq> 0"
    and "12 \<le> length (buildDNSAQuery host)" and "length (buildDNSAQuery host) \<le> 300" and "ttl < 4294967296"
    and io: "net m (buildDNSAQuery host) timeout =
      deliver (reply_of (cnameNXDomainResponse (buildDNSAQuery host) qEnd ttl)) ms"
    and c: "c = probeAuthoritativeDNS net m host timeout"
  shows "xc_Error c = [] \<and> xc_RCode c = 0 \<and> xc_HasCNAME c"
proof -
  obtain bs where bs: "cnameNXDomainResponse (buildDNSAQuery host) qEnd ttl = Some bs"
    "read_message bs = Some (message (buildDNSAQuery host) 0 [question (buildDNSAQuery host) qEnd]
       [rr_of 5 ttl cnameTarget] [])"
    using cnameNXDomainResponse_reads [OF assms(1,2,3,5)] by blast
  have d: "net m (buildDNSAQuery host) timeout = deliver (Reply bs) ms" using io bs(1) by (simp add: reply_of_def)
  show ?thesis
    using probe_of_reply [of net m host timeout bs ms, OF d response_lengths(2) [OF assms(4,3) bs(1)] bs(2)] c
    by (simp add: rr_of_def rcode_values)
qed

lemma sees_genuine:
  assumes "parseQueryName (buildDNSAQuery host) = (name, 1, qEnd)" and "qEnd \<noteq> 0"
    and "12 \<le> length (buildDNSAQuery host)" and "length (buildDNSAQuery host) \<le> 300"
    and "\<And>z. zones = Some z \<Longrightarrow> zones_ok z \<and> zones_safe z"
    and io: "net m (buildDNSAQuery host) timeout =
      deliver (reply_of (authoritative (buildDNSAQuery host) name 1 qEnd zones ks ks')) ms"
    and c: "c = probeAuthoritativeDNS net m host timeout"
  shows "xc_Error c = [] \<and> xc_RCode c = (if LookupA zones name = Some None then 3 else 0) \<and> \<not> xc_HasCNAME c"
proof -
  obtain bs ans auth where bs: "authoritative (buildDNSAQuery host) name 1 qEnd zones ks ks' = Some bs"
    "length bs \<le> 1500"
    "read_message bs = Some (message (buildDNSAQuery host) (if LookupA zones name = Some None then 3 else 0)
       [question (buildDNSAQuery host) qEnd] ans auth)" "\<not> (\<exists>x \<in> set ans. rr_type x = 5)"
    by (rule genuine_reads [OF assms(1-5)]) blast
  have d: "net m (buildDNSAQuery host) timeout = deliver (Reply bs) ms" using io bs(1) by (simp add: reply_of_def)
  show ?thesis
    using probe_of_reply [of net m host timeout bs ms, OF d bs(2,3)] bs(4) c by (simp add: rcode_values)
qed

lemma probe_matches:
  assumes "host_ok host" and "\<And>z. zones = Some z \<Longrightarrow> zones_ok z \<and> zones_safe z"
    and active: "active = (\<lambda>ft. fst (dns_lookup draw now r ft))"
    and net: "net m (buildDNSAQuery host) timeout =
      deliver (fst (fst (BuildResponse draw now ks ks' (buildDNSAQuery host) r zones txts))) ms"
    and "f_Type f \<noteq> ''dns_latency''"
  shows "dnsProbeMatchesFailure f (probeAuthoritativeDNS net m host timeout) \<longleftrightarrow>
    expected (f_Type f) (f_Mode f) (LookupA zones (ToLower host) = Some None) (verdict active False)"
proof -
  let ?q = "buildDNSAQuery host" and ?c = "probeAuthoritativeDNS net m host timeout"
  define qEnd where "qEnd = 12 + length (encodeName host) + 4"
  note pq = probe_query [OF assms(1), folded qEnd_def]
  have len: "12 \<le> length ?q" "length ?q \<le> 300" "qEnd \<noteq> 0"
    using pq(2,3) by (auto simp: qEnd_def)
  have ne: "ToLower host \<noteq> []" using assms(1) by (auto simp: host_ok_def name_ok_def label_ok_def)
  have ttl: "cname_ttl zones (ToLower host) < 4294967296"
    using assms(2) map_of_Records_ok by (auto simp: cname_ttl_def split: option.splits)
  have "acme_answer ?q (ToLower host) 1 qEnd txts = None" by (simp add: acme_answer_def)
  from BuildResponse_table [OF len(1) pq(1) this active, of ks ks' zones] ne len(3)
  have io: "net m ?q timeout = deliver (case verdict active False of NoReply \<Rightarrow> Drop
     | Fail rc \<Rightarrow> reply_of (errorResponse ?q qEnd rc)
     | DeadCname \<Rightarrow> reply_of (cnameNXDomainResponse ?q qEnd (cname_ttl zones (ToLower host)))
     | Genuine \<Rightarrow> reply_of (authoritative ?q (ToLower host) 1 qEnd zones ks ks')) ms"
    unfolding net by (cases "verdict active False") simp_all
  note matches = dnsProbeMatchesFailure_def expected_def timeout_text rcode_values
  consider "verdict active False = NoReply" | rc where "verdict active False = Fail rc" "rc = 2 \<or> rc = 3"
    | "verdict active False = DeadCname" | "verdict active False = Genuine"
    using verdict_cases [of active] by auto
  then show ?thesis
  proof cases
    case 1
    then show ?thesis using probe_of_silence [of net m host timeout ms] io assms(5) by (simp add: matches)
  next
    case 2
    then show ?thesis
      using sees_error [OF pq(1) len(1,2) _ refl, of net m timeout rc ms] io assms(5) by (auto simp: matches)
  next
    case 3
    then show ?thesis
      using sees_cname [OF pq(1) len(3,1,2) ttl _ refl, of net m timeout ms] io assms(5) by (simp add: matches)
  next
    case 4
    then show ?thesis
      using sees_genuine [OF pq(1) len(3,1,2) assms(2) _ refl, where net = net and m = m and timeout = timeout and ks = ks
          and ks' = ks' and ms = ms] io assms(5)
      by (auto simp: matches)
  qed
qed

text \<open>The failure types whose answer the probe looks at.\<close>

definition exposed_types :: "string list" where
  "exposed_types = [''dns_nxdomain'', ''dns_servfail'', ''dns_timeout'', ''dns_cname_nxdomain'', ''dns_ns_unavailable'']"

text \<open>Of the failures that a nameserver answers from, exactly the requested one is active, in its mode.\<close>

definition only_injected :: "(string \<Rightarrow> FailureSpec option) \<Rightarrow> Failure \<Rightarrow> bool" where
  "only_injected active f \<longleftrightarrow> f_Type f \<in> set exposed_types \<and>
    (\<forall>t \<in> set exposed_types. active t \<noteq> None \<longleftrightarrow> t = f_Type f) \<and>
    (f_Type f = ''dns_ns_unavailable'' \<longrightarrow>
      (as_string (dget (fs_Params (the (active ''dns_ns_unavailable''))) ''mode'') = ''servfail'' \<longleftrightarrow> f_Mode f = ''servfail''))"

lemma only_injected_expected:
  assumes "only_injected active f"
  shows "expected (f_Type f) (f_Mode f) missing (verdict active False)"
proof -
  have all: "\<And>t. t \<in> set exposed_types \<Longrightarrow> active t \<noteq> None \<longleftrightarrow> t = f_Type f" and ty: "f_Type f \<in> set exposed_types"
    using assms by (simp_all add: only_injected_def)
  note on = all [of "''dns_nxdomain''"] all [of "''dns_servfail''"] all [of "''dns_timeout''"] all [of "''dns_cname_nxdomain''"]
    all [of "''dns_ns_unavailable''"]
  from ty consider "f_Type f = ''dns_nxdomain''" | "f_Type f = ''dns_servfail''" | "f_Type f = ''dns_timeout''"
    | "f_Type f = ''dns_cname_nxdomain''" | "f_Type f = ''dns_ns_unavailable''"
    by (auto simp: exposed_types_def)
  then show ?thesis
  proof cases
    case 5
    then obtain s where "active ''dns_ns_unavailable'' = Some s" using on(5) by (auto simp: exposed_types_def)
    then show ?thesis using on 5 assms
      by (simp add: exposed_types_def expected_def verdict_def dns_rules_def only_injected_def)
  qed (use on in \<open>simp_all add: exposed_types_def expected_def verdict_def dns_rules_def\<close>)
qed

lemma none_injected_unexpected:
  "\<forall>t \<in> set exposed_types. active t = None \<Longrightarrow> \<not> expected ty mode False (verdict active False)"
  by (auto simp: exposed_types_def expected_def verdict_def dns_rules_def)


text \<open>A nameserver with an injected NXDOMAIN: the probe for it matches, the one for a SERVFAIL does not.\<close>

definition nx_registry :: registry where
  "nx_registry = [(''dns_nxdomain::'', \<lparr>af_spec = specOf ''dns_nxdomain'' [] [], af_expires = 9, af_rng = None, af_nets = []\<rparr>)]"

definition probe_failure :: "string \<Rightarrow> Failure" where
  "probe_failure ty =
    \<lparr>f_Type = ty, f_Rate = Fin 1, f_Offset = 0, f_Duration = 0, f_StatusCode = 0, f_HeaderName = [],
     f_HeaderValue = [], f_Method = [], f_Phase = [], f_Delay = 0, f_TruncateAfterBytes = None, f_Variant = [],
     f_ChainLength = 0, f_Content = [], f_AddedLatency = 0, f_Mode = [], f_DaysExpired = 0,
     f_DaysRemaining = 0, f_Reason = [], f_Regions = []\<rparr>"

definition probe_net :: "controlMember \<Rightarrow> byte list \<Rightarrow> duration \<Rightarrow> probe_io" where
  "probe_net m q timeout =
     deliver (fst (fst (BuildResponse (\<lambda>_ _. 0) (\<lambda>_. 5) [] [] q nx_registry (Some demo_zones) None))) 3"


end
