(* ===== verification/Dns_Baseline.thy ===== *)
theory Dns_Baseline
  imports Run_Targets
begin

text \<open>
  The DNS baseline a TLS-only run samples (\<open>src/internal/runner/dns_baseline.go\<close>): which resolvers it
  asks, how their configuration is read, and what one sample says. The lookup of a resolver
  (the system resolver, a UDP resolver, or a command over ssh) is an argument that gives the
  answers or an error; so are \<open>json\<close>, which is \<open>json.Unmarshal\<close> into a list of strings, and \<open>ip4\<close>, which is
  \<open>net.ParseIP\<close> followed by \<open>To4\<close> and \<open>String\<close>. The sampling inside a run is in \<open>Runner\<close>.
\<close>

section \<open>Records\<close>

record dnsBaselineResolver =
  br_ID :: string
  br_Kind :: string
  br_Address :: string
  br_SSHHost :: string

record dnsBaselineCheck =
  bc_ResolverID :: string
  bc_ResolverKind :: string
  bc_Address :: string
  bc_SSHHost :: string
  bc_Status :: string
  bc_Answers :: "string list"
  bc_Error :: string

record dnsBaselineResult =
  bres_Host :: string
  bres_Phase :: string
  bres_Stable :: bool
  bres_Reason :: string
  bres_Checks :: "dnsBaselineCheck list"

record dnsBaselinePlan =
  bp_host :: string
  bp_resolvers :: "dnsBaselineResolver list"
  bp_unstable :: bool
  bp_unstablePhases :: "string list"
  bp_lastResult :: "dnsBaselineResult option"
  bp_samples :: nat

section \<open>Reading the configuration\<close>

definition trim_set :: "string \<Rightarrow> string \<Rightarrow> string" where
  "trim_set chars s = rev (dropWhile (\<lambda>c. c \<in> set chars) (rev (dropWhile (\<lambda>c. c \<in> set chars) s)))"

abbreviation quote_chars :: string where "quote_chars \<equiv> [CHR 0x22, CHR 0x27]"

text \<open>\<open>strings.FieldsFunc\<close>: the maximal runs of characters that are not separators.\<close>

fun fields_by :: "(char \<Rightarrow> bool) \<Rightarrow> string \<Rightarrow> string \<Rightarrow> string list" where
  "fields_by sep acc [] = (if acc = [] then [] else [rev acc])"
| "fields_by sep acc (c # cs) =
    (if sep c then (if acc = [] then fields_by sep [] cs else rev acc # fields_by sep [] cs)
     else fields_by sep (c # acc) cs)"

definition list_separator :: "char \<Rightarrow> bool" where
  "list_separator c \<longleftrightarrow> c = CHR '','' \<or> c = CHR '';'' \<or> c = CHR 0x0A \<or> c = CHR 0x09 \<or> c = CHR '' ''"

definition parseDNSBaselineList :: "(string \<Rightarrow> string list option) \<Rightarrow> string \<Rightarrow> string list" where
  "parseDNSBaselineList json raw0 =
    (let raw = TrimSpace raw0 in
     if raw = [] then []
     else case json raw of
       Some values \<Rightarrow> values
     | None \<Rightarrow>
         let raw = (if HasPrefix raw ''['' \<and> HasSuffix raw '']''
               then TrimPrefix (TrimSuffix raw '']'') ''['' else raw)
         in filter (\<lambda>f. f \<noteq> []) (map (\<lambda>f. trim_set quote_chars (TrimSpace f)) (fields_by list_separator [] raw)))"

definition joinHostPort :: "string \<Rightarrow> string \<Rightarrow> string" where
  "joinHostPort host port =
    (if CHR '':'' \<in> set host then ''['' @ host @ '']:'' @ port else host @ '':'' @ port)"

definition normalizeResolverAddress :: "string \<Rightarrow> string" where
  "normalizeResolverAddress raw0 =
    (let raw = trim_set quote_chars (TrimSpace raw0) in
     if raw = [] then []
     else case SplitHostPort raw of
       Some (host, port) \<Rightarrow>
         if TrimSpace host = [] then []
         else joinHostPort host (if TrimSpace port = [] then ''53'' else port)
     | None \<Rightarrow>
         (case Split CHR '':'' raw of
            [a, b] \<Rightarrow> if a \<noteq> [] \<and> b \<noteq> [] then joinHostPort a b else joinHostPort (trim_set ''[]'' raw) ''53''
          | _ \<Rightarrow> joinHostPort (trim_set ''[]'' raw) ''53''))"

definition svc_auth :: "Service \<Rightarrow> string \<Rightarrow> string" where
  "svc_auth s k = (case map_of (svc_Auth s) k of None \<Rightarrow> [] | Some v \<Rightarrow> v)"

definition add_trimmed :: "string list \<Rightarrow> string \<Rightarrow> string list" where
  "add_trimmed out value0 = (let value = TrimSpace value0 in
     if value = [] then out else add_new out value)"

definition configuredDNSBaselineValues ::
  "(string \<Rightarrow> string list option) \<Rightarrow> Scenario \<Rightarrow> Service list option \<Rightarrow> string list \<Rightarrow> string list" where
  "configuredDNSBaselineValues json sc svcCfg keys =
    (case svcCfg of None \<Rightarrow> []
     | Some services \<Rightarrow>
         foldl (\<lambda>out svc.
           if \<not> svc_Enabled svc \<or> svc_Type svc \<noteq> ''jetmon-v2'' then out
           else if sc_Monitors sc \<noteq> [] \<and> svc_ID svc \<notin> set (sc_Monitors sc) then out
           else foldl (\<lambda>out key. foldl add_trimmed out (parseDNSBaselineList json (svc_auth svc key))) out keys)
         [] services)"

definition configuredDNSBaselineMonitorHosts ::
  "(string \<Rightarrow> string list option) \<Rightarrow> Scenario \<Rightarrow> Service list option \<Rightarrow> string list" where
  "configuredDNSBaselineMonitorHosts json sc svcCfg = configuredDNSBaselineValues json sc svcCfg
     [''dns_baseline_ssh_host'', ''dns_baseline_monitor_host'', ''monitor_host'']"

definition configuredDNSBaselineResolvers ::
  "(string \<Rightarrow> string list option) \<Rightarrow> Scenario \<Rightarrow> Service list option \<Rightarrow> string list" where
  "configuredDNSBaselineResolvers json sc svcCfg =
    foldl (\<lambda>out value. let addr = normalizeResolverAddress value in
        if addr = [] then out else add_new out addr) []
      (configuredDNSBaselineValues json sc svcCfg
        [''dns_baseline_resolvers'', ''check_dns_resolvers'', ''dns_resolvers''])"

section \<open>The plan\<close>

definition scenarioIsTLSOnly :: "Scenario \<Rightarrow> bool" where
  "scenarioIsTLSOnly sc \<longleftrightarrow> sc_Failures sc \<noteq> [] \<and> list_all (\<lambda>f. HasPrefix (f_Type f) ''tls_'') (sc_Failures sc)"

definition resolver_key :: "dnsBaselineResolver \<Rightarrow> string" where
  "resolver_key r = br_Kind r @ NUL @ br_Address r @ NUL @ br_SSHHost r"

fun dedupe_loop :: "string list \<Rightarrow> dnsBaselineResolver list \<Rightarrow> dnsBaselineResolver list" where
  "dedupe_loop seen [] = []"
| "dedupe_loop seen (r # rs) =
    (if resolver_key r \<in> set seen then dedupe_loop seen rs else r # dedupe_loop (resolver_key r # seen) rs)"

definition dedupeDNSBaselineResolvers :: "dnsBaselineResolver list \<Rightarrow> dnsBaselineResolver list" where
  "dedupeDNSBaselineResolvers rs = dedupe_loop [] rs"

definition system_resolvers :: "string list \<Rightarrow> dnsBaselineResolver list" where
  "system_resolvers monitorHosts =
    (if monitorHosts = []
     then [\<lparr>br_ID = ''harness-system'', br_Kind = ''harness_system'', br_Address = [], br_SSHHost = []\<rparr>]
     else map (\<lambda>h. \<lparr>br_ID = ''monitor-system:'' @ h, br_Kind = ''monitor_system'', br_Address = [], br_SSHHost = h\<rparr>)
       monitorHosts)"

definition configured_resolvers :: "string list \<Rightarrow> string list \<Rightarrow> dnsBaselineResolver list" where
  "configured_resolvers monitorHosts configured =
    concat (map (\<lambda>addr.
      if monitorHosts = []
      then [\<lparr>br_ID = ''configured:'' @ addr, br_Kind = ''configured'', br_Address = addr, br_SSHHost = []\<rparr>]
      else map (\<lambda>h. \<lparr>br_ID = ''monitor-configured:'' @ h @ '':'' @ addr, br_Kind = ''monitor_configured'',
             br_Address = addr, br_SSHHost = h\<rparr>) monitorHosts) configured)"

definition authoritative_resolvers :: "Nameserver list \<Rightarrow> dnsBaselineResolver list" where
  "authoritative_resolvers nss =
    map (\<lambda>ns. let port = (if ns_DNSPort ns = 0 then 53 else ns_DNSPort ns) in
        \<lparr>br_ID = ''authoritative:'' @ ns_ID ns, br_Kind = ''authoritative'',
         br_Address = joinHostPort (ns_Address ns) (show_int port), br_SSHHost = []\<rparr>)
      (filter (\<lambda>ns. TrimSpace (ns_Address ns) \<noteq> []) nss)"

definition newDNSBaselinePlan ::
  "(string \<Rightarrow> string list option) \<Rightarrow> Scenario \<Rightarrow> Config \<Rightarrow> Service list option \<Rightarrow> string \<Rightarrow> dnsBaselinePlan option" where
  "newDNSBaselinePlan json sc fc svcCfg host =
    (if \<not> scenarioIsTLSOnly sc \<or> TrimSpace host = [] then None
     else
       let monitorHosts = configuredDNSBaselineMonitorHosts json sc svcCfg;
           resolvers = dedupeDNSBaselineResolvers
             (system_resolvers monitorHosts @
              configured_resolvers monitorHosts (configuredDNSBaselineResolvers json sc svcCfg) @
              authoritative_resolvers (cfg_Nameservers fc))
       in if resolvers = [] then None
          else Some \<lparr>bp_host = host, bp_resolvers = resolvers, bp_unstable = False, bp_unstablePhases = [],
                     bp_lastResult = None, bp_samples = 0\<rparr>)"

section \<open>A sample\<close>

definition normalizeDNSAnswers :: "(string \<Rightarrow> string option) \<Rightarrow> string list \<Rightarrow> string list" where
  "normalizeDNSAnswers ip4 answers =
    sort (foldl (\<lambda>out a. case ip4 (TrimSpace a) of
        None \<Rightarrow> out | Some v \<Rightarrow> add_new out v) [] answers)"

definition resolver_check ::
  "(string \<Rightarrow> string option) \<Rightarrow> string list result \<Rightarrow> dnsBaselineResolver \<Rightarrow> dnsBaselineCheck" where
  "resolver_check ip4 reply r =
    (let check = \<lparr>bc_ResolverID = br_ID r, bc_ResolverKind = br_Kind r, bc_Address = br_Address r,
           bc_SSHHost = br_SSHHost r, bc_Status = ''ok'', bc_Answers = [], bc_Error = []\<rparr>;
         reply = (if br_Kind r \<in> {''harness_system'', ''configured'', ''authoritative'', ''monitor_system'',
             ''monitor_configured''} then reply else Inl ''unsupported DNS baseline resolver kind'')
     in case reply of
          Inl e \<Rightarrow> check\<lparr>bc_Status := ''error'', bc_Error := e\<rparr>
        | Inr answers \<Rightarrow>
            (let as = normalizeDNSAnswers ip4 answers in
             if as = [] then check\<lparr>bc_Status := ''error'', bc_Error := ''no A answers'', bc_Answers := as\<rparr>
             else check\<lparr>bc_Answers := as\<rparr>))"

definition baseline_result :: "string \<Rightarrow> string \<Rightarrow> dnsBaselineCheck list \<Rightarrow> dnsBaselineResult" where
  "baseline_result host phase checks =
    (let failed = map bc_ResolverID (filter (\<lambda>c. bc_Status c \<noteq> ''ok'') checks)
     in \<lparr>bres_Host = host, bres_Phase = phase, bres_Stable = (checks \<noteq> [] \<and> failed = []),
         bres_Reason = (if checks = [] then ''no DNS baseline resolvers configured''
           else if failed \<noteq> [] then ''failed checks: '' @ Join failed '', '' else []),
         bres_Checks = checks\<rparr>)"

definition baseline_update :: "dnsBaselinePlan \<Rightarrow> string \<Rightarrow> dnsBaselineResult \<Rightarrow> dnsBaselinePlan" where
  "baseline_update p phase result =
    (let p = p\<lparr>bp_samples := Suc (bp_samples p), bp_lastResult := Some result\<rparr>
     in if bres_Stable result then p
        else p\<lparr>bp_unstable := True, bp_unstablePhases := bp_unstablePhases p @ [phase]\<rparr>)"

definition unstable_phases :: "dnsBaselinePlan \<Rightarrow> string list" where
  "unstable_phases p = foldl add_new [] (bp_unstablePhases p)"

section \<open>Lemmas\<close>

lemma dedupe_loop_set: "resolver_key ` set (dedupe_loop seen rs) = resolver_key ` set rs - set seen"
proof (induction rs arbitrary: seen)
  case (Cons r rs)
  show ?case
    by (cases "resolver_key r \<in> set seen") (auto simp: Cons.IH)
qed simp

lemma dedupe_loop_distinct: "distinct (map resolver_key (dedupe_loop seen rs))"
  by (induction rs arbitrary: seen) (auto simp: dedupe_loop_set)

lemma plan_resolvers:
  assumes "newDNSBaselinePlan json sc fc svcCfg host = Some p"
  shows "distinct (map resolver_key (bp_resolvers p))" and "bp_resolvers p \<noteq> []" and "\<not> bp_unstable p"
  using assms dedupe_loop_distinct
  by (auto simp: newDNSBaselinePlan_def dedupeDNSBaselineResolvers_def Let_def split: if_splits)

lemma unstable_iff:
  "bp_unstable (baseline_update p phase r) \<longleftrightarrow> bp_unstable p \<or> \<not> bres_Stable r"
  by (simp add: baseline_update_def Let_def)

end
