(* ===== verification/Runner.thy ===== *)
theory Runner
  imports Run_Schedule Dns_Probe Dns_Baseline ControlPlane
begin

text \<open>
  The execution of one scenario: \<open>Run\<close> of \<open>src/internal/runner/runner.go\<close> with everything it calls in
  that package. Each call that leaves the process (the clock, the database, an adapter, a
  fleet member, a resolver, a wait) is one step of a trace, recorded with its outcome. What the
  outside answers is a \<open>world\<close>: a function from the trace so far, so that any behaviour, however it
  depends on what the run did before, is some world. A definition takes the state of the run
  and gives \<open>Some\<close> value to go on, or \<open>None\<close> where the code returns early; the resolution reason
  and the error returned are in the state. The two deferred calls run at the end, the cleanup
  first. The goroutines of the cleanup touch one monitor each and are run one after the other.
\<close>

section \<open>What crosses the boundary\<close>

datatype details =
    No_details
  | Reason_details string
  | Failure_details params "string list option" "dnsExposureResult option"
  | Baseline_details dnsBaselineResult
  | Exposure_details string dnsExposureResult
  | Unstable_details string nat "string list" "dnsBaselineResult option"
  | Adapter_details params

record EventRow =
  er_RunID :: string
  er_EventType :: string
  er_TargetID :: string
  er_FailureType :: string
  er_OccurredAt :: instant
  er_Details :: details

record ReportRow =
  pr_RunID :: string
  pr_ServiceID :: string
  pr_RetrieveStatus :: string
  pr_RetrieveUnknownReason :: string
  pr_ReasonCode :: string
  pr_EventType :: string
  pr_RawClassification :: string
  pr_NormalizedClassification :: string
  pr_ReportedAt :: "instant option"
  pr_RetrievedAt :: instant
  pr_Metadata :: details

record RunRecord =
  run_ID :: string
  run_ScenarioID :: string
  run_ScenarioVersion :: string
  run_Seed :: int
  run_TargetID :: string
  run_CampaignID :: string
  run_Parameters :: params
  run_StartedAt :: instant

record Capabilities =
  cp_MinCheckFrequency :: duration
  cp_MonitorKinds :: "string list"
  cp_SupportsKeyword :: bool
  cp_SupportsInvertedKeyword :: bool
  cp_SupportsMaintenanceWindows :: bool
  cp_SupportsCooldownReset :: bool
  cp_SupportsResponseTimeThreshold :: bool
  cp_SupportsRequestHeaders :: bool
  cp_DefaultMaxCallsPerRun :: int

record AdapterTarget =
  at_ID :: string
  at_URL :: string

record ProvisionConfig =
  pc_CheckFrequency :: duration
  pc_MonitorKind :: string
  pc_Keyword :: string
  pc_KeywordCheck :: string
  pc_ForbiddenKeywords :: "string list"
  pc_ResponseTimeThreshold :: duration
  pc_RequestHeaders :: "(string \<times> string) list"
  pc_MaintenanceWindow :: "MaintenanceWindow option"

record MonitorHandle =
  mh_ServiceID :: string
  mh_MonitorID :: string
  mh_Fields :: "(string \<times> string) list"

record MonitorReport =
  rep_EventType :: string
  rep_RawClassification :: string
  rep_ReportedAt :: instant
  rep_Metadata :: params

record RetrieveResult =
  rr_Status :: string
  rr_Reports :: "MonitorReport list"
  rr_Reason :: string
  rr_ReasonCode :: string
  rr_Metadata :: details

record RunWindow =
  rw_RunID :: string
  rw_FailureStarted :: instant
  rw_FailureEnded :: instant
  rw_GracePeriodEnd :: instant

record adapter =
  ad_ServiceID :: string
  ad_Capabilities :: Capabilities
  ad_Normalize :: "string \<Rightarrow> string"

record provisioned =
  pv_adapter :: adapter
  pv_handle :: MonitorHandle

text \<open>The steps of a run, each with the outcome the world gave it.\<close>

datatype step =
    Clock instant
  | Waited duration bool
  | InsertRun RunRecord "string option"
  | InsertEvent EventRow "string option"
  | InsertReport ReportRow "string option"
  | CloseRun string instant string "string option"
  | Provision string AdapterTarget ProvisionConfig "MonitorHandle result"
  | Retrieve string MonitorHandle RunWindow "RetrieveResult result"
  | Deprovision string MonitorHandle "string option"
  | Activate Client controlMember ActivateRequest "string option"
  | Deactivate Client controlMember DeactivateRequest "string option"
  | Probed dnsExposureResult
  | Looked_up dnsBaselineResolver "string list result"

type_synonym trace = "step list"

record world =
  w_now :: "trace \<Rightarrow> instant"
  w_wait :: "trace \<Rightarrow> duration \<Rightarrow> bool"
  w_ticks :: "trace \<Rightarrow> duration \<Rightarrow> nat"
  w_ctx_err :: "trace \<Rightarrow> string option"
  w_insert_run :: "trace \<Rightarrow> RunRecord \<Rightarrow> string option"
  w_insert_event :: "trace \<Rightarrow> EventRow \<Rightarrow> string option"
  w_insert_report :: "trace \<Rightarrow> ReportRow \<Rightarrow> string option"
  w_close_run :: "trace \<Rightarrow> string option"
  w_provision :: "trace \<Rightarrow> string \<Rightarrow> AdapterTarget \<Rightarrow> ProvisionConfig \<Rightarrow> MonitorHandle result"
  w_retrieve :: "trace \<Rightarrow> string \<Rightarrow> MonitorHandle \<Rightarrow> RunWindow \<Rightarrow> RetrieveResult result"
  w_deprovision :: "trace \<Rightarrow> string \<Rightarrow> MonitorHandle \<Rightarrow> string option"
  w_activate :: "trace \<Rightarrow> controlMember \<Rightarrow> ActivateRequest \<Rightarrow> string option"
  w_deactivate :: "trace \<Rightarrow> controlMember \<Rightarrow> DeactivateRequest \<Rightarrow> string option"
  w_net :: "trace \<Rightarrow> controlMember \<Rightarrow> byte list \<Rightarrow> duration \<Rightarrow> probe_io"
  w_lookup :: "trace \<Rightarrow> dnsBaselineResolver \<Rightarrow> string \<Rightarrow> string list result"
  w_token_file :: "string \<Rightarrow> string result"
  w_ip4 :: "string \<Rightarrow> string option"
  w_json_list :: "string \<Rightarrow> string list option"
  w_sha :: hash
  w_sprintf :: sprintf

section \<open>State and control flow\<close>

record run_state =
  rs_trace :: trace
  rs_reason :: string
  rs_error :: "string option"
  rs_handles :: "provisioned list"
  rs_started :: instant
  rs_ended :: instant
  rs_baseline :: "dnsBaselinePlan option"
  rs_baselineActive :: int

type_synonym 'a act = "run_state \<Rightarrow> 'a option \<times> run_state"

definition ret :: "'a \<Rightarrow> 'a act" where
  "ret x s = (Some x, s)"

definition andThen :: "'a act \<Rightarrow> ('a \<Rightarrow> 'b act) \<Rightarrow> 'b act" where
  "andThen m f s = (case m s of (None, s') \<Rightarrow> (None, s') | (Some x, s') \<Rightarrow> f x s')"

text \<open>\<open>resolutionReason = reason; return runID, err\<close>.\<close>

definition exit_with :: "string \<Rightarrow> string option \<Rightarrow> 'a act" where
  "exit_with reason err s = (None, s\<lparr>rs_reason := reason, rs_error := err\<rparr>)"

definition set_reason :: "string \<Rightarrow> unit act" where
  "set_reason reason s = (Some (), s\<lparr>rs_reason := reason\<rparr>)"

definition get :: "(run_state \<Rightarrow> 'a) \<Rightarrow> 'a act" where
  "get f s = (Some (f s), s)"

text \<open>One step: ask the world, append the step, return the outcome.\<close>

definition ask :: "(trace \<Rightarrow> 'a) \<Rightarrow> ('a \<Rightarrow> step) \<Rightarrow> 'a act" where
  "ask f mk s = (let r = f (rs_trace s) in (Some r, s\<lparr>rs_trace := rs_trace s @ [mk r]\<rparr>))"

fun each :: "('a \<Rightarrow> unit act) \<Rightarrow> 'a list \<Rightarrow> unit act" where
  "each f [] = ret ()"
| "each f (x # xs) = andThen (f x) (\<lambda>_. each f xs)"

definition Now :: "world \<Rightarrow> instant act" where
  "Now w = ask (w_now w) Clock"

section \<open>Logging\<close>

definition logEvent :: "world \<Rightarrow> string \<Rightarrow> string \<Rightarrow> string \<Rightarrow> string \<Rightarrow> details \<Rightarrow> string option act" where
  "logEvent w runID targetID eventType failureType details =
    andThen (Now w) (\<lambda>t.
      let row = \<lparr>er_RunID = runID, er_EventType = eventType, er_TargetID = targetID, er_FailureType = failureType,
            er_OccurredAt = t, er_Details = details\<rparr>
      in andThen (ask (\<lambda>tr. w_insert_event w tr row) (InsertEvent row)) (\<lambda>err.
        ret (map_option (\<lambda>e. ''ground_truth_log_failure: '' @ eventType @ '': '' @ e) err)))"

text \<open>Log an event, and abort the run when the ground truth cannot be written.\<close>

definition mustLog :: "world \<Rightarrow> string \<Rightarrow> string \<Rightarrow> string \<Rightarrow> string \<Rightarrow> details \<Rightarrow> unit act" where
  "mustLog w runID targetID eventType failureType details =
    andThen (logEvent w runID targetID eventType failureType details) (\<lambda>err.
      case err of None \<Rightarrow> ret () | Some e \<Rightarrow> exit_with ''ground_truth_log_failure'' (Some e))"

definition insertReport :: "world \<Rightarrow> ReportRow \<Rightarrow> unit act" where
  "insertReport w row = andThen (ask (\<lambda>tr. w_insert_report w tr row) (InsertReport row)) (\<lambda>_. ret ())"

definition report_row :: "string \<Rightarrow> adapter \<Rightarrow> RetrieveResult \<Rightarrow> instant \<Rightarrow> MonitorReport \<Rightarrow> ReportRow" where
  "report_row runID a result now r =
    \<lparr>pr_RunID = runID, pr_ServiceID = ad_ServiceID a, pr_RetrieveStatus = rr_Status result,
     pr_RetrieveUnknownReason = rr_Reason result, pr_ReasonCode = rr_ReasonCode result,
     pr_EventType = rep_EventType r, pr_RawClassification = rep_RawClassification r,
     pr_NormalizedClassification = ad_Normalize a (rep_RawClassification r),
     pr_ReportedAt = (if IsZero (rep_ReportedAt r) then None else Some (rep_ReportedAt r)),
     pr_RetrievedAt = now, pr_Metadata = Adapter_details (rep_Metadata r)\<rparr>"

definition logMonitorReport :: "world \<Rightarrow> string \<Rightarrow> adapter \<Rightarrow> RetrieveResult \<Rightarrow> unit act" where
  "logMonitorReport w runID a result =
    andThen (Now w) (\<lambda>now.
      if rr_Reports result = [] then
        insertReport w \<lparr>pr_RunID = runID, pr_ServiceID = ad_ServiceID a, pr_RetrieveStatus = rr_Status result,
          pr_RetrieveUnknownReason = rr_Reason result, pr_ReasonCode = rr_ReasonCode result, pr_EventType = [],
          pr_RawClassification = [], pr_NormalizedClassification = [], pr_ReportedAt = None,
          pr_RetrievedAt = now, pr_Metadata = rr_Metadata result\<rparr>
      else each (\<lambda>r. insertReport w (report_row runID a result now r)) (rr_Reports result))"

definition unknown :: "string \<Rightarrow> string \<Rightarrow> RetrieveResult" where
  "unknown reason code = \<lparr>rr_Status = ''unknown'', rr_Reports = [], rr_Reason = reason, rr_ReasonCode = code,
     rr_Metadata = No_details\<rparr>"

section \<open>Provisioning\<close>

definition SupportsMonitorKind :: "Capabilities \<Rightarrow> string \<Rightarrow> bool" where
  "SupportsMonitorKind c kind0 =
    (let kind = TrimSpace kind0; kind = (if kind = [] then ''http'' else kind)
     in if cp_MonitorKinds c = [] then kind = ''http'' else kind \<in> set (cp_MonitorKinds c))"

text \<open>The first capability the scenario needs and the adapter lacks.\<close>

definition capability_gap :: "Scenario \<Rightarrow> bool \<Rightarrow> Capabilities \<Rightarrow> string option" where
  "capability_gap sc requireCooldownReset caps =
    (if \<not> SupportsMonitorKind caps (sc_MonitorKind sc)
     then Some (''scenario requires monitor_kind = '' @ sc_MonitorKind sc @ ''; adapter does not support it'')
     else if sc_CheckFrequency sc < cp_MinCheckFrequency caps
     then Some (''check_frequency '' @ duration_String (sc_CheckFrequency sc) @ '' < min '' @
            duration_String (cp_MinCheckFrequency caps))
     else if sc_Keyword sc \<noteq> [] \<and> \<not> cp_SupportsKeyword caps
     then Some ''scenario requires keyword monitoring; adapter SupportsKeyword = false''
     else if sc_KeywordCheck sc = ''absent'' \<and> \<not> cp_SupportsInvertedKeyword caps
     then Some ''scenario requires keyword_check = absent; adapter SupportsInvertedKeyword = false''
     else if sc_Maintenance sc \<noteq> None \<and> \<not> cp_SupportsMaintenanceWindows caps
     then Some ''scenario requires a [maintenance] block; adapter SupportsMaintenanceWindows = false''
     else if sc_ResponseTimeThreshold sc > 0 \<and> \<not> cp_SupportsResponseTimeThreshold caps
     then Some ''scenario requires response_time_threshold; adapter SupportsResponseTimeThreshold = false''
     else if sc_RequestHeaders sc \<noteq> [] \<and> \<not> cp_SupportsRequestHeaders caps
     then Some ''scenario requires request_headers; adapter SupportsRequestHeaders = false''
     else if requireCooldownReset \<and> \<not> cp_SupportsCooldownReset caps
     then Some ''campaign replays require clean alert state; adapter SupportsCooldownReset = false''
     else None)"

definition add_handle :: "provisioned \<Rightarrow> unit act" where
  "add_handle p s = (Some (), s\<lparr>rs_handles := rs_handles s @ [p]\<rparr>)"

definition provisionConfig :: "Scenario \<Rightarrow> instant \<Rightarrow> ProvisionConfig" where
  "provisionConfig sc startedAt =
    \<lparr>pc_CheckFrequency = sc_CheckFrequency sc, pc_MonitorKind = sc_MonitorKind sc, pc_Keyword = sc_Keyword sc,
     pc_KeywordCheck = sc_KeywordCheck sc, pc_ForbiddenKeywords = forbiddenKeywordsForScenario sc,
     pc_ResponseTimeThreshold = sc_ResponseTimeThreshold sc, pc_RequestHeaders = sc_RequestHeaders sc,
     pc_MaintenanceWindow = maintenanceWindowFor sc startedAt\<rparr>"

text \<open>One adapter; the value says whether its \<open>Provision\<close> failed.\<close>

definition provisionAdapter ::
  "world \<Rightarrow> Scenario \<Rightarrow> targetEndpoint \<Rightarrow> string \<Rightarrow> instant \<Rightarrow> bool \<Rightarrow> adapter \<Rightarrow> bool act" where
  "provisionAdapter w sc endpoint runID startedAt requireCooldownReset a =
    (case capability_gap sc requireCooldownReset (ad_Capabilities a) of
       Some reason \<Rightarrow> andThen (logMonitorReport w runID a (unknown reason ''capability_mismatch'')) (\<lambda>_. ret False)
     | None \<Rightarrow>
         let tgt = \<lparr>at_ID = sc_Target sc, at_URL = monitorTargetURLForRun (w_sha w) sc endpoint runID\<rparr>;
             cfg = provisionConfig sc startedAt
         in andThen (ask (\<lambda>tr. w_provision w tr (ad_ServiceID a) tgt cfg) (Provision (ad_ServiceID a) tgt cfg)) (\<lambda>r.
           case r of
             Inl e \<Rightarrow> andThen (logMonitorReport w runID a
                 (unknown (''provision '' @ ad_ServiceID a @ '': '' @ e) ''adapter_error'')) (\<lambda>_. ret True)
           | Inr handle \<Rightarrow> andThen (add_handle \<lparr>pv_adapter = a, pv_handle = handle\<rparr>) (\<lambda>_. ret False)))"

fun provisionAdapters ::
  "world \<Rightarrow> Scenario \<Rightarrow> targetEndpoint \<Rightarrow> string \<Rightarrow> instant \<Rightarrow> bool \<Rightarrow> adapter list \<Rightarrow> bool act" where
  "provisionAdapters w sc endpoint runID startedAt requireCooldownReset [] = ret False"
| "provisionAdapters w sc endpoint runID startedAt requireCooldownReset (a # as) =
    andThen (provisionAdapter w sc endpoint runID startedAt requireCooldownReset a) (\<lambda>err.
    andThen (provisionAdapters w sc endpoint runID startedAt requireCooldownReset as) (\<lambda>errs. ret (err \<or> errs)))"

section \<open>Waiting and the DNS baseline\<close>

text \<open>\<open>ctx.Err()\<close>: set for good once a wait has been cut short, and possibly earlier.\<close>

fun cut_short :: "step \<Rightarrow> bool" where
  "cut_short (Waited d elapsed) = (\<not> elapsed)"
| "cut_short _ = False"

definition ctx_err :: "world \<Rightarrow> trace \<Rightarrow> string option" where
  "ctx_err w tr = (if list_ex cut_short tr then Some ''context canceled'' else w_ctx_err w tr)"

definition sleep :: "world \<Rightarrow> duration \<Rightarrow> bool act" where
  "sleep w d = ask (\<lambda>tr. w_wait w tr d) (Waited d)"

definition abort :: "world \<Rightarrow> 'a act" where
  "abort w = andThen (get (\<lambda>s. ctx_err w (rs_trace s))) (exit_with ''aborted'')"

fun check_resolvers :: "world \<Rightarrow> string \<Rightarrow> dnsBaselineResolver list \<Rightarrow> dnsBaselineCheck list act" where
  "check_resolvers w host [] = ret []"
| "check_resolvers w host (r # rs) =
    andThen (ask (\<lambda>tr. w_lookup w tr r host) (Looked_up r)) (\<lambda>reply.
    andThen (check_resolvers w host rs) (\<lambda>checks. ret (resolver_check (w_ip4 w) reply r # checks)))"

definition set_baseline :: "dnsBaselinePlan \<Rightarrow> unit act" where
  "set_baseline p s = (Some (), s\<lparr>rs_baseline := Some p\<rparr>)"

text \<open>\<open>record\<close>: one sample, logged; the value is the error. No plan, no sample.\<close>

definition baseline_record :: "world \<Rightarrow> string \<Rightarrow> string \<Rightarrow> string \<Rightarrow> string option act" where
  "baseline_record w runID targetID phase =
    andThen (get rs_baseline) (\<lambda>plan.
      case plan of None \<Rightarrow> ret None
      | Some p \<Rightarrow>
          andThen (check_resolvers w (bp_host p) (bp_resolvers p)) (\<lambda>checks.
            let result = baseline_result (bp_host p) phase checks
            in andThen (set_baseline (baseline_update p phase result)) (\<lambda>_.
              logEvent w runID targetID ''dns_baseline'' ''tls_dns_baseline'' (Baseline_details result))))"

definition mustRecord :: "world \<Rightarrow> string \<Rightarrow> string \<Rightarrow> string \<Rightarrow> unit act" where
  "mustRecord w runID targetID phase =
    andThen (baseline_record w runID targetID phase) (\<lambda>err.
      case err of None \<Rightarrow> ret () | Some e \<Rightarrow> exit_with ''ground_truth_log_failure'' (Some e))"

text \<open>\<open>wait\<close>: the ticker fires \<open>n\<close> times before the timer or the context does.\<close>

fun baseline_wait :: "world \<Rightarrow> string \<Rightarrow> string \<Rightarrow> duration \<Rightarrow> nat \<Rightarrow> string option act" where
  "baseline_wait w runID targetID d 0 =
    andThen (sleep w d) (\<lambda>elapsed.
      if elapsed then ret None else get (\<lambda>s. ctx_err w (rs_trace s)))"
| "baseline_wait w runID targetID d (Suc n) =
    andThen (baseline_record w runID targetID ''active_periodic'') (\<lambda>err.
      case err of Some e \<Rightarrow> ret (Some e) | None \<Rightarrow> baseline_wait w runID targetID d n)"

definition await_event :: "world \<Rightarrow> string \<Rightarrow> string \<Rightarrow> failureEvent \<Rightarrow> unit act" where
  "await_event w runID targetID e =
    andThen (Now w) (\<lambda>now.
      let waitFor = time_Sub (fe_at e) now in
      if waitFor > 0 then
        andThen (get (\<lambda>s. rs_baseline s \<noteq> None \<and> rs_baselineActive s > 0)) (\<lambda>sampling.
          if sampling then
            andThen (get (\<lambda>s. w_ticks w (rs_trace s) waitFor)) (\<lambda>n.
            andThen (baseline_wait w runID targetID waitFor n) (\<lambda>err.
              case err of None \<Rightarrow> ret ()
              | Some e \<Rightarrow> andThen (get (\<lambda>s. ctx_err w (rs_trace s))) (\<lambda>c.
                  if c \<noteq> None then exit_with ''aborted'' c
                  else exit_with ''ground_truth_log_failure'' (Some e))))
          else andThen (sleep w waitFor) (\<lambda>elapsed. if elapsed then ret () else abort w))
      else ret ())"

section \<open>The failures\<close>

text \<open>What a run keeps for all of its events.\<close>

record run_env =
  re_sc :: Scenario
  re_fleet :: Config
  re_services :: "Service list option"
  re_target :: Target
  re_endpoint :: targetEndpoint
  re_runID :: string
  re_seed :: int
  re_token :: string

definition controlClientForMember :: "string \<Rightarrow> Client" where
  "controlClientForMember token = \<lparr>cl_token = token\<rparr>"

fun activateFailure :: "world \<Rightarrow> string \<Rightarrow> controlMember list \<Rightarrow> ActivateRequest \<Rightarrow> string option act" where
  "activateFailure w token [] req = ret None"
| "activateFailure w token (m # ms) req =
    (let client = controlClientForMember token in
     andThen (ask (\<lambda>tr. w_activate w tr m req) (Activate client m req)) (\<lambda>err.
       case err of Some e \<Rightarrow> ret (Some (cmb_Kind m @ ''/'' @ cmb_ID m @ '': '' @ e))
       | None \<Rightarrow> activateFailure w token ms req))"

fun deactivate_members :: "world \<Rightarrow> string \<Rightarrow> controlMember list \<Rightarrow> DeactivateRequest \<Rightarrow> string list act" where
  "deactivate_members w token [] req = ret []"
| "deactivate_members w token (m # ms) req =
    (let client = controlClientForMember token in
     andThen (ask (\<lambda>tr. w_deactivate w tr m req) (Deactivate client m req)) (\<lambda>err.
     andThen (deactivate_members w token ms req) (\<lambda>errs.
       ret ((case err of None \<Rightarrow> [] | Some e \<Rightarrow> [cmb_Kind m @ ''/'' @ cmb_ID m @ '': '' @ e]) @ errs))))"

definition deactivateFailure :: "world \<Rightarrow> string \<Rightarrow> controlMember list \<Rightarrow> DeactivateRequest \<Rightarrow> string option act" where
  "deactivateFailure w token members req =
    andThen (deactivate_members w token members req) (\<lambda>errs.
      ret (if errs = [] then None else Some (Join errs ''; '')))"

definition logFailureNotObservable :: "world \<Rightarrow> string \<Rightarrow> Failure \<Rightarrow> dnsExposureResult \<Rightarrow> unit act" where
  "logFailureNotObservable w runID f exposure =
    andThen (get rs_handles) (\<lambda>handles.
      each (\<lambda>p. logMonitorReport w runID (pv_adapter p)
        ((unknown (f_Type f @ '' failure was not observable from authoritative DNS controls'') ''failure_not_observable'')
           \<lparr>rr_Metadata := Exposure_details (f_Type f) exposure\<rparr>)) handles)"

definition specFor :: "run_env \<Rightarrow> Failure \<Rightarrow> FailureSpec" where
  "specFor v f =
    (let (host, path) = targetHostPathForFailure (re_endpoint v) f in
     \<lparr>fs_Type = f_Type f, fs_Host = host, fs_Path = path, fs_Duration = targetAutoExpiry (re_sc v),
      fs_Rate = (if f_Type f = ''dns_ns_unavailable'' then Fin 1 else f_Rate f),
      fs_Params = failureParams (re_sc v) f, fs_SourceCIDRs = collectCIDRs (f_Regions f) (re_services v)\<rparr>)"

definition activateRequest :: "run_env \<Rightarrow> Failure \<Rightarrow> ActivateRequest" where
  "activateRequest v f = \<lparr>ar_RunID = re_runID v, ar_Seed = of_int (re_seed v), ar_Failure = specFor v f\<rparr>"

definition deactivateRequest :: "run_env \<Rightarrow> Failure \<Rightarrow> DeactivateRequest" where
  "deactivateRequest v f =
    (let (host, path) = targetHostPathForFailure (re_endpoint v) f in
     \<lparr>dr_RunID = re_runID v, dr_FailureType = f_Type f, dr_Host = host, dr_Path = path\<rparr>)"

abbreviation members_for :: "world \<Rightarrow> run_env \<Rightarrow> Failure \<Rightarrow> controlMember list result" where
  "members_for w v f \<equiv> controlMembersForFailure (w_sha w) (re_fleet v) (re_target v) f (re_seed v)"

abbreviation log_target :: "run_env \<Rightarrow> string" where "log_target v \<equiv> sc_Target (re_sc v)"

text \<open>The end of a run whose DNS failure cannot be seen.\<close>

definition not_observable ::
  "world \<Rightarrow> run_env \<Rightarrow> Failure \<Rightarrow> string list option \<Rightarrow> dnsExposureResult \<Rightarrow> unit act" where
  "not_observable w v f members exposure =
    andThen (mustLog w (re_runID v) (log_target v) ''setup_exposure_failure'' (f_Type f)
      (Failure_details (failureParams (re_sc v) f) members (Some exposure))) (\<lambda>_.
    andThen (logFailureNotObservable w (re_runID v) f exposure) (\<lambda>_.
      exit_with ''setup_exposure_failure'' None))"

definition check_exposure :: "world \<Rightarrow> run_env \<Rightarrow> Failure \<Rightarrow> controlMember list \<Rightarrow> dnsExposureResult option act" where
  "check_exposure w v f members =
    (if isDNSFailureType (f_Type f) then
       andThen (ask (\<lambda>tr. checkDNSFailureExposure (w_net w tr) f (ep_host (re_endpoint v)) members
           (cc_Timeout (cfg_Control (re_fleet v)))) Probed) (\<lambda>exposure.
         if \<not> xr_Observable exposure then
           andThen (deactivateFailure w (re_token v) members (deactivateRequest v f)) (\<lambda>_.
           andThen (not_observable w v f (Some (controlMemberIDs members)) exposure) (\<lambda>_.
             ret (Some exposure)))
         else ret (Some exposure))
     else ret None)"

definition note_started :: "world \<Rightarrow> unit act" where
  "note_started w =
    andThen (get rs_started) (\<lambda>st.
      if IsZero st then andThen (Now w) (\<lambda>t s. (Some (), s\<lparr>rs_started := t\<rparr>)) else ret ())"

definition baseline_count :: "int \<Rightarrow> unit act" where
  "baseline_count k s = (Some (), s\<lparr>rs_baselineActive := rs_baselineActive s + k\<rparr>)"

definition activate_event :: "world \<Rightarrow> run_env \<Rightarrow> Failure \<Rightarrow> unit act" where
  "activate_event w v f =
    (case members_for w v f of
       Inl err \<Rightarrow>
         if isDNSFailureType (f_Type f)
         then not_observable w v f None
           \<lparr>xr_Host = ep_host (re_endpoint v), xr_FailureType = f_Type f, xr_Observable = False,
            xr_Reason = err, xr_Checks = []\<rparr>
         else exit_with ''adapter_error'' (Some (''runner: select control members for '' @ f_Type f @ '': '' @ err))
     | Inr members \<Rightarrow>
         andThen (activateFailure w (re_token v) members (activateRequest v f)) (\<lambda>err.
           case err of
             Some e \<Rightarrow> exit_with ''adapter_error'' (Some (''runner: activate '' @ f_Type f @ '': '' @ e))
           | None \<Rightarrow>
               andThen (check_exposure w v f members) (\<lambda>exposure.
               andThen (mustLog w (re_runID v) (log_target v) ''failure_start'' (f_Type f)
                 (Failure_details (failureParams (re_sc v) f) (Some (controlMemberIDs members)) exposure)) (\<lambda>_.
               andThen (note_started w) (\<lambda>_.
               andThen (get (\<lambda>s. rs_baseline s \<noteq> None)) (\<lambda>baseline.
                 if baseline then
                   andThen (baseline_count 1) (\<lambda>_. mustRecord w (re_runID v) (log_target v) ''active_start'')
                 else ret ()))))))"

definition deactivate_event :: "world \<Rightarrow> run_env \<Rightarrow> Failure \<Rightarrow> unit act" where
  "deactivate_event w v f =
    (case members_for w v f of
       Inl err \<Rightarrow> exit_with ''adapter_error''
         (Some (''runner: select control members for deactivate '' @ f_Type f @ '': '' @ err))
     | Inr members \<Rightarrow>
         andThen (deactivateFailure w (re_token v) members (deactivateRequest v f)) (\<lambda>_.
         andThen (mustLog w (re_runID v) (log_target v) ''failure_end'' (f_Type f) No_details) (\<lambda>_.
         andThen (Now w) (\<lambda>t.
         andThen (\<lambda>s. (Some (), s\<lparr>rs_ended := t\<rparr>)) (\<lambda>_.
         andThen (get (\<lambda>s. rs_baseline s \<noteq> None)) (\<lambda>baseline.
           if baseline then
             andThen (mustRecord w (re_runID v) (log_target v) ''post_deactivation'') (\<lambda>_.
             andThen (get rs_baselineActive) (\<lambda>n. if n > 0 then baseline_count (- 1) else ret ()))
           else ret ()))))))"

definition run_event :: "world \<Rightarrow> run_env \<Rightarrow> failureEvent \<Rightarrow> unit act" where
  "run_event w v e =
    andThen (await_event w (re_runID v) (log_target v) e) (\<lambda>_.
      if fe_activate e then activate_event w v (fe_failure e) else deactivate_event w v (fe_failure e))"

section \<open>Retrieval and cleanup\<close>

definition budget_of :: "Config \<Rightarrow> adapter list \<Rightarrow> string \<Rightarrow> int" where
  "budget_of fc as svcID =
    (let limit_of = (\<lambda>a. let limit = (case map_of (cfg_Adapters fc) (ad_ServiceID a) of None \<Rightarrow> 0 | Some n \<Rightarrow> n)
           in if limit = 0 then cp_DefaultMaxCallsPerRun (ad_Capabilities a) else limit)
     in case map_of (rev (map (\<lambda>a. (ad_ServiceID a, limit_of a)) as)) svcID of None \<Rightarrow> 0 | Some n \<Rightarrow> n)"

definition mark_unknown :: "string \<Rightarrow> world \<Rightarrow> string \<Rightarrow> adapter \<Rightarrow> RetrieveResult \<Rightarrow> unit act" where
  "mark_unknown reason w runID a result =
    andThen (logMonitorReport w runID a result) (\<lambda>_. set_reason reason)"

text \<open>\<open>calls\<close> lists the services called so far, one entry per call.\<close>

fun retrieve_all :: "world \<Rightarrow> string \<Rightarrow> (string \<Rightarrow> int) \<Rightarrow> RunWindow \<Rightarrow> string list \<Rightarrow> provisioned list \<Rightarrow> unit act" where
  "retrieve_all w runID budget window calls [] = ret ()"
| "retrieve_all w runID budget window calls (p # ps) =
    (let a = pv_adapter p; svcID = ad_ServiceID a in
     if budget svcID > 0 \<and> int (count_list calls svcID) \<ge> budget svcID then
       andThen (set_reason ''budget_exceeded'') (\<lambda>_.
       andThen (logMonitorReport w runID a (unknown (''budget_exceeded: limit '' @ show_int (budget svcID)) [])) (\<lambda>_.
         retrieve_all w runID budget window calls ps))
     else
       andThen (ask (\<lambda>tr. w_retrieve w tr svcID (pv_handle p) window) (Retrieve svcID (pv_handle p) window)) (\<lambda>r.
         case r of
           Inl e \<Rightarrow>
             andThen (mark_unknown ''adapter_error'' w runID a
               (unknown (''retrieve '' @ svcID @ '': '' @ e) ''adapter_error'')) (\<lambda>_.
               retrieve_all w runID budget window (svcID # calls) ps)
         | Inr result \<Rightarrow>
             andThen (logMonitorReport w runID a result) (\<lambda>_.
               retrieve_all w runID budget window (svcID # calls) ps)))"

definition deprovisionAttempts :: nat where "deprovisionAttempts = 3"

text \<open>\<open>deprovisionOne\<close> with \<open>n\<close> attempts left; the value is the last error.\<close>

fun deprovision_tries :: "world \<Rightarrow> provisioned \<Rightarrow> string option \<Rightarrow> nat \<Rightarrow> string option act" where
  "deprovision_tries w p lastErr 0 = ret lastErr"
| "deprovision_tries w p lastErr (Suc n) =
    andThen (ask (\<lambda>tr. w_deprovision w tr (ad_ServiceID (pv_adapter p)) (pv_handle p))
        (Deprovision (ad_ServiceID (pv_adapter p)) (pv_handle p))) (\<lambda>err.
      case err of None \<Rightarrow> ret None | Some e \<Rightarrow> deprovision_tries w p (Some e) n)"

definition deprovisionOne :: "world \<Rightarrow> provisioned \<Rightarrow> string option act" where
  "deprovisionOne w p = deprovision_tries w p None (if deprovisionAttempts < 1 then 1 else deprovisionAttempts)"

fun deprovisionAll :: "world \<Rightarrow> provisioned list \<Rightarrow> nat act" where
  "deprovisionAll w [] = ret 0"
| "deprovisionAll w (p # ps) =
    andThen (deprovisionOne w p) (\<lambda>err.
    andThen (deprovisionAll w ps) (\<lambda>errs. ret (if err = None then errs else Suc errs)))"

section \<open>The run\<close>

record runOpts =
  op_campaignRunID :: string
  op_requireCooldownReset :: bool
  op_parameters :: params

definition readFleetToken :: "world \<Rightarrow> Config \<Rightarrow> string result" where
  "readFleetToken w fc =
    (if cc_AuthTokenFile (cfg_Control fc) = [] then Inl ''fleet: control.auth_token_file is required''
     else case w_token_file w (cc_AuthTokenFile (cfg_Control fc)) of
       Inl e \<Rightarrow> Inl (''fleet: read auth_token_file: '' @ e)
     | Inr body \<Rightarrow> Inr (TrimSpace body))"

definition run_parameters :: "Scenario \<Rightarrow> string \<Rightarrow> bool \<Rightarrow> params \<Rightarrow> params" where
  "run_parameters sc monitorURL baseline extra =
    foldl (\<lambda>m (k, x). AList.update k x m)
      ([(''check_frequency'', VString (duration_String (sc_CheckFrequency sc))),
        (''grace_period'', VString (duration_String (sc_GracePeriod sc))),
        (''duration'', VString (duration_String (sc_Duration sc))),
        (''failures'', VInt (int (length (sc_Failures sc)))),
        (''monitor_url'', VString monitorURL)] @
       param (sc_FreshHostname sc) ''fresh_hostname'' (VBool True) @
       param baseline ''dns_baseline'' (VString ''tls_only''))
      extra"

definition log_maintenance :: "world \<Rightarrow> string \<Rightarrow> Scenario \<Rightarrow> instant \<Rightarrow> unit act" where
  "log_maintenance w runID sc startedAt =
    (case maintenanceWindowFor sc startedAt of
       None \<Rightarrow> ret ()
     | Some mw \<Rightarrow>
         let row = \<lparr>er_RunID = runID, er_EventType = ''maintenance_start'', er_TargetID = sc_Target sc,
               er_FailureType = [], er_OccurredAt = mw_Start mw, er_Details = No_details\<rparr>;
             stop = row\<lparr>er_EventType := ''maintenance_end'', er_OccurredAt := mw_End mw\<rparr>
         in andThen (ask (\<lambda>tr. w_insert_event w tr row) (InsertEvent row)) (\<lambda>err.
            case err of Some e \<Rightarrow> exit_with ''ground_truth_log_failure''
                (Some (''ground_truth_log_failure: maintenance_start: '' @ e))
            | None \<Rightarrow> andThen (ask (\<lambda>tr. w_insert_event w tr stop) (InsertEvent stop)) (\<lambda>err.
                case err of Some e \<Rightarrow> exit_with ''ground_truth_log_failure''
                    (Some (''ground_truth_log_failure: maintenance_end: '' @ e))
                | None \<Rightarrow> ret ())))"

definition logDNSBaselineUnstable :: "world \<Rightarrow> string \<Rightarrow> dnsBaselinePlan \<Rightarrow> unit act" where
  "logDNSBaselineUnstable w runID p =
    andThen (get rs_handles) (\<lambda>handles.
      each (\<lambda>h. logMonitorReport w runID (pv_adapter h)
        ((unknown ''DNS baseline was unstable during TLS-only scenario'' ''setup_environment_dns_unstable'')
           \<lparr>rr_Metadata := Unstable_details (bp_host p) (bp_samples p) (unstable_phases p) (bp_lastResult p)\<rparr>)) handles)"

definition note_unstable :: "world \<Rightarrow> string \<Rightarrow> unit act" where
  "note_unstable w runID =
    andThen (get rs_baseline) (\<lambda>plan.
      case plan of None \<Rightarrow> ret ()
      | Some p \<Rightarrow>
          if bp_unstable p then
            andThen (get rs_reason) (\<lambda>reason.
            andThen (if reason = ''planned_completion'' then set_reason ''setup_environment_dns_unstable'' else ret ()) (\<lambda>_.
              logDNSBaselineUnstable w runID p))
          else ret ())"

text \<open>From the last failure event to the last report.\<close>

definition wind_down :: "world \<Rightarrow> run_env \<Rightarrow> (string \<Rightarrow> int) \<Rightarrow> unit act" where
  "wind_down w v budget =
    andThen (sleep w (sc_GracePeriod (re_sc v))) (\<lambda>elapsed.
    andThen (if elapsed then ret () else abort w) (\<lambda>_.
    andThen (Now w) (\<lambda>gracePeriodEnds.
    andThen (mustRecord w (re_runID v) (log_target v) ''post_recovery'') (\<lambda>_.
    andThen (note_unstable w (re_runID v)) (\<lambda>_.
    andThen (get (\<lambda>s. \<lparr>rw_RunID = re_runID v, rw_FailureStarted = rs_started s,
        rw_FailureEnded = rs_ended s, rw_GracePeriodEnd = gracePeriodEnds\<rparr>)) (\<lambda>window.
    andThen (get rs_handles) (\<lambda>handles.
      retrieve_all w (re_runID v) budget window [] handles)))))))"

definition drive :: "world \<Rightarrow> run_env \<Rightarrow> (string \<Rightarrow> int) \<Rightarrow> unit act" where
  "drive w v budget =
    andThen (Now w) (\<lambda>earliestStart.
    andThen (each (run_event w v)
      (scheduleFailureEvents earliestStart (sc_Duration (re_sc v)) (sc_Failures (re_sc v)))) (\<lambda>_.
      wind_down w v budget))"

text \<open>The part of \<open>Run\<close> up to provisioning, and the deferred cleanup that guards the rest.\<close>

definition before_provision :: "world \<Rightarrow> run_env \<Rightarrow> instant \<Rightarrow> unit act" where
  "before_provision w v startedAt =
    andThen (mustLog w (re_runID v) (log_target v) ''run_start'' [] No_details) (\<lambda>_.
    andThen (mustRecord w (re_runID v) (log_target v) ''pre_provision'') (\<lambda>_.
      log_maintenance w (re_runID v) (re_sc v) startedAt))"

definition provision_and_drive ::
  "world \<Rightarrow> run_env \<Rightarrow> instant \<Rightarrow> bool \<Rightarrow> adapter list \<Rightarrow> unit act" where
  "provision_and_drive w v startedAt requireCooldownReset as =
    andThen (provisionAdapters w (re_sc v) (re_endpoint v) (re_runID v) startedAt requireCooldownReset as) (\<lambda>err.
    andThen (if err then set_reason ''adapter_error'' else ret ()) (\<lambda>_.
    andThen (get rs_handles) (\<lambda>handles.
      if handles = [] then ret () else drive w v (budget_of (re_fleet v) as))))"

definition cleanup :: "world \<Rightarrow> run_state \<Rightarrow> run_state" where
  "cleanup w s =
    (case deprovisionAll w (rs_handles s) s of
       (errs, s') \<Rightarrow> (if (case errs of None \<Rightarrow> False | Some n \<Rightarrow> n > 0) \<and> rs_reason s' = ''planned_completion''
                     then s'\<lparr>rs_reason := ''cleanup_error''\<rparr> else s'))"

definition close_run :: "world \<Rightarrow> run_env \<Rightarrow> run_state \<Rightarrow> run_state" where
  "close_run w v s =
    (let reason = rs_reason s in
     snd (andThen (logEvent w (re_runID v) (log_target v) ''run_end'' [] (Reason_details reason)) (\<lambda>_.
       andThen (Now w) (\<lambda>t. ask (w_close_run w) (CloseRun (re_runID v) t reason))) s))"

definition guarded :: "world \<Rightarrow> run_env \<Rightarrow> instant \<Rightarrow> bool \<Rightarrow> adapter list \<Rightarrow> run_state \<Rightarrow> run_state" where
  "guarded w v startedAt requireCooldownReset as s =
    (case before_provision w v startedAt s of
       (None, s') \<Rightarrow> s'
     | (Some _, s') \<Rightarrow> cleanup w (snd (provision_and_drive w v startedAt requireCooldownReset as s')))"

definition initial_state :: "trace \<Rightarrow> dnsBaselinePlan option \<Rightarrow> run_state" where
  "initial_state tr baseline = \<lparr>rs_trace = tr, rs_reason = ''planned_completion'', rs_error = None, rs_handles = [],
     rs_started = 0, rs_ended = 0, rs_baseline = baseline, rs_baselineActive = 0\<rparr>"

text \<open>The result is the run id and error returned, and the whole trace.\<close>

definition Run ::
  "world \<Rightarrow> string \<Rightarrow> Scenario \<Rightarrow> Config \<Rightarrow> adapter list \<Rightarrow> Service list option \<Rightarrow> runOpts \<Rightarrow>
   (string \<times> string option) \<times> trace" where
  "Run w runID sc fc as svcCfg opts =
    (let startedAt = w_now w []; tr = [Clock startedAt]; seed = effectiveSeed sc startedAt in
     case resolveTarget (cfg_Targets fc) (sc_Target sc) of
       Inl e \<Rightarrow> (([], Some (''runner: '' @ e)), tr)
     | Inr target \<Rightarrow>
     (case targetEndpointForRun (w_sha w) (w_sprintf w) sc target runID seed of
       Inl e \<Rightarrow> (([], Some (''runner: '' @ e)), tr)
     | Inr endpoint \<Rightarrow>
     (let baseline = newDNSBaselinePlan (w_json_list w) sc fc svcCfg (ep_host endpoint) in
      case readFleetToken w fc of
       Inl e \<Rightarrow> (([], Some (''runner: '' @ e)), tr)
     | Inr token \<Rightarrow>
     (let monitorURL = monitorTargetURLForRun (w_sha w) sc endpoint runID;
          rec = \<lparr>run_ID = runID, run_ScenarioID = sc_ID sc, run_ScenarioVersion = sc_Version sc, run_Seed = seed,
            run_TargetID = sc_Target sc, run_CampaignID = op_campaignRunID opts,
            run_Parameters = run_parameters sc monitorURL (baseline \<noteq> None) (op_parameters opts),
            run_StartedAt = startedAt\<rparr>;
          err = w_insert_run w tr rec; tr = tr @ [InsertRun rec err];
          v = \<lparr>re_sc = sc, re_fleet = fc, re_services = svcCfg, re_target = target, re_endpoint = endpoint,
            re_runID = runID, re_seed = seed, re_token = token\<rparr>
      in case err of
           Some e \<Rightarrow> (([], Some (''runner: insert run: '' @ e)), tr)
         | None \<Rightarrow>
             (let s = close_run w v (guarded w v startedAt (op_requireCooldownReset opts) as (initial_state tr baseline))
              in ((runID, rs_error s), rs_trace s))))))"

end
