(* ===== verification/Runner_Logic.thy ===== *)
theory Runner_Logic
  imports Runner
begin

text \<open>
  Reasoning about \<open>Runner\<close>: triples over the operations of a run, with one postcondition for
  going on and one for an early return, and an interface, \<open>run_invariant\<close>, for statements about the
  trace that hold of every run because each kind of step keeps them. Everything a run does is
  proved once against that interface; the interpretations at the end give it three meanings.
\<close>

section \<open>Triples\<close>

definition triple :: "(run_state \<Rightarrow> bool) \<Rightarrow> 'a act \<Rightarrow> ('a \<Rightarrow> run_state \<Rightarrow> bool) \<Rightarrow> (run_state \<Rightarrow> bool) \<Rightarrow> bool" where
  "triple P m Q X \<longleftrightarrow> (\<forall>s. P s \<longrightarrow> (case m s of (None, s') \<Rightarrow> X s' | (Some a, s') \<Rightarrow> Q a s'))"

lemma triple_ret [intro]: "(\<And>s. P s \<Longrightarrow> Q x s) \<Longrightarrow> triple P (ret x) Q X"
  by (simp add: triple_def ret_def)

lemma triple_andThen:
  assumes "triple P m R X" and "\<And>a. triple (R a) (f a) Q X"
  shows "triple P (andThen m f) Q X"
  unfolding triple_def
proof (intro allI impI)
  fix s assume "P s"
  then have "case m s of (None, s') \<Rightarrow> X s' | (Some a, s') \<Rightarrow> R a s'"
    using assms(1) by (simp add: triple_def)
  then show "case andThen m f s of (None, s') \<Rightarrow> X s' | (Some a, s') \<Rightarrow> Q a s'"
    using assms(2) by (cases "m s"; cases "fst (m s)") (auto simp: andThen_def triple_def)
qed

lemma triple_exit [intro]: "(\<And>s. P s \<Longrightarrow> X (s\<lparr>rs_reason := r, rs_error := e\<rparr>)) \<Longrightarrow> triple P (exit_with r e) Q X"
  by (simp add: triple_def exit_with_def)

lemma triple_get [intro]: "(\<And>s. P s \<Longrightarrow> Q (f s) s) \<Longrightarrow> triple P (get f) Q X"
  by (simp add: triple_def get_def)

lemma triple_ask [intro]:
  "(\<And>s. P s \<Longrightarrow> Q (f (rs_trace s)) (s\<lparr>rs_trace := rs_trace s @ [mk (f (rs_trace s))]\<rparr>)) \<Longrightarrow> triple P (ask f mk) Q X"
  by (simp add: triple_def ask_def Let_def)

lemma triple_weaken:
  "triple P m Q X \<Longrightarrow> (\<And>s. P' s \<Longrightarrow> P s) \<Longrightarrow> (\<And>a s. Q a s \<Longrightarrow> Q' a s) \<Longrightarrow> (\<And>s. X s \<Longrightarrow> X' s) \<Longrightarrow> triple P' m Q' X'"
  unfolding triple_def by (fastforce split: prod.splits option.splits)

lemma triple_each:
  assumes "\<And>x. x \<in> set xs \<Longrightarrow> triple P (f x) (\<lambda>_. P) X"
  shows "triple P (each f xs) (\<lambda>_. P) X"
  using assms by (induction xs) (auto intro!: triple_ret triple_andThen)

lemma triple_if [intro]:
  "(b \<Longrightarrow> triple P m Q X) \<Longrightarrow> (\<not> b \<Longrightarrow> triple P n Q X) \<Longrightarrow> triple P (if b then m else n) Q X"
  by simp

lemma triple_option:
  "(o' = None \<Longrightarrow> triple P m Q X) \<Longrightarrow> (\<And>x. o' = Some x \<Longrightarrow> triple P (f x) Q X) \<Longrightarrow>
     triple P (case o' of None \<Rightarrow> m | Some x \<Rightarrow> f x) Q X"
  by (cases o') simp_all

lemma triple_result:
  "(\<And>e. r = Inl e \<Longrightarrow> triple P (g e) Q X) \<Longrightarrow> (\<And>x. r = Inr x \<Longrightarrow> triple P (f x) Q X) \<Longrightarrow>
     triple P (case r of Inl e \<Rightarrow> g e | Inr x \<Rightarrow> f x) Q X"
  by (cases r) simp_all

lemma triple_snd: "triple P m (\<lambda>_. Q) Q \<Longrightarrow> P s \<Longrightarrow> Q (snd (m s))"
  by (cases "m s"; cases "fst (m s)") (auto simp: triple_def)

text \<open>An operation that keeps a property, whether it goes on or returns early.\<close>

lemma keeps_andThen:
  "triple P m (\<lambda>_. P) X \<Longrightarrow> (\<And>a. triple P (f a) (\<lambda>_. P) X) \<Longrightarrow> triple P (andThen m f) (\<lambda>_. P) X"
  by (rule triple_andThen)

section \<open>The interface\<close>

fun failure_row :: "step \<Rightarrow> bool" where
  "failure_row (InsertEvent r e) = (er_EventType r = ''failure_start'' \<or> er_EventType r = ''failure_end'')"
| "failure_row _ = False"

fun is_provision :: "step \<Rightarrow> bool" where
  "is_provision (Provision _ _ _ _) = True"
| "is_provision _ = False"

fun is_close :: "step \<Rightarrow> bool" where
  "is_close (CloseRun _ _ _ _) = True"
| "is_close _ = False"

definition quiet :: "step \<Rightarrow> bool" where
  "quiet x \<longleftrightarrow> \<not> failure_row x \<and> \<not> is_provision x \<and> \<not> is_close x"

lemma quiet_simps [simp]:
  "quiet (Clock t)" "quiet (Waited d b)" "quiet (InsertRun r e)" "quiet (InsertReport p e)"
  "quiet (Retrieve sv h rw rr)" "quiet (Deprovision sv h e)" "quiet (Activate c m a e)" "quiet (Deactivate c m dq e)"
  "quiet (Probed x)" "quiet (Looked_up q ans)" "\<not> quiet (Provision sv tg pc hr)" "\<not> quiet (CloseRun ri t rs e)"
  "quiet (InsertEvent er e) \<longleftrightarrow> er_EventType er \<noteq> ''failure_start'' \<and> er_EventType er \<noteq> ''failure_end''"
  by (auto simp: quiet_def)

definition all_activated :: "run_env \<Rightarrow> Failure \<Rightarrow> controlMember list \<Rightarrow> trace \<Rightarrow> bool" where
  "all_activated v f ms tr \<longleftrightarrow>
    (\<forall>m \<in> set ms. Activate (controlClientForMember (re_token v)) m (activateRequest v f) None \<in> set tr)"

definition all_deactivated :: "run_env \<Rightarrow> Failure \<Rightarrow> controlMember list \<Rightarrow> trace \<Rightarrow> bool" where
  "all_deactivated v f ms tr \<longleftrightarrow>
    (\<forall>m \<in> set ms. \<exists>e. Deactivate (controlClientForMember (re_token v)) m (deactivateRequest v f) e \<in> set tr)"

text \<open>The resolution reasons a run can close with.\<close>

definition run_reasons :: "string list" where
  "run_reasons = [''planned_completion'', ''ground_truth_log_failure'', ''adapter_error'', ''aborted'',
     ''setup_exposure_failure'', ''setup_environment_dns_unstable'', ''budget_exceeded'', ''cleanup_error'']"

lemma run_reasons_in [simp]:
  "''planned_completion'' \<in> set run_reasons" "''ground_truth_log_failure'' \<in> set run_reasons"
  "''adapter_error'' \<in> set run_reasons" "''aborted'' \<in> set run_reasons"
  "''setup_exposure_failure'' \<in> set run_reasons" "''setup_environment_dns_unstable'' \<in> set run_reasons"
  "''budget_exceeded'' \<in> set run_reasons" "''cleanup_error'' \<in> set run_reasons"
  by (simp_all add: run_reasons_def)

text \<open>The reasons an early return closes a run with.\<close>

definition exit_reasons :: "string list" where
  "exit_reasons = [''ground_truth_log_failure'', ''adapter_error'', ''aborted'', ''setup_exposure_failure'']"

lemma exit_reasons_in [simp]:
  "''ground_truth_log_failure'' \<in> set exit_reasons" "''adapter_error'' \<in> set exit_reasons"
  "''aborted'' \<in> set exit_reasons" "''setup_exposure_failure'' \<in> set exit_reasons"
  by (simp_all add: exit_reasons_def)

lemma exit_reasons_run: "r \<in> set exit_reasons \<Longrightarrow> r \<in> set run_reasons"
  by (auto simp: exit_reasons_def)

text \<open>
  What holds along all the steps that neither provision, nor log a failure, nor close the run;
  \<open>X\<close> is what an early return establishes.
\<close>

locale quiet_run =
  fixes w :: world and v :: run_env and J :: "trace \<Rightarrow> provisioned list \<Rightarrow> bool" and X :: "run_state \<Rightarrow> bool"
  assumes quiet_step: "J tr hs \<Longrightarrow> quiet x \<Longrightarrow> J (tr @ [x]) hs"
    and exits: "J (rs_trace s) (rs_handles s) \<Longrightarrow> r \<in> set exit_reasons \<Longrightarrow> X (s\<lparr>rs_reason := r, rs_error := e\<rparr>)"
begin

abbreviation I :: "run_state \<Rightarrow> bool" where
  "I s \<equiv> J (rs_trace s) (rs_handles s) \<and> rs_reason s \<in> set run_reasons"

abbreviation ok :: "'a act \<Rightarrow> bool" where
  "ok m \<equiv> triple I m (\<lambda>_. I) X"

lemma exit_keeps: "r \<in> set exit_reasons \<Longrightarrow> triple I (exit_with r e) Q X"
  by (intro triple_exit) (auto intro: exits)

lemma ask_quiet: "(\<And>r. quiet (mk r)) \<Longrightarrow> ok (ask f mk)"
  by (intro triple_ask) (auto intro: quiet_step)

lemma Now_keeps: "ok (Now w)"
  unfolding Now_def by (rule ask_quiet) simp

lemma logEvent_keeps:
  "ty \<noteq> ''failure_start'' \<Longrightarrow> ty \<noteq> ''failure_end'' \<Longrightarrow> ok (logEvent w r tg ty ft d)"
  unfolding logEvent_def Let_def
  by (intro keeps_andThen Now_keeps ask_quiet triple_ret) simp_all

lemma mustLog_keeps:
  "ty \<noteq> ''failure_start'' \<Longrightarrow> ty \<noteq> ''failure_end'' \<Longrightarrow> ok (mustLog w r tg ty ft d)"
  unfolding mustLog_def
  by (intro keeps_andThen logEvent_keeps triple_option triple_ret exit_keeps) simp_all

lemma report_keeps: "ok (logMonitorReport w r a result)"
  unfolding logMonitorReport_def insertReport_def
  by (intro keeps_andThen Now_keeps triple_if triple_each ask_quiet triple_ret) simp_all

lemma set_field_keeps:
  "x \<in> set run_reasons \<Longrightarrow> ok (set_reason x)" "ok (set_baseline p)" "ok (baseline_count k)"
  by (simp_all add: triple_def set_reason_def set_baseline_def baseline_count_def)

lemma check_resolvers_keeps: "ok (check_resolvers w h rs)"
  by (induction rs) (auto intro!: keeps_andThen ask_quiet triple_ret)

lemma baseline_record_keeps: "ok (baseline_record w r tg ph)"
  unfolding baseline_record_def Let_def
  by (intro keeps_andThen triple_get triple_option triple_ret check_resolvers_keeps set_field_keeps logEvent_keeps)
    simp_all

lemma mustRecord_keeps: "ok (mustRecord w r tg ph)"
  unfolding mustRecord_def
  by (intro keeps_andThen baseline_record_keeps triple_option triple_ret exit_keeps) simp_all

lemma sleep_keeps: "ok (sleep w d)"
  unfolding sleep_def by (rule ask_quiet) simp

lemma abort_keeps: "ok (abort w)"
  unfolding abort_def by (intro keeps_andThen triple_get exit_keeps) simp_all

lemma baseline_wait_keeps: "ok (baseline_wait w r tg d n)"
  by (induction n)
    (simp_all; intro keeps_andThen sleep_keeps triple_if triple_ret triple_get baseline_record_keeps triple_option; simp)+

lemma await_event_keeps: "ok (await_event w r tg e)"
  unfolding await_event_def Let_def
  by (intro keeps_andThen Now_keeps triple_if triple_get baseline_wait_keeps triple_option triple_ret exit_keeps
      sleep_keeps abort_keeps) simp_all

lemma not_observable_keeps: "ok (not_observable w v f ms x)"
  unfolding not_observable_def logFailureNotObservable_def
  by (intro keeps_andThen mustLog_keeps triple_get triple_each report_keeps exit_keeps) simp_all

lemma not_observable_exits: "triple I (not_observable w v f ms x) (\<lambda>_ _. False) X"
proof -
  have out: "triple I (exit_with ''setup_exposure_failure'' None) (\<lambda>_ _. False) X"
    by (intro exit_keeps) simp
  show ?thesis
    unfolding not_observable_def logFailureNotObservable_def
    by (rule triple_andThen [OF mustLog_keeps], simp_all, rule triple_andThen [OF _ out])
      (intro keeps_andThen triple_get triple_each report_keeps, simp_all)
qed

lemma note_started_keeps: "ok (note_started w)"
proof -
  have "ok (\<lambda>s. (Some (), s\<lparr>rs_started := t\<rparr>))" for t by (simp add: triple_def)
  then show ?thesis
    unfolding note_started_def
    by (intro keeps_andThen triple_get triple_if Now_keeps triple_ret) simp_all
qed

lemma retrieve_all_keeps: "ok (retrieve_all w r b rw calls ps)"
proof (induction ps arbitrary: calls)
  case Nil
  show ?case by (auto intro!: triple_ret)
next
  case (Cons p ps)
  then show ?case
    unfolding retrieve_all.simps Let_def mark_unknown_def
    by (intro triple_if keeps_andThen set_field_keeps report_keeps ask_quiet triple_result) simp_all
qed

lemma note_unstable_keeps: "ok (note_unstable w r)"
  unfolding note_unstable_def logDNSBaselineUnstable_def
  by (intro keeps_andThen triple_get triple_option triple_ret triple_if set_field_keeps triple_each report_keeps)
    simp_all

lemma wind_down_keeps: "ok (wind_down w v b)"
  unfolding wind_down_def
  by (intro keeps_andThen Now_keeps sleep_keeps triple_if triple_ret abort_keeps mustRecord_keeps note_unstable_keeps
      triple_get retrieve_all_keeps) simp_all

lemma log_maintenance_keeps: "ok (log_maintenance w r sc t)"
  unfolding log_maintenance_def Let_def
  by (intro triple_option triple_ret keeps_andThen ask_quiet exit_keeps) simp_all

lemma before_provision_keeps: "ok (before_provision w v t)"
  unfolding before_provision_def
  by (intro keeps_andThen mustLog_keeps mustRecord_keeps log_maintenance_keeps) simp_all

lemma deprovision_tries_keeps: "ok (deprovision_tries w p e n)"
  by (induction n arbitrary: e) (auto intro!: keeps_andThen ask_quiet triple_option triple_ret)

lemma deprovisionOne_keeps: "ok (deprovisionOne w p)"
  unfolding deprovisionOne_def by (rule deprovision_tries_keeps)

lemma deprovisionAll_keeps: "ok (deprovisionAll w ps)"
  by (induction ps) (auto intro!: keeps_andThen deprovisionOne_keeps triple_ret)

lemma activateFailure_quiet: "ok (activateFailure w token ms req)"
  by (induction ms) (auto intro!: triple_ret keeps_andThen ask_quiet triple_option simp: Let_def)

lemma deactivateFailure_quiet: "ok (deactivateFailure w token ms req)"
proof -
  have "ok (deactivate_members w token ms req)"
    by (induction ms) (auto intro!: triple_ret keeps_andThen ask_quiet simp: Let_def)
  then show ?thesis unfolding deactivateFailure_def by (intro keeps_andThen triple_ret) simp_all
qed

lemma check_exposure_quiet: "ok (check_exposure w v f ms)"
  unfolding check_exposure_def
  by (intro triple_if keeps_andThen ask_quiet deactivateFailure_quiet not_observable_keeps triple_ret) simp_all

end

text \<open>Provisioning too: a monitor that was refused, and one that is remembered.\<close>

locale provision_run = quiet_run w v J X
  for w :: world and v :: run_env and J :: "trace \<Rightarrow> provisioned list \<Rightarrow> bool" and X :: "run_state \<Rightarrow> bool" +
  assumes refused_step: "J tr hs \<Longrightarrow> J (tr @ [Provision sv tg pc (Inl msg)]) hs"
    and provisioned_step: "J tr hs \<Longrightarrow>
      J (tr @ [Provision (ad_ServiceID a) tg pc (Inr h)]) (hs @ [\<lparr>pv_adapter = a, pv_handle = h\<rparr>])"
begin

lemma provision_call_keeps:
  "ok (andThen (ask (\<lambda>tr. w_provision w tr (ad_ServiceID a) tgt cfg) (Provision (ad_ServiceID a) tgt cfg)) (\<lambda>r.
     case r of
       Inl e \<Rightarrow> andThen (logMonitorReport w run a (f e)) (\<lambda>_. ret True)
     | Inr handle \<Rightarrow> andThen (add_handle \<lparr>pv_adapter = a, pv_handle = handle\<rparr>) (\<lambda>_. ret False)))"
proof (rule triple_andThen [where R = "\<lambda>r s. (case r of Inl e \<Rightarrow> J (rs_trace s) (rs_handles s)
      | Inr h \<Rightarrow> J (rs_trace s) (rs_handles s @ [\<lparr>pv_adapter = a, pv_handle = h\<rparr>])) \<and> rs_reason s \<in> set run_reasons"])
  show "triple I (ask (\<lambda>tr. w_provision w tr (ad_ServiceID a) tgt cfg) (Provision (ad_ServiceID a) tgt cfg))
      (\<lambda>r s. (case r of Inl e \<Rightarrow> J (rs_trace s) (rs_handles s)
        | Inr h \<Rightarrow> J (rs_trace s) (rs_handles s @ [\<lparr>pv_adapter = a, pv_handle = h\<rparr>])) \<and> rs_reason s \<in> set run_reasons) X"
    by (intro triple_ask) (auto intro: refused_step provisioned_step split: sum.splits)
next
  fix r :: "MonitorHandle result"
  show "triple (\<lambda>s. (case r of Inl e \<Rightarrow> J (rs_trace s) (rs_handles s)
        | Inr h \<Rightarrow> J (rs_trace s) (rs_handles s @ [\<lparr>pv_adapter = a, pv_handle = h\<rparr>])) \<and> rs_reason s \<in> set run_reasons)
      (case r of Inl e \<Rightarrow> andThen (logMonitorReport w run a (f e)) (\<lambda>_. ret True)
         | Inr handle \<Rightarrow> andThen (add_handle \<lparr>pv_adapter = a, pv_handle = handle\<rparr>) (\<lambda>_. ret False)) (\<lambda>_. I) X"
  proof (cases r)
    case (Inl e)
    then show ?thesis by (auto intro!: keeps_andThen report_keeps triple_ret)
  next
    case (Inr h)
    then show ?thesis by (simp add: triple_def andThen_def add_handle_def ret_def)
  qed
qed

lemma provisionAdapter_keeps: "ok (provisionAdapter w sc ep r t cd a)"
  unfolding provisionAdapter_def Let_def
  by (rule triple_option; rule provision_call_keeps [THEN triple_weaken] keeps_andThen)
    (auto intro: report_keeps)

lemma provisionAdapters_keeps: "ok (provisionAdapters w sc ep r t cd as)"
  by (induction as) (auto intro!: keeps_andThen provisionAdapter_keeps triple_ret)

end

text \<open>The whole run: every kind of step keeps the property, and an early return keeps it too.\<close>

locale run_invariant = provision_run w v J X
  for w :: world and v :: run_env and J :: "trace \<Rightarrow> provisioned list \<Rightarrow> bool" and X :: "run_state \<Rightarrow> bool" +
  assumes exit_inv: "X s \<Longrightarrow> J (rs_trace s) (rs_handles s) \<and> rs_reason s \<in> set run_reasons"
    and started_step: "J tr hs \<Longrightarrow> f \<in> set (sc_Failures (re_sc v)) \<Longrightarrow> members_for w v f = Inr ms \<Longrightarrow>
      all_activated v f ms tr \<Longrightarrow> er_EventType r = ''failure_start'' \<Longrightarrow> er_FailureType r = f_Type f \<Longrightarrow>
      J (tr @ [InsertEvent r e]) hs"
    and ended_step: "J tr hs \<Longrightarrow> f \<in> set (sc_Failures (re_sc v)) \<Longrightarrow> members_for w v f = Inr ms \<Longrightarrow>
      all_deactivated v f ms tr \<Longrightarrow> er_EventType r = ''failure_end'' \<Longrightarrow> er_FailureType r = f_Type f \<Longrightarrow>
      J (tr @ [InsertEvent r e]) hs"
begin

lemma activateFailure_post:
  "triple (\<lambda>s. I s \<and> all_activated v f got (rs_trace s)) (activateFailure w (re_token v) ms (activateRequest v f))
     (\<lambda>err s. I s \<and> (err = None \<longrightarrow> all_activated v f (got @ ms) (rs_trace s))) X"
proof (induction ms arbitrary: got)
  case Nil
  show ?case by (auto intro!: triple_ret)
next
  case (Cons m ms)
  show ?case
    unfolding activateFailure.simps Let_def
  proof (rule triple_andThen)
    show "triple (\<lambda>s. I s \<and> all_activated v f got (rs_trace s))
        (ask (\<lambda>tr. w_activate w tr m (activateRequest v f))
          (Activate (controlClientForMember (re_token v)) m (activateRequest v f)))
        (\<lambda>err s. I s \<and> (err = None \<longrightarrow> all_activated v f (got @ [m]) (rs_trace s))) X"
      by (intro triple_ask) (auto intro: quiet_step simp: all_activated_def)
  next
    fix err :: "string option"
    show "triple (\<lambda>s. I s \<and> (err = None \<longrightarrow> all_activated v f (got @ [m]) (rs_trace s)))
        (case err of None \<Rightarrow> activateFailure w (re_token v) ms (activateRequest v f)
          | Some e \<Rightarrow> ret (Some (cmb_Kind m @ ''/'' @ cmb_ID m @ '': '' @ e)))
        (\<lambda>err s. I s \<and> (err = None \<longrightarrow> all_activated v f (got @ m # ms) (rs_trace s))) X"
      using Cons.IH [of "got @ [m]"] by (cases err) (auto intro!: triple_ret)
  qed
qed

lemma deactivate_members_post:
  "triple (\<lambda>s. I s \<and> all_deactivated v f got (rs_trace s)) (deactivate_members w (re_token v) ms (deactivateRequest v f))
     (\<lambda>_ s. I s \<and> all_deactivated v f (got @ ms) (rs_trace s)) X"
proof (induction ms arbitrary: got)
  case Nil
  show ?case by (auto intro!: triple_ret)
next
  case (Cons m ms)
  have ask: "triple (\<lambda>s. I s \<and> all_deactivated v f got (rs_trace s))
      (ask (\<lambda>tr. w_deactivate w tr m (deactivateRequest v f))
        (Deactivate (controlClientForMember (re_token v)) m (deactivateRequest v f)))
      (\<lambda>_ s. I s \<and> all_deactivated v f (got @ [m]) (rs_trace s)) X"
    by (intro triple_ask) (auto intro: quiet_step simp: all_deactivated_def)
  show ?case
    unfolding deactivate_members.simps Let_def
    by (rule triple_andThen [OF ask], rule triple_andThen [OF Cons.IH]) (auto intro!: triple_ret)
qed

lemma deactivateFailure_post:
  "triple I (deactivateFailure w (re_token v) ms (deactivateRequest v f))
     (\<lambda>_ s. I s \<and> all_deactivated v f ms (rs_trace s)) X"
proof -
  have "triple I (deactivate_members w (re_token v) ms (deactivateRequest v f))
      (\<lambda>_ s. I s \<and> all_deactivated v f ms (rs_trace s)) X"
    using deactivate_members_post [of f "[]" ms]
    by (rule triple_weaken) (simp_all add: all_deactivated_def)
  then show ?thesis
    unfolding deactivateFailure_def by (rule triple_andThen) (auto intro!: triple_ret)
qed

lemma activated_stable: "all_activated v f ms tr \<Longrightarrow> all_activated v f ms (tr @ [x])"
  by (simp add: all_activated_def)

lemma deactivated_stable: "all_deactivated v f ms tr \<Longrightarrow> all_deactivated v f ms (tr @ [x])"
  by (auto simp: all_deactivated_def)

lemma check_exposure_post:
  "triple (\<lambda>s. I s \<and> all_activated v f ms (rs_trace s)) (check_exposure w v f ms)
     (\<lambda>_ s. I s \<and> all_activated v f ms (rs_trace s)) X"
proof -
  have probe: "triple (\<lambda>s. I s \<and> all_activated v f ms (rs_trace s)) (ask g Probed)
      (\<lambda>_ s. I s \<and> all_activated v f ms (rs_trace s)) X" for g
    by (intro triple_ask) (auto intro: quiet_step activated_stable)
  have told: "triple (\<lambda>s. I s \<and> all_activated v f ms (rs_trace s))
      (deactivateFailure w (re_token v) ms (deactivateRequest v f)) (\<lambda>_. I) X"
    by (rule triple_weaken [OF deactivateFailure_post]) auto
  have gone: "triple I (andThen (not_observable w v f (Some (controlMemberIDs ms)) x) (\<lambda>_. ret (Some x))) Q X" for x Q
    by (rule triple_andThen [OF not_observable_exits]) (simp add: triple_def)
  note unseen = triple_andThen [OF told gone]
  show ?thesis
    unfolding check_exposure_def
    by (intro triple_if triple_ret triple_andThen [OF probe] unseen) simp_all
qed

text \<open>Logging a start once all members have the failure, and an end once all have been told.\<close>

lemma logged_start:
  assumes "f \<in> set (sc_Failures (re_sc v))" and "members_for w v f = Inr ms"
  shows "triple (\<lambda>s. I s \<and> all_activated v f ms (rs_trace s))
    (mustLog w (re_runID v) (log_target v) ''failure_start'' (f_Type f) d) (\<lambda>_. I) X"
proof -
  have now: "triple (\<lambda>s. I s \<and> all_activated v f ms (rs_trace s)) (Now w)
      (\<lambda>_ s. I s \<and> all_activated v f ms (rs_trace s)) X"
    unfolding Now_def by (intro triple_ask) (auto intro: quiet_step activated_stable)
  have row: "triple (\<lambda>s. I s \<and> all_activated v f ms (rs_trace s)) (andThen (ask g (InsertEvent r)) (\<lambda>err. ret (h err)))
      (\<lambda>_. I) X" if "er_EventType r = ''failure_start''" "er_FailureType r = f_Type f" for g r and h :: "_ \<Rightarrow> string option"
    by (rule triple_andThen [where R = "\<lambda>_. I"])
      (auto intro!: triple_ask triple_ret started_step [OF _ assms _ that])
  have "triple (\<lambda>s. I s \<and> all_activated v f ms (rs_trace s))
      (logEvent w (re_runID v) (log_target v) ''failure_start'' (f_Type f) d) (\<lambda>_. I) X"
    unfolding logEvent_def Let_def by (rule triple_andThen [OF now row]) simp_all
  then show ?thesis
    unfolding mustLog_def by (rule triple_andThen) (auto intro!: triple_option triple_ret exit_keeps)
qed

lemma logged_end:
  assumes "f \<in> set (sc_Failures (re_sc v))" and "members_for w v f = Inr ms"
  shows "triple (\<lambda>s. I s \<and> all_deactivated v f ms (rs_trace s))
    (mustLog w (re_runID v) (log_target v) ''failure_end'' (f_Type f) d) (\<lambda>_. I) X"
proof -
  have now: "triple (\<lambda>s. I s \<and> all_deactivated v f ms (rs_trace s)) (Now w)
      (\<lambda>_ s. I s \<and> all_deactivated v f ms (rs_trace s)) X"
    unfolding Now_def by (intro triple_ask) (auto intro: quiet_step deactivated_stable)
  have row: "triple (\<lambda>s. I s \<and> all_deactivated v f ms (rs_trace s)) (andThen (ask g (InsertEvent r)) (\<lambda>err. ret (h err)))
      (\<lambda>_. I) X" if "er_EventType r = ''failure_end''" "er_FailureType r = f_Type f" for g r and h :: "_ \<Rightarrow> string option"
    by (rule triple_andThen [where R = "\<lambda>_. I"])
      (auto intro!: triple_ask triple_ret ended_step [OF _ assms _ that])
  have "triple (\<lambda>s. I s \<and> all_deactivated v f ms (rs_trace s))
      (logEvent w (re_runID v) (log_target v) ''failure_end'' (f_Type f) d) (\<lambda>_. I) X"
    unfolding logEvent_def Let_def by (rule triple_andThen [OF now row]) simp_all
  then show ?thesis
    unfolding mustLog_def by (rule triple_andThen) (auto intro!: triple_option triple_ret exit_keeps)
qed

lemma activate_event_keeps:
  assumes f: "f \<in> set (sc_Failures (re_sc v))"
  shows "ok (activate_event w v f)"
proof (cases "members_for w v f")
  case (Inl err)
  then show ?thesis
    by (simp add: activate_event_def) (intro conjI impI not_observable_keeps exit_keeps, simp)
next
  case (Inr ms)
  have act: "triple I (activateFailure w (re_token v) ms (activateRequest v f))
      (\<lambda>err s. I s \<and> (err = None \<longrightarrow> all_activated v f ms (rs_trace s))) X"
    using activateFailure_post [of f "[]" ms] by (rule triple_weaken) (simp_all add: all_activated_def)
  have rest: "triple (\<lambda>s. I s \<and> all_activated v f ms (rs_trace s))
      (andThen (check_exposure w v f ms) (\<lambda>exposure.
       andThen (mustLog w (re_runID v) (log_target v) ''failure_start'' (f_Type f) (d exposure)) (\<lambda>_.
       andThen (note_started w) (\<lambda>_.
       andThen (get (\<lambda>s. rs_baseline s \<noteq> None)) (\<lambda>baseline.
         if baseline then
           andThen (baseline_count 1) (\<lambda>_. mustRecord w (re_runID v) (log_target v) ''active_start'')
         else ret ()))))) (\<lambda>_. I) X" for d
    by (rule triple_andThen [OF check_exposure_post], rule triple_andThen [OF logged_start [OF f Inr]])
      (intro keeps_andThen note_started_keeps triple_get triple_if set_field_keeps mustRecord_keeps triple_ret, simp_all)
  show ?thesis
    unfolding activate_event_def Inr sum.case
  proof (rule triple_andThen [OF act])
    fix err :: "string option"
    show "triple (\<lambda>s. I s \<and> (err = None \<longrightarrow> all_activated v f ms (rs_trace s)))
      (case err of
         None \<Rightarrow> andThen (check_exposure w v f ms) (\<lambda>exposure.
           andThen (mustLog w (re_runID v) (log_target v) ''failure_start'' (f_Type f)
             (Failure_details (failureParams (re_sc v) f) (Some (controlMemberIDs ms)) exposure)) (\<lambda>_.
           andThen (note_started w) (\<lambda>_.
           andThen (get (\<lambda>s. rs_baseline s \<noteq> None)) (\<lambda>baseline.
             if baseline then
               andThen (baseline_count 1) (\<lambda>_. mustRecord w (re_runID v) (log_target v) ''active_start'')
             else ret ()))))
       | Some e \<Rightarrow> exit_with ''adapter_error'' (Some (''runner: activate '' @ f_Type f @ '': '' @ e)))
      (\<lambda>_. I) X"
      using rest by (cases err) (auto intro!: exit_keeps)
  qed
qed

lemma deactivate_event_keeps:
  assumes f: "f \<in> set (sc_Failures (re_sc v))"
  shows "ok (deactivate_event w v f)"
proof (cases "members_for w v f")
  case (Inl err)
  then show ?thesis by (auto simp: deactivate_event_def intro!: exit_keeps)
next
  case (Inr ms)
  have set: "ok (\<lambda>s. (Some (), s\<lparr>rs_ended := t\<rparr>))" for t by (simp add: triple_def)
  show ?thesis
    unfolding deactivate_event_def Inr sum.case
    by (rule triple_andThen [OF deactivateFailure_post], rule triple_andThen [OF logged_end [OF f Inr]])
      (intro keeps_andThen Now_keeps set triple_get triple_if mustRecord_keeps set_field_keeps triple_ret, simp_all)
qed

lemma run_event_keeps: "fe_failure e \<in> set (sc_Failures (re_sc v)) \<Longrightarrow> ok (run_event w v e)"
  unfolding run_event_def
  by (intro keeps_andThen await_event_keeps triple_if activate_event_keeps deactivate_event_keeps)

lemma timeline_keeps: "ok (each (run_event w v) (scheduleFailureEvents st d (sc_Failures (re_sc v))))"
  by (rule triple_each, rule run_event_keeps) (auto simp: set_schedule)

lemma drive_keeps: "ok (drive w v b)"
  unfolding drive_def by (intro keeps_andThen Now_keeps timeline_keeps wind_down_keeps)

lemma provision_and_drive_keeps: "ok (provision_and_drive w v t cd as)"
  unfolding provision_and_drive_def
  by (intro keeps_andThen provisionAdapters_keeps triple_if set_field_keeps triple_ret triple_get drive_keeps) simp_all

lemma ok_snd:
  assumes "ok m" and "I s"
  shows "I (snd (m s))"
proof -
  have "triple I m (\<lambda>_. I) I" by (rule triple_weaken [OF assms(1)]) (use exit_inv in blast)+
  then show ?thesis using assms(2) by (rule triple_snd)
qed

lemma cleanup_keeps:
  assumes "I s"
  shows "I (cleanup w s)"
proof -
  obtain errs s' where d: "deprovisionAll w (rs_handles s) s = (errs, s')" by (cases "deprovisionAll w (rs_handles s) s")
  have "I s'" using ok_snd [OF deprovisionAll_keeps assms, of "rs_handles s"] d by simp
  then show ?thesis by (simp add: cleanup_def d)
qed

lemma guarded_keeps:
  assumes "I s"
  shows "I (guarded w v t cd as s)"
proof -
  obtain r s' where b: "before_provision w v t s = (r, s')" by (cases "before_provision w v t s")
  have "I s'" using ok_snd [OF before_provision_keeps assms, of t] b by simp
  then have "I (cleanup w (snd (provision_and_drive w v t cd as s')))"
    by (intro cleanup_keeps ok_snd [OF provision_and_drive_keeps])
  with \<open>I s'\<close> show ?thesis by (cases r) (simp_all add: guarded_def b)
qed

end

end
