(* ===== verification/Run_Guarantees.thy ===== *)
theory Run_Guarantees
  imports Runner_Logic
begin

text \<open>
  What every run guarantees, in any world: the interpretations of the interfaces of
  \<open>Runner_Logic\<close> and the properties of \<open>Run\<close> that rest on them.
\<close>

section \<open>Provisioned monitors are remembered\<close>

fun provision_of :: "step \<Rightarrow> (string \<times> MonitorHandle) option" where
  "provision_of (Provision sv tg cfg (Inr h)) = Some (sv, h)"
| "provision_of _ = None"

definition provisioned_in :: "trace \<Rightarrow> (string \<times> MonitorHandle) list" where
  "provisioned_in tr = List.map_filter provision_of tr"

definition handle_key :: "provisioned \<Rightarrow> string \<times> MonitorHandle" where
  "handle_key p = (ad_ServiceID (pv_adapter p), pv_handle p)"

definition remembered :: "trace \<Rightarrow> provisioned list \<Rightarrow> bool" where
  "remembered tr hs \<longleftrightarrow> map handle_key hs = provisioned_in tr"

lemma provisioned_in_simps [simp]:
  "provisioned_in [] = []"
  "provisioned_in (x # xs) = (case provision_of x of None \<Rightarrow> provisioned_in xs | Some p \<Rightarrow> p # provisioned_in xs)"
  "provisioned_in (xs @ ys) = provisioned_in xs @ provisioned_in ys"
  by (simp_all add: provisioned_in_def List.map_filter_def split: option.split)

lemma provisioned_in_snoc:
  "provisioned_in (tr @ [x]) = provisioned_in tr @ (case provision_of x of None \<Rightarrow> [] | Some p \<Rightarrow> [p])"
  by (induction tr) (auto simp: provisioned_in_def List.map_filter_simps split: option.splits)

lemma quiet_not_provision: "quiet x \<Longrightarrow> provision_of x = None"
  by (cases x rule: provision_of.cases) auto

abbreviation inv_of :: "(trace \<Rightarrow> provisioned list \<Rightarrow> bool) \<Rightarrow> run_state \<Rightarrow> bool" where
  "inv_of J s \<equiv> J (rs_trace s) (rs_handles s) \<and> rs_reason s \<in> set run_reasons"

interpretation memory: run_invariant w v remembered "inv_of remembered" for w v
  by unfold_locales
    (auto simp: remembered_def provisioned_in_snoc quiet_not_provision handle_key_def exit_reasons_run)

section \<open>Ground truth is backed by control calls\<close>

definition backed :: "world \<Rightarrow> run_env \<Rightarrow> string \<Rightarrow> (Failure \<Rightarrow> controlMember list \<Rightarrow> bool) \<Rightarrow> bool" where
  "backed w v ty P \<longleftrightarrow>
    list_ex (\<lambda>f. ty = f_Type f \<and> (case members_for w v f of Inl e \<Rightarrow> False | Inr ms \<Rightarrow> P f ms))
      (sc_Failures (re_sc v))"

lemma backedI:
  "f \<in> set (sc_Failures (re_sc v)) \<Longrightarrow> members_for w v f = Inr ms \<Longrightarrow> P f ms \<Longrightarrow> ty = f_Type f \<Longrightarrow> backed w v ty P"
  unfolding backed_def list_ex_iff by (rule bexI [of _ f]) simp_all

fun row_backed :: "world \<Rightarrow> run_env \<Rightarrow> trace \<Rightarrow> step \<Rightarrow> bool" where
  "row_backed w v tr (InsertEvent r e) =
    (if er_EventType r = ''failure_start'' then backed w v (er_FailureType r) (\<lambda>f ms. all_activated v f ms tr)
     else if er_EventType r = ''failure_end'' then backed w v (er_FailureType r) (\<lambda>f ms. all_deactivated v f ms tr)
     else True)"
| "row_backed w v tr _ = True"

text \<open>Every row of the trace against the part of the trace before it.\<close>

fun truthful :: "world \<Rightarrow> run_env \<Rightarrow> trace \<Rightarrow> trace \<Rightarrow> bool" where
  "truthful w v before [] = True"
| "truthful w v before (x # xs) = (row_backed w v before x \<and> truthful w v (before @ [x]) xs)"

lemma truthful_snoc [simp]:
  "truthful w v before (xs @ [x]) \<longleftrightarrow> truthful w v before xs \<and> row_backed w v (before @ xs) x"
  by (induction xs arbitrary: before) auto

lemma quiet_backed: "quiet x \<Longrightarrow> row_backed w v tr x"
  by (cases x) auto

interpretation truth: run_invariant w v "\<lambda>tr hs. truthful w v [] tr" "inv_of (\<lambda>tr hs. truthful w v [] tr)" for w v
  by unfold_locales
    (auto simp: quiet_backed exit_reasons_run intro: backedI)

section \<open>Only the end closes the run\<close>

definition open_trace :: "trace \<Rightarrow> bool" where
  "open_trace tr \<longleftrightarrow> list_all (\<lambda>x. \<not> is_close x) tr"

interpretation opened: run_invariant w v
    "\<lambda>tr hs. open_trace tr \<and> (\<exists>mid. tr = Clock t # InsertRun rec None # mid)"
    "inv_of (\<lambda>tr hs. open_trace tr \<and> (\<exists>mid. tr = Clock t # InsertRun rec None # mid))" for w v t rec
  by unfold_locales (auto simp: open_trace_def quiet_def exit_reasons_run)

section \<open>Cleanup\<close>

fun failed_cleanup :: "string \<Rightarrow> MonitorHandle \<Rightarrow> step \<Rightarrow> bool" where
  "failed_cleanup sv h (Deprovision sv' h' (Some e)) = (sv' = sv \<and> h' = h)"
| "failed_cleanup sv h _ = False"

text \<open>A monitor is settled once it is removed, or once removing it has failed three times.\<close>

definition settled :: "trace \<Rightarrow> string \<times> MonitorHandle \<Rightarrow> bool" where
  "settled tr k = (case k of (sv, h) \<Rightarrow>
     Deprovision sv h None \<in> set tr \<or> length (filter (failed_cleanup sv h) tr) \<ge> deprovisionAttempts)"

lemma settled_append: "settled tr k \<Longrightarrow> settled (tr @ ext) k" "settled ext k \<Longrightarrow> settled (tr @ ext) k"
  by (auto simp: settled_def split: prod.splits)

lemma deprovision_tries_trace:
  "\<exists>ext e. deprovision_tries w p err0 n s = (Some e, s\<lparr>rs_trace := rs_trace s @ ext\<rparr>) \<and>
     (Deprovision (ad_ServiceID (pv_adapter p)) (pv_handle p) None \<in> set ext \<or>
      length (filter (failed_cleanup (ad_ServiceID (pv_adapter p)) (pv_handle p)) ext) \<ge> n)"
proof (induction n arbitrary: err0 s)
  case 0
  show ?case by (rule exI [of _ "[]"]) (simp add: ret_def)
next
  case (Suc n)
  define r where "r = w_deprovision w (rs_trace s) (ad_ServiceID (pv_adapter p)) (pv_handle p)"
  define x where "x = Deprovision (ad_ServiceID (pv_adapter p)) (pv_handle p) r"
  define s1 where "s1 = s\<lparr>rs_trace := rs_trace s @ [x]\<rparr>"
  show ?case
  proof (cases r)
    case None
    then show ?thesis
      by (intro exI [of _ "[x]"] exI [of _ None])
        (simp add: andThen_def ask_def ret_def Let_def r_def [symmetric] x_def)
  next
    case (Some e)
    obtain ext e' where rest: "deprovision_tries w p (Some e) n s1 = (Some e', s1\<lparr>rs_trace := rs_trace s1 @ ext\<rparr>)"
      and set: "Deprovision (ad_ServiceID (pv_adapter p)) (pv_handle p) None \<in> set ext \<or>
        length (filter (failed_cleanup (ad_ServiceID (pv_adapter p)) (pv_handle p)) ext) \<ge> n"
      using Suc.IH [of "Some e" s1] by blast
    have "deprovision_tries w p err0 (Suc n) s = deprovision_tries w p (Some e) n s1"
      using Some by (simp add: andThen_def ask_def Let_def s1_def x_def r_def)
    then show ?thesis
      using rest set Some by (intro exI [of _ "x # ext"] exI [of _ e']) (auto simp: s1_def x_def)
  qed
qed

lemma deprovisionOne_trace:
  "\<exists>ext e. deprovisionOne w p s = (Some e, s\<lparr>rs_trace := rs_trace s @ ext\<rparr>) \<and> settled ext (handle_key p)"
proof -
  have "\<not> deprovisionAttempts < 1" by (simp add: deprovisionAttempts_def)
  then show ?thesis
    using deprovision_tries_trace [of w p None deprovisionAttempts s]
    by (auto simp: deprovisionOne_def settled_def handle_key_def)
qed

lemma deprovisionAll_trace:
  "\<exists>ext n. deprovisionAll w ps s = (Some n, s\<lparr>rs_trace := rs_trace s @ ext\<rparr>) \<and> (\<forall>p \<in> set ps. settled ext (handle_key p))"
proof (induction ps arbitrary: s)
  case Nil
  show ?case by (rule exI [of _ "[]"]) (simp add: ret_def)
next
  case (Cons p ps)
  obtain ext e where one: "deprovisionOne w p s = (Some e, s\<lparr>rs_trace := rs_trace s @ ext\<rparr>)" "settled ext (handle_key p)"
    using deprovisionOne_trace [of w p s] by blast
  obtain ext' n where rest: "deprovisionAll w ps (s\<lparr>rs_trace := rs_trace s @ ext\<rparr>) =
      (Some n, s\<lparr>rs_trace := rs_trace s @ ext @ ext'\<rparr>)" "\<forall>p \<in> set ps. settled ext' (handle_key p)"
    using Cons.IH [of "s\<lparr>rs_trace := rs_trace s @ ext\<rparr>"] by auto
  show ?case
    using one rest settled_append
    by (intro exI [of _ "ext @ ext'"] exI [of _ "if e = None then n else Suc n"])
      (auto simp: andThen_def ret_def)
qed

lemma cleanup_trace:
  "\<exists>ext. rs_trace (cleanup w s) = rs_trace s @ ext \<and> rs_handles (cleanup w s) = rs_handles s \<and>
     (\<forall>p \<in> set (rs_handles s). settled ext (handle_key p))"
proof -
  obtain ext n where d: "deprovisionAll w (rs_handles s) s = (Some n, s\<lparr>rs_trace := rs_trace s @ ext\<rparr>)"
    "\<forall>p \<in> set (rs_handles s). settled ext (handle_key p)"
    using deprovisionAll_trace [of w "rs_handles s" s] by blast
  then show ?thesis by (intro exI [of _ ext]) (simp add: cleanup_def)
qed

section \<open>The shape of a run\<close>

lemma close_run_shape:
  "\<exists>t row e t' e'. rs_trace (close_run w v s) =
      rs_trace s @ [Clock t, InsertEvent row e, Clock t', CloseRun (re_runID v) t' (rs_reason s) e'] \<and>
    er_EventType row = ''run_end'' \<and> er_Details row = Reason_details (rs_reason s) \<and>
    rs_error (close_run w v s) = rs_error s"
  by (simp add: close_run_def logEvent_def Now_def andThen_def ask_def ret_def Let_def)

text \<open>All a run does that is refused: read the clock, and fail to insert its row.\<close>

fun not_started :: "step \<Rightarrow> bool" where
  "not_started (Clock t) = True"
| "not_started (InsertRun r e) = (e \<noteq> None)"
| "not_started _ = False"

text \<open>What \<open>Run\<close> works out before its first effect.\<close>

definition env_of ::
  "world \<Rightarrow> string \<Rightarrow> Scenario \<Rightarrow> Config \<Rightarrow> Service list option \<Rightarrow> run_env \<Rightarrow> bool" where
  "env_of w runID sc fc svcCfg v \<longleftrightarrow>
    re_sc v = sc \<and> re_fleet v = fc \<and> re_services v = svcCfg \<and> re_runID v = runID \<and> re_seed v = effectiveSeed sc (w_now w []) \<and>
    resolveTarget (cfg_Targets fc) (sc_Target sc) = Inr (re_target v) \<and>
    targetEndpointForRun (w_sha w) (w_sprintf w) sc (re_target v) runID (re_seed v) = Inr (re_endpoint v) \<and>
    readFleetToken w fc = Inr (re_token v)"

lemma Run_cases:
  obtains (refused) err tr where "Run w runID sc fc as svcCfg opts = (([], Some err), tr)"
      "list_all not_started tr" "\<And>v. env_of w runID sc fc svcCfg v \<Longrightarrow> \<exists>r. w_insert_run w [Clock (w_now w [])] r \<noteq> None"
  | (ran) v rec t b where "Run w runID sc fc as svcCfg opts =
      ((runID, rs_error (close_run w v (guarded w v t (op_requireCooldownReset opts) as (initial_state [Clock t, InsertRun rec None] b)))),
       rs_trace (close_run w v (guarded w v t (op_requireCooldownReset opts) as (initial_state [Clock t, InsertRun rec None] b))))"
      "env_of w runID sc fc svcCfg v" "run_ID rec = runID" "run_Seed rec = re_seed v" "t = w_now w []"
      "b = newDNSBaselinePlan (w_json_list w) sc fc svcCfg (ep_host (re_endpoint v))" "w_insert_run w [Clock t] rec = None"
proof (cases "resolveTarget (cfg_Targets fc) (sc_Target sc)")
  case (Inl e)
  then show thesis by - (rule refused, simp add: Run_def Let_def, simp, auto simp: env_of_def)
next
  case t: (Inr target)
  show thesis
  proof (cases "targetEndpointForRun (w_sha w) (w_sprintf w) sc target runID (effectiveSeed sc (w_now w []))")
    case (Inl e)
    with t show thesis by - (rule refused, simp add: Run_def Let_def, simp, auto simp: env_of_def)
  next
    case ep: (Inr endpoint)
    show thesis
    proof (cases "readFleetToken w fc")
      case (Inl e)
      with t ep show thesis by - (rule refused, simp add: Run_def Let_def, simp, auto simp: env_of_def)
    next
      case tok: (Inr token)
      define b where "b = newDNSBaselinePlan (w_json_list w) sc fc svcCfg (ep_host endpoint)"
      define rec where "rec = \<lparr>run_ID = runID, run_ScenarioID = sc_ID sc, run_ScenarioVersion = sc_Version sc,
        run_Seed = effectiveSeed sc (w_now w []), run_TargetID = sc_Target sc, run_CampaignID = op_campaignRunID opts,
        run_Parameters = run_parameters sc (monitorTargetURLForRun (w_sha w) sc endpoint runID) (b \<noteq> None) (op_parameters opts),
        run_StartedAt = w_now w []\<rparr>"
      show thesis
      proof (cases "w_insert_run w [Clock (w_now w [])] rec")
        case (Some e)
        with t ep tok show thesis
          by - (rule refused, simp add: Run_def Let_def rec_def b_def, simp, blast)
      next
        case None
        with t ep tok show thesis
          by (intro ran [of "\<lparr>re_sc = sc, re_fleet = fc, re_services = svcCfg, re_target = target, re_endpoint = endpoint,
              re_runID = runID, re_seed = effectiveSeed sc (w_now w []), re_token = token\<rparr>" "w_now w []" rec b])
            (simp_all add: Run_def Let_def rec_def b_def env_of_def)
      qed
    qed
  qed
qed

section \<open>No monitor is left behind\<close>

text \<open>Nothing is provisioned before the deferred cleanup is in place.\<close>

interpretation early: quiet_run w v "\<lambda>tr hs. hs = []" "\<lambda>s. rs_handles s = []" for w v
  by unfold_locales simp_all

lemma guarded_settled:
  assumes "rs_handles s = []" and "rs_reason s \<in> set run_reasons" and "provisioned_in (rs_trace s) = []"
  shows "list_all (settled (rs_trace (guarded w v t cd as s))) (provisioned_in (rs_trace (guarded w v t cd as s)))"
proof -
  obtain r s' where b: "before_provision w v t s = (r, s')" by (cases "before_provision w v t s")
  have mem: "map handle_key (rs_handles (guarded w v t cd as s)) = provisioned_in (rs_trace (guarded w v t cd as s))"
    using memory.guarded_keeps [of s w v t cd as] assms by (simp add: remembered_def)
  show ?thesis
  proof (cases r)
    case None
    then have "rs_handles s' = []"
      using early.before_provision_keeps [of w v t] assms b by (auto simp: triple_def)
    with None mem b show ?thesis by (simp add: guarded_def)
  next
    case (Some u)
    obtain ext where "rs_trace (guarded w v t cd as s) = rs_trace (snd (provision_and_drive w v t cd as s')) @ ext"
        "\<forall>p \<in> set (rs_handles (guarded w v t cd as s)). settled ext (handle_key p)"
      using cleanup_trace [of w "snd (provision_and_drive w v t cd as s')"] Some b by (auto simp: guarded_def)
    then show ?thesis
      unfolding mem [symmetric] list_all_iff by (auto intro: settled_append)
  qed
qed

lemma not_started_provisioned: "list_all not_started tr \<Longrightarrow> provisioned_in tr = []"
proof -
  have "not_started x \<Longrightarrow> provision_of x = None" for x by (cases x) auto
  then show "list_all not_started tr \<Longrightarrow> provisioned_in tr = []"
    by (induction tr) auto
qed

text \<open>
  C5. Cleanup. Whatever the adapters, the control plane, the database and the clock do, and
  however the run ends (early returns included), every monitor that an adapter provisioned has by the
  end of the run been removed, or its removal was tried and failed three times.
\<close>

theorem monitors_settled:
  "list_all (settled (snd (Run w runID sc fc as svcCfg opts))) (provisioned_in (snd (Run w runID sc fc as svcCfg opts)))"
proof (rule Run_cases [of w runID sc fc as svcCfg opts])
  fix err tr
  assume "Run w runID sc fc as svcCfg opts = (([], Some err), tr)" "list_all not_started tr"
  then show ?thesis by (simp add: not_started_provisioned)
next
  fix v rec t b
  let ?g = "guarded w v t (op_requireCooldownReset opts) as (initial_state [Clock t, InsertRun rec None] b)"
  assume run: "Run w runID sc fc as svcCfg opts = ((runID, rs_error (close_run w v ?g)), rs_trace (close_run w v ?g))"
  have "list_all (settled (rs_trace ?g)) (provisioned_in (rs_trace ?g))"
    by (rule guarded_settled) (simp_all add: initial_state_def)
  moreover obtain ext where "rs_trace (close_run w v ?g) = rs_trace ?g @ ext" "provisioned_in ext = []"
    using close_run_shape [of w v ?g] by (elim exE conjE, simp)
  ultimately show ?thesis
    unfolding run by (auto elim!: list.pred_mono_strong intro: settled_append(1))
qed

section \<open>Ground truth tells no lies\<close>

lemma not_started_truthful: "list_all not_started tr \<Longrightarrow> truthful w v before tr"
proof -
  have "not_started x \<Longrightarrow> row_backed w v tr x" for x tr by (cases x) auto
  then show "list_all not_started tr \<Longrightarrow> truthful w v before tr" by (induction tr arbitrary: before) auto
qed

lemma truthful_closed:
  assumes "truthful w v [] (rs_trace s)"
  shows "truthful w v [] (rs_trace (close_run w v s))"
proof -
  obtain t row e t' e' where shape: "rs_trace (close_run w v s) =
      (((rs_trace s @ [Clock t]) @ [InsertEvent row e]) @ [Clock t']) @ [CloseRun (re_runID v) t' (rs_reason s) e']"
      "er_EventType row = ''run_end''"
    using close_run_shape [of w v s] by auto
  show ?thesis unfolding shape(1) truthful_snoc using assms shape(2) by simp
qed

text \<open>
  C2. Ground truth is backed by the control plane. Take any row of the kind \<open>failure_start\<close> that
  a run writes: it names a failure of the scenario, and every control member selected for that failure had
  before accepted exactly the activation the scenario asks for (run id, seed, host, path, parameters,
  source ranges, expiry). A \<open>failure_end\<close> row comes only after every member was sent the
  deactivation for that failure.
\<close>

theorem ground_truth_backed:
  "\<exists>v. truthful w v [] (snd (Run w runID sc fc as svcCfg opts)) \<and>
     (env_of w runID sc fc svcCfg v \<or> list_all not_started (snd (Run w runID sc fc as svcCfg opts)))"
proof (rule Run_cases [of w runID sc fc as svcCfg opts])
  fix err tr
  assume "Run w runID sc fc as svcCfg opts = (([], Some err), tr)" "list_all not_started tr"
  then show ?thesis by (simp add: not_started_truthful)
next
  fix v rec t b
  let ?g = "guarded w v t (op_requireCooldownReset opts) as (initial_state [Clock t, InsertRun rec None] b)"
  assume run: "Run w runID sc fc as svcCfg opts = ((runID, rs_error (close_run w v ?g)), rs_trace (close_run w v ?g))"
    "env_of w runID sc fc svcCfg v"
  have "inv_of (\<lambda>tr hs. truthful w v [] tr) ?g"
    by (rule truth.guarded_keeps) (simp add: initial_state_def)
  then show ?thesis using run by (intro exI [of _ v]) (simp add: truthful_closed)
qed

section \<open>The life of a run row\<close>

text \<open>
  C8. Every run that got its row closes it, once and last. Either the run was refused (it returns no
  run id and an error, and did nothing but read the clock and fail to insert its row), or the
  row was inserted first, the returned id is the one given, the row is closed by the last step and by no
  earlier one, the reason it is closed with is one of eight, and the \<open>run_end\<close> row
  written just before carries the same reason.
\<close>

theorem run_closed_once:
  "if list_all not_started (snd (Run w runID sc fc as svcCfg opts))
   then fst (fst (Run w runID sc fc as svcCfg opts)) = [] \<and> snd (fst (Run w runID sc fc as svcCfg opts)) \<noteq> None
   else fst (fst (Run w runID sc fc as svcCfg opts)) = runID \<and>
     (\<exists>t rec mid t1 row e1 t2 reason e2.
        snd (Run w runID sc fc as svcCfg opts) = Clock t # InsertRun rec None # mid @
          [Clock t1, InsertEvent row e1, Clock t2, CloseRun runID t2 reason e2] \<and>
        t = w_now w [] \<and> run_ID rec = runID \<and> run_Seed rec = effectiveSeed sc t \<and>
        list_all (\<lambda>x. \<not> is_close x) mid \<and> reason \<in> set run_reasons \<and>
        er_EventType row = ''run_end'' \<and> er_Details row = Reason_details reason)"
proof (rule Run_cases [of w runID sc fc as svcCfg opts])
  fix err tr
  assume "Run w runID sc fc as svcCfg opts = (([], Some err), tr)" "list_all not_started tr"
  then show ?thesis by simp
next
  fix v rec t b
  let ?g = "guarded w v t (op_requireCooldownReset opts) as (initial_state [Clock t, InsertRun rec None] b)"
  assume run: "Run w runID sc fc as svcCfg opts = ((runID, rs_error (close_run w v ?g)), rs_trace (close_run w v ?g))"
    and rec: "env_of w runID sc fc svcCfg v" "run_ID rec = runID" "run_Seed rec = re_seed v" "t = w_now w []"
  have inv: "inv_of (\<lambda>tr hs. open_trace tr \<and> (\<exists>mid. tr = Clock t # InsertRun rec None # mid)) ?g"
    by (rule opened.guarded_keeps) (simp add: initial_state_def open_trace_def)
  then obtain mid where mid: "rs_trace ?g = Clock t # InsertRun rec None # mid" "list_all (\<lambda>x. \<not> is_close x) mid"
    by (auto simp: open_trace_def)
  show ?thesis
    using close_run_shape [of w v ?g] run rec mid inv by (auto simp: env_of_def)
qed

end
