(* ===== verification/Run_Completion.thy ===== *)
theory Run_Completion
  imports Run_Guarantees
begin

text \<open>
  What a run that closes as planned has logged, what the measurement engine makes of that log, and
  when a run does close as planned.
\<close>

section \<open>The rows of a schedule\<close>

fun row_for :: "string \<Rightarrow> string \<Rightarrow> step \<Rightarrow> failureEvent \<Rightarrow> bool" where
  "row_for runID tg (InsertEvent r e) ev =
    (e = None \<and> er_RunID r = runID \<and> er_TargetID r = tg \<and> er_FailureType r = f_Type (fe_failure ev) \<and>
     er_EventType r = (if fe_activate ev then ''failure_start'' else ''failure_end''))"
| "row_for runID tg _ ev = False"

text \<open>The failure rows of the trace are those of the events \<open>es\<close>, in this order.\<close>

definition logged_rows :: "string \<Rightarrow> string \<Rightarrow> failureEvent list \<Rightarrow> trace \<Rightarrow> bool" where
  "logged_rows runID tg es tr \<longleftrightarrow> list_all2 (row_for runID tg) (filter failure_row tr) es"

lemma logged_rows_simps [simp]:
  "\<not> failure_row x \<Longrightarrow> logged_rows r tg es (tr @ [x]) \<longleftrightarrow> logged_rows r tg es tr"
  "logged_rows r tg [] [] "
  by (simp_all add: logged_rows_def)

lemma logged_rows_snoc:
  "logged_rows r tg es tr \<Longrightarrow> failure_row x \<Longrightarrow> row_for r tg x e \<Longrightarrow> logged_rows r tg (es @ [e]) (tr @ [x])"
  by (simp add: logged_rows_def list_all2_appendI)

interpretation rows: provision_run w v "\<lambda>tr hs. logged_rows r tg es tr \<and> remembered tr hs"
    "\<lambda>s. rs_reason s \<in> set exit_reasons" for w v r tg es
  by unfold_locales (auto simp: quiet_def quiet_not_provision remembered_def handle_key_def split: option.split)

abbreviation gone :: "run_state \<Rightarrow> bool" where
  "gone s \<equiv> rs_reason s \<in> set exit_reasons"

lemma triple_each_prefix:
  assumes "\<And>past x. x \<in> set xs \<Longrightarrow> triple (P past) (f x) (\<lambda>_. P (past @ [x])) X"
  shows "triple (P past) (each f xs) (\<lambda>_. P (past @ xs)) X"
  using assms
proof (induction xs arbitrary: past)
  case Nil
  show ?case by (auto intro!: triple_ret)
next
  case (Cons x xs)
  have "triple (P (past @ [x])) (each f xs) (\<lambda>_. P ((past @ [x]) @ xs)) X"
    by (rule Cons.IH) (use Cons.prems in simp)
  then show ?case using Cons.prems [of x past] by (auto intro!: triple_andThen [where m = "f x"])
qed

lemma triple_ex: "triple P m (\<lambda>_. Q t) X \<Longrightarrow> triple P m (\<lambda>_ s. \<exists>t. Q t s) X"
  by (rule triple_weaken) blast+

lemma log_row_post:
  assumes "ty = (if fe_activate ev then ''failure_start'' else ''failure_end'')" and "ft = f_Type (fe_failure ev)"
  shows "triple (rows.I r tg es) (mustLog w r tg ty ft d) (\<lambda>_. rows.I r tg (es @ [ev])) gone"
proof -
  have row: "triple (rows.I r tg es)
      (andThen (ask (\<lambda>tr. w_insert_event w tr row) (InsertEvent row)) (\<lambda>err. ret (map_option h err)))
      (\<lambda>err s. if err = None then rows.I r tg (es @ [ev]) s else True) gone"
    if "row = \<lparr>er_RunID = r, er_EventType = ty, er_TargetID = tg, er_FailureType = ft, er_OccurredAt = t, er_Details = d\<rparr>"
    for row t and h :: "string \<Rightarrow> string"
    using that assms
    by (intro triple_andThen [where R = "\<lambda>err s. if err = None then rows.I r tg (es @ [ev]) s else True"] triple_ask triple_ret)
      (auto simp: logged_rows_snoc remembered_def provisioned_in_snoc)
  have "triple (rows.I r tg es) (logEvent w r tg ty ft d) (\<lambda>err s. if err = None then rows.I r tg (es @ [ev]) s else True) gone"
    unfolding logEvent_def Let_def by (rule triple_andThen [OF rows.Now_keeps row]) simp
  then show ?thesis
    unfolding mustLog_def by (rule triple_andThen) (auto intro!: triple_option triple_ret triple_exit)
qed

abbreviation logged :: "run_env \<Rightarrow> failureEvent list \<Rightarrow> run_state \<Rightarrow> bool" where
  "logged v es \<equiv> rows.I (re_runID v) (log_target v) es"

lemma activate_event_logs:
  assumes "fe_activate e" and "fe_failure e = f"
  shows "triple (logged v es) (activate_event w v f) (\<lambda>_. logged v (es @ [e])) gone"
proof (cases "members_for w v f")
  case (Inl err)
  have no: "triple (logged v es) (not_observable w v f ms x) (\<lambda>_ _. False) gone" for ms x
    by (rule rows.not_observable_exits)
  have "triple (logged v es) (not_observable w v f ms x) (\<lambda>_. logged v (es @ [e])) gone" for ms x
    by (rule triple_weaken [OF no]) simp_all
  then show ?thesis
    by (simp add: activate_event_def Inl) (auto intro!: rows.exit_keeps)
next
  case (Inr ms)
  note rest = keeps_andThen rows.note_started_keeps triple_get triple_if rows.set_field_keeps rows.mustRecord_keeps triple_ret
  have row: "triple (logged v es) (mustLog w (re_runID v) (log_target v) ''failure_start'' (f_Type f) d)
      (\<lambda>_. logged v (es @ [e])) gone" for d
    by (rule log_row_post) (simp_all add: assms)
  have "triple (logged v es)
      (andThen (check_exposure w v f ms) (\<lambda>exposure.
       andThen (mustLog w (re_runID v) (log_target v) ''failure_start'' (f_Type f) (d exposure)) (\<lambda>_.
       andThen (note_started w) (\<lambda>_.
       andThen (get (\<lambda>s. rs_baseline s \<noteq> None)) (\<lambda>baseline.
         if baseline then
           andThen (baseline_count 1) (\<lambda>_. mustRecord w (re_runID v) (log_target v) ''active_start'')
         else ret ()))))) (\<lambda>_. logged v (es @ [e])) gone" for d
    by (rule triple_andThen [OF rows.check_exposure_quiet], rule triple_andThen [OF row]) (intro rest, simp_all)
  then show ?thesis
    unfolding activate_event_def Inr sum.case
    by (intro triple_andThen [OF rows.activateFailure_quiet] triple_option rows.exit_keeps) simp_all
qed

lemma deactivate_event_logs:
  assumes "\<not> fe_activate e" and "fe_failure e = f"
  shows "triple (logged v es) (deactivate_event w v f) (\<lambda>_. logged v (es @ [e])) gone"
proof (cases "members_for w v f")
  case (Inl err)
  then show ?thesis by (auto simp: deactivate_event_def intro!: rows.exit_keeps)
next
  case (Inr ms)
  note rest = keeps_andThen rows.Now_keeps triple_get triple_if rows.set_field_keeps rows.mustRecord_keeps triple_ret
  have row: "triple (logged v es) (mustLog w (re_runID v) (log_target v) ''failure_end'' (f_Type f) d)
      (\<lambda>_. logged v (es @ [e])) gone" for d
    by (rule log_row_post) (simp_all add: assms)
  have set: "triple (logged v es') (\<lambda>s. (Some (), s\<lparr>rs_ended := t\<rparr>)) (\<lambda>_. logged v es') gone" for t es'
    by (simp add: triple_def)
  show ?thesis
    unfolding deactivate_event_def Inr sum.case
    by (rule triple_andThen [OF rows.deactivateFailure_quiet], rule triple_andThen [OF row]) (intro rest set, simp_all)
qed

lemma run_event_logs: "triple (logged v es) (run_event w v e) (\<lambda>_. logged v (es @ [e])) gone"
  unfolding run_event_def
  by (rule triple_andThen [OF rows.await_event_keeps], rule triple_if)
    (simp_all only: activate_event_logs [OF _ refl] deactivate_event_logs [OF _ refl] not_False_eq_True)

abbreviation schedule_of :: "run_env \<Rightarrow> instant \<Rightarrow> failureEvent list" where
  "schedule_of v t \<equiv> scheduleFailureEvents t (sc_Duration (re_sc v)) (sc_Failures (re_sc v))"

lemma drive_logs: "triple (logged v []) (drive w v b) (\<lambda>_ s. \<exists>t. logged v (schedule_of v t) s) gone"
proof -
  have timeline: "triple (logged v []) (each (run_event w v) (schedule_of v t)) (\<lambda>_. logged v (schedule_of v t)) gone" for t
    using triple_each_prefix [of "schedule_of v t" "logged v" "run_event w v" gone "[]", OF run_event_logs] by simp
  show ?thesis
    unfolding drive_def
    by (rule triple_andThen [OF rows.Now_keeps], rule triple_andThen [OF timeline],
        rule triple_ex, rule rows.wind_down_keeps)
qed

text \<open>The log is complete: the whole schedule, or nothing when no monitor is there to watch.\<close>

definition log_complete :: "run_env \<Rightarrow> run_state \<Rightarrow> bool" where
  "log_complete v s \<longleftrightarrow> (if rs_handles s = [] then logged v [] s else (\<exists>t. logged v (schedule_of v t) s))"

lemma log_complete_iff:
  "log_complete v s \<longleftrightarrow> memory.I s \<and>
    (if provisioned_in (rs_trace s) = [] then logged_rows (re_runID v) (log_target v) [] (rs_trace s)
     else (\<exists>t. logged_rows (re_runID v) (log_target v) (schedule_of v t) (rs_trace s)))"
  unfolding log_complete_def remembered_def by (cases "rs_handles s") (auto simp: handle_key_def)

lemma cleanup_reason:
  "rs_reason (cleanup w s) = rs_reason s \<or> rs_reason (cleanup w s) = ''cleanup_error''"
  using deprovisionAll_trace [of w "rs_handles s" s] by (auto simp: cleanup_def)

lemma cleanup_keeps_log:
  assumes "logged v es s"
  shows "logged v es (cleanup w s)"
proof -
  obtain errs s' where d: "deprovisionAll w (rs_handles s) s = (errs, s')" by (cases "deprovisionAll w (rs_handles s) s")
  have "logged v es s'"
    using rows.deprovisionAll_keeps [of "re_runID v" "log_target v" es w "rs_handles s"] assms d deprovisionAll_trace [of w "rs_handles s" s]
    by (auto simp: triple_def)
  then show ?thesis by (simp add: cleanup_def d)
qed

interpretation occupied: run_invariant w v "\<lambda>tr hs. hs \<noteq> []" "inv_of (\<lambda>tr hs. hs \<noteq> [])" for w v
  by unfold_locales (simp_all add: exit_reasons_run)

lemma triple_conj:
  "triple P m Q X \<Longrightarrow> triple P' m Q' X' \<Longrightarrow>
     triple (\<lambda>s. P s \<and> P' s) m (\<lambda>a s. Q a s \<and> Q' a s) (\<lambda>s. X s \<and> X' s)"
  unfolding triple_def by (fastforce split: prod.splits option.splits)

lemma provision_and_drive_logs:
  "triple (logged v []) (provision_and_drive w v t cd as) (\<lambda>_. log_complete v) gone"
proof -
  have decide: "triple (logged v [])
      (andThen (get rs_handles) (\<lambda>handles. if handles = [] then ret () else drive w v b)) (\<lambda>_. log_complete v) gone" for b
  proof (rule triple_andThen [where R = "\<lambda>h s. logged v [] s \<and> rs_handles s = h"])
    show "triple (logged v []) (get rs_handles) (\<lambda>h s. logged v [] s \<and> rs_handles s = h) gone" by auto
  next
    fix h :: "provisioned list"
    show "triple (\<lambda>s. logged v [] s \<and> rs_handles s = h) (if h = [] then ret () else drive w v b) (\<lambda>_. log_complete v) gone"
    proof (rule triple_if)
      show "triple (\<lambda>s. logged v [] s \<and> rs_handles s = h) (ret ()) (\<lambda>_. log_complete v) gone" if "h = []"
        using that by (auto simp: log_complete_def)
    next
      assume "h \<noteq> []"
      then show "triple (\<lambda>s. logged v [] s \<and> rs_handles s = h) (drive w v b) (\<lambda>_. log_complete v) gone"
        by (intro triple_weaken [OF triple_conj [OF drive_logs occupied.drive_keeps]]) (auto simp: log_complete_def)
    qed
  qed
  show ?thesis
    unfolding provision_and_drive_def
    by (rule triple_andThen [OF rows.provisionAdapters_keeps], rule triple_andThen [OF _ decide])
      (intro triple_if rows.set_field_keeps triple_ret, simp_all)
qed

lemma exit_not_planned: "''planned_completion'' \<notin> set exit_reasons"
  by (simp add: exit_reasons_def)

lemma log_complete_cleanup:
  assumes "log_complete v s"
  shows "log_complete v (cleanup w s)"
proof -
  have h: "rs_handles (cleanup w s) = rs_handles s" using cleanup_trace [of w s] by blast
  show ?thesis
  proof (cases "rs_handles s = []")
    case True
    then have "logged v [] s" using assms by (simp add: log_complete_def)
    from cleanup_keeps_log [OF this, of w] True h show ?thesis by (simp add: log_complete_def)
  next
    case False
    then obtain t where "logged v (schedule_of v t) s" using assms by (auto simp: log_complete_def)
    from cleanup_keeps_log [OF this, of w] False h show ?thesis by (auto simp: log_complete_def)
  qed
qed

lemma guarded_logs:
  assumes "logged v [] s" and "rs_handles s = []" and "rs_reason (guarded w v t cd as s) = ''planned_completion''"
  shows "log_complete v (guarded w v t cd as s)"
proof -
  obtain r s' where b: "before_provision w v t s = (r, s')" by (cases "before_provision w v t s")
  have pre: "case r of None \<Rightarrow> gone s' | Some _ \<Rightarrow> logged v [] s'"
    using rows.before_provision_keeps [of "re_runID v" "log_target v" "[]" w v t] assms(1) b
    by (auto simp: triple_def split: option.splits)
  obtain u where r: "r = Some u"
    using pre assms(3) b exit_not_planned by (cases r) (auto simp: guarded_def)
  obtain q s'' where d: "provision_and_drive w v t cd as s' = (q, s'')" by (cases "provision_and_drive w v t cd as s'")
  have g: "guarded w v t cd as s = cleanup w s''" using b d r by (simp add: guarded_def)
  have "case q of None \<Rightarrow> gone s'' | Some _ \<Rightarrow> log_complete v s''"
    using provision_and_drive_logs [of v w t cd as] pre r d by (auto simp: triple_def split: option.splits)
  moreover have "rs_reason s'' = ''planned_completion''"
    using assms(3) cleanup_reason [of w s''] g by auto
  ultimately have "log_complete v s''"
    using exit_not_planned by (cases q) auto
  then show ?thesis
    unfolding g by (rule log_complete_cleanup)
qed

lemma failure_rows_of_parts:
  "list_all not_started tr \<Longrightarrow> filter failure_row tr = []"
proof -
  have "not_started x \<Longrightarrow> \<not> failure_row x" for x by (cases x) auto
  then show "list_all not_started tr \<Longrightarrow> filter failure_row tr = []" by (induction tr) auto
qed

text \<open>What a run that closed as planned logged, for the properties below.\<close>

lemma planned_log:
  assumes "CloseRun runID t ''planned_completion'' e \<in> set (snd (Run w runID sc fc as svcCfg opts))"
  shows "if provisioned_in (snd (Run w runID sc fc as svcCfg opts)) = []
    then filter failure_row (snd (Run w runID sc fc as svcCfg opts)) = []
    else (\<exists>start. logged_rows runID (sc_Target sc) (scheduleFailureEvents start (sc_Duration sc) (sc_Failures sc))
            (snd (Run w runID sc fc as svcCfg opts)))"
proof (rule Run_cases [of w runID sc fc as svcCfg opts])
  fix err tr
  assume run: "Run w runID sc fc as svcCfg opts = (([], Some err), tr)" "list_all not_started tr"
  then show ?thesis using assms by (auto simp: list_all_iff)
next
  fix v rec t0 b
  let ?g = "guarded w v t0 (op_requireCooldownReset opts) as (initial_state [Clock t0, InsertRun rec None] b)"
  assume run: "Run w runID sc fc as svcCfg opts = ((runID, rs_error (close_run w v ?g)), rs_trace (close_run w v ?g))"
    and v: "env_of w runID sc fc svcCfg v"
  obtain t1 row e1 t2 e2 where shape: "rs_trace (close_run w v ?g) =
      rs_trace ?g @ [Clock t1, InsertEvent row e1, Clock t2, CloseRun (re_runID v) t2 (rs_reason ?g) e2]"
      "er_EventType row = ''run_end''"
    using close_run_shape [of w v ?g] by blast
  have "open_trace (rs_trace ?g)"
    using opened.guarded_keeps [where t = t0 and rec = rec] by (simp add: initial_state_def open_trace_def)
  then have "rs_reason ?g = ''planned_completion''"
    using assms run shape(1) by (auto simp: open_trace_def list_all_iff)
  then have "log_complete v ?g"
    by (intro guarded_logs) (simp_all add: initial_state_def remembered_def logged_rows_def)
  then show ?thesis
    using v shape unfolding run snd_conv log_complete_iff
    by (auto simp: logged_rows_def env_of_def split: if_splits)
qed

end
