(* ===== verification/Run_Liveness.thy ===== *)
theory Run_Liveness
  imports Run_Completion
begin

text \<open>
  A run in a world where nothing goes wrong does finish: total-correctness triples (an early
  return is impossible) over the operations of \<open>Runner\<close>, and the properties of runs that
  close as planned.
\<close>

section \<open>A world where nothing goes wrong\<close>

definition benign :: "world \<Rightarrow> run_env \<Rightarrow> bool" where
  "benign w v \<longleftrightarrow>
    (\<forall>tr d. w_wait w tr d) \<and> (\<forall>tr r. w_insert_event w tr r = None) \<and> (\<forall>tr r. w_insert_run w tr r = None) \<and>
    (\<forall>tr sv tg pc. \<exists>h. w_provision w tr sv tg pc = Inr h) \<and>
    (\<forall>tr sv h win. \<exists>r. w_retrieve w tr sv h win = Inr r) \<and>
    (\<forall>tr sv h. w_deprovision w tr sv h = None) \<and> (\<forall>tr m q. w_activate w tr m q = None) \<and>
    (\<forall>f \<in> set (sc_Failures (re_sc v)). \<exists>ms. members_for w v f = Inr ms \<and>
      (isDNSFailureType (f_Type f) \<longrightarrow>
        (\<forall>tr. xr_Observable (checkDNSFailureExposure (w_net w tr) f (ep_host (re_endpoint v)) ms
           (cc_Timeout (cfg_Control (re_fleet v)))))))"

lemma benign_outcomes:
  assumes "benign w v"
  shows "\<exists>h. w_provision w tr sv tg pc = Inr h" and "\<exists>r. w_retrieve w tr sv hn win = Inr r"
    and "f \<in> set (sc_Failures (re_sc v)) \<Longrightarrow> \<exists>ms. members_for w v f = Inr ms"
  using assms unfolding benign_def by (simp, simp, elim conjE) (drule bspec, assumption, elim exE conjE, rule exI)

abbreviation services :: "run_state \<Rightarrow> string list" where
  "services s \<equiv> map (\<lambda>p. ad_ServiceID (pv_adapter p)) (rs_handles s)"

text \<open>On course: the monitors are those of \<open>H\<close>, nothing has gone wrong, and there is no baseline.\<close>

definition calm :: "string list \<Rightarrow> run_state \<Rightarrow> bool" where
  "calm H s \<longleftrightarrow> rs_reason s = ''planned_completion'' \<and> rs_error s = None \<and> rs_baseline s = None \<and> services s = H"

abbreviation goes :: "string list \<Rightarrow> 'a act \<Rightarrow> bool" where
  "goes H m \<equiv> triple (calm H) m (\<lambda>_. calm H) (\<lambda>_. False)"

text \<open>What follows a call that is known to succeed.\<close>

lemma triple_no_error:
  "triple P m Q X \<Longrightarrow> triple (\<lambda>s. err = None \<and> P s) (case err of None \<Rightarrow> m | Some e \<Rightarrow> g e) Q X"
  by (cases err) (simp_all add: triple_def)

lemma triple_holds:
  "triple P m Q X \<Longrightarrow> triple (\<lambda>s. b \<and> P s) (if b then m else n) Q X"
  by (simp add: triple_def)

lemma triple_fails:
  "triple P n Q X \<Longrightarrow> triple (\<lambda>s. \<not> b \<and> P s) (if b then m else n) Q X"
  by (simp add: triple_def)

lemma goes_ask [intro]: "goes H (ask f mk)"
  by (intro triple_ask) (simp add: calm_def)

lemma goes_Now: "goes H (Now w)"
  unfolding Now_def by (rule goes_ask)

lemma goes_logEvent:
  assumes "benign w v"
  shows "triple (calm H) (logEvent w r tg ty ft d) (\<lambda>err s. err = None \<and> calm H s) (\<lambda>_. False)"
proof -
  have row: "triple (calm H) (ask (\<lambda>tr. w_insert_event w tr row) (InsertEvent row)) (\<lambda>err s. err = None \<and> calm H s) (\<lambda>_. False)"
    for row
    using assms by (intro triple_ask) (simp add: calm_def benign_def)
  show ?thesis
    unfolding logEvent_def Let_def
    by (rule triple_andThen [OF goes_Now], rule triple_andThen [OF row]) (auto intro!: triple_ret)
qed

lemma goes_mustLog: "benign w v \<Longrightarrow> goes H (mustLog w r tg ty ft d)"
  unfolding mustLog_def
  by (rule triple_andThen [OF goes_logEvent], assumption) (intro triple_no_error triple_ret)

lemma goes_report: "goes H (logMonitorReport w r a result)"
  unfolding logMonitorReport_def insertReport_def
  by (intro keeps_andThen goes_Now triple_if triple_each goes_ask triple_ret) simp_all

lemma goes_mustRecord: "goes H (mustRecord w r tg ph)"
  by (auto simp: triple_def mustRecord_def baseline_record_def andThen_def get_def ret_def calm_def)

lemma goes_sleep:
  assumes "benign w v"
  shows "triple (calm H) (sleep w d) (\<lambda>elapsed s. elapsed \<and> calm H s) (\<lambda>_. False)"
  using assms unfolding sleep_def by (intro triple_ask) (simp add: calm_def benign_def)

lemma goes_await:
  assumes "benign w v"
  shows "goes H (await_event w r tg e)"
proof -
  have wait: "goes H (andThen (sleep w d) (\<lambda>elapsed. if elapsed then ret () else abort w))" for d
    by (rule triple_andThen [OF goes_sleep [OF assms]]) (intro triple_holds triple_ret)
  have sampling: "triple (calm H) (get (\<lambda>s. rs_baseline s \<noteq> None \<and> rs_baselineActive s > 0)) (\<lambda>b s. \<not> b \<and> calm H s) (\<lambda>_. False)"
    by (rule triple_get) (simp add: calm_def)
  have "goes H (andThen (get (\<lambda>s. rs_baseline s \<noteq> None \<and> rs_baselineActive s > 0)) (\<lambda>b.
      if b then m else andThen (sleep w d) (\<lambda>elapsed. if elapsed then ret () else abort w)))" for m d
    by (rule triple_andThen [OF sampling]) (intro triple_fails wait)
  then show ?thesis
    unfolding await_event_def Let_def by (intro triple_andThen [OF goes_Now] triple_if triple_ret) simp_all
qed

lemma goes_activateFailure:
  assumes "benign w v"
  shows "triple (calm H) (activateFailure w token ms req) (\<lambda>err s. err = None \<and> calm H s) (\<lambda>_. False)"
proof (induction ms)
  case Nil
  show ?case by (auto intro!: triple_ret)
next
  case (Cons m ms)
  have "triple (calm H) (ask (\<lambda>tr. w_activate w tr m req) (Activate c m req)) (\<lambda>err s. err = None \<and> calm H s) (\<lambda>_. False)" for c
    using assms by (intro triple_ask) (simp add: calm_def benign_def)
  then show ?case
    unfolding activateFailure.simps Let_def by (rule triple_andThen) (intro triple_no_error Cons.IH)
qed

lemma goes_deactivateFailure: "goes H (deactivateFailure w token ms req)"
proof -
  have "goes H (deactivate_members w token ms req)"
    by (induction ms) (auto intro!: triple_ret keeps_andThen simp: Let_def)
  then show ?thesis unfolding deactivateFailure_def by (intro keeps_andThen triple_ret) simp_all
qed

section \<open>The timeline\<close>

lemma goes_exposure:
  assumes "benign w v" and "f \<in> set (sc_Failures (re_sc v))" and "members_for w v f = Inr ms"
  shows "goes H (check_exposure w v f ms)"
proof (cases "isDNSFailureType (f_Type f)")
  case False
  then show ?thesis by (auto simp: check_exposure_def intro!: triple_ret)
next
  case True
  have "xr_Observable (checkDNSFailureExposure (w_net w tr) f (ep_host (re_endpoint v)) ms (cc_Timeout (cfg_Control (re_fleet v))))" for tr
    using assms True unfolding benign_def by fastforce
  then have "triple (calm H) (ask (\<lambda>tr. checkDNSFailureExposure (w_net w tr) f (ep_host (re_endpoint v)) ms
      (cc_Timeout (cfg_Control (re_fleet v)))) Probed) (\<lambda>x s. \<not> \<not> xr_Observable x \<and> calm H s) (\<lambda>_. False)"
    by (intro triple_ask) (simp add: calm_def)
  then show ?thesis
    using True unfolding check_exposure_def by (simp only: if_True) (rule triple_andThen, assumption, intro triple_fails triple_ret)
qed

lemma goes_fields:
  "goes H (\<lambda>s. (Some (), s\<lparr>rs_ended := t\<rparr>))" "goes H (\<lambda>s. (Some (), s\<lparr>rs_started := t\<rparr>))" "goes H (baseline_count k)"
  by (simp_all add: triple_def calm_def baseline_count_def)

lemma goes_note_started: "goes H (note_started w)"
  unfolding note_started_def by (intro keeps_andThen triple_get triple_if goes_Now goes_fields triple_ret)

lemma goes_activate:
  assumes "benign w v" and f: "f \<in> set (sc_Failures (re_sc v))"
  shows "goes H (activate_event w v f)"
proof -
  obtain ms where ms: "members_for w v f = Inr ms" using benign_outcomes(3) [OF assms] by blast
  show ?thesis
    unfolding activate_event_def ms sum.case
    by (rule triple_andThen [OF goes_activateFailure [OF assms(1)]], rule triple_no_error)
      (intro keeps_andThen goes_exposure [OF assms ms] goes_mustLog [OF assms(1)] goes_note_started triple_get triple_if
        goes_fields goes_mustRecord triple_ret)
qed

lemma goes_deactivate:
  assumes "benign w v" and f: "f \<in> set (sc_Failures (re_sc v))"
  shows "goes H (deactivate_event w v f)"
proof -
  obtain ms where ms: "members_for w v f = Inr ms" using benign_outcomes(3) [OF assms] by blast
  show ?thesis
    unfolding deactivate_event_def ms sum.case
    by (intro keeps_andThen goes_deactivateFailure goes_mustLog [OF assms(1)] goes_Now goes_fields triple_get triple_if
        goes_mustRecord triple_ret)
qed

lemma goes_timeline:
  assumes "benign w v"
  shows "goes H (each (run_event w v) (schedule_of v t))"
proof (rule triple_each)
  fix e assume "e \<in> set (schedule_of v t)"
  then have "fe_failure e \<in> set (sc_Failures (re_sc v))" by (auto simp: set_schedule)
  then show "goes H (run_event w v e)"
    unfolding run_event_def
    by (intro keeps_andThen goes_await [OF assms] triple_if goes_activate [OF assms] goes_deactivate [OF assms])
qed

section \<open>Retrieval and provisioning\<close>

lemma goes_retrieve:
  assumes "benign w v"
  shows "distinct (map (\<lambda>p. ad_ServiceID (pv_adapter p)) ps) \<Longrightarrow>
    set calls \<inter> (\<lambda>p. ad_ServiceID (pv_adapter p)) ` set ps = {} \<Longrightarrow> goes H (retrieve_all w r b win calls ps)"
proof (induction ps arbitrary: calls)
  case Nil
  show ?case by (auto intro!: triple_ret)
next
  case (Cons p ps)
  let ?sv = "ad_ServiceID (pv_adapter p)"
  have rest: "goes H (retrieve_all w r b win (?sv # calls) ps)"
    using Cons.prems by (intro Cons.IH) auto
  have "?sv \<notin> set calls" using Cons.prems by auto
  then have first: "\<not> (b ?sv > 0 \<and> int (count_list calls ?sv) \<ge> b ?sv)" by (simp add: count_list_0_iff)
  have call: "triple (calm H) (ask (\<lambda>tr. w_retrieve w tr ?sv (pv_handle p) win) (Retrieve ?sv (pv_handle p) win))
      (\<lambda>x s. isl x = False \<and> calm H s) (\<lambda>_. False)"
  proof (intro triple_ask)
    fix s assume "calm H s"
    moreover obtain x where "w_retrieve w (rs_trace s) ?sv (pv_handle p) win = Inr x"
      using benign_outcomes(2) [OF assms] by blast
    ultimately show "isl (w_retrieve w (rs_trace s) ?sv (pv_handle p) win) = False \<and>
        calm H (s\<lparr>rs_trace := rs_trace s @ [Retrieve ?sv (pv_handle p) win (w_retrieve w (rs_trace s) ?sv (pv_handle p) win)]\<rparr>)"
      by (simp add: calm_def)
  qed
  have after: "triple (\<lambda>s. isl x = False \<and> calm H s)
      (case x of Inl e \<Rightarrow> g e | Inr result \<Rightarrow> andThen (logMonitorReport w r (pv_adapter p) result) (\<lambda>_.
         retrieve_all w r b win (?sv # calls) ps)) (\<lambda>_. calm H) (\<lambda>_. False)" for x g
  proof (cases x)
    case (Inl e)
    then show ?thesis by (simp add: triple_def)
  next
    case (Inr y)
    have "goes H (andThen (logMonitorReport w r (pv_adapter p) y) (\<lambda>_. retrieve_all w r b win (?sv # calls) ps))"
      by (intro keeps_andThen goes_report rest)
    with Inr show ?thesis by (simp add: triple_def)
  qed
  show ?case
    unfolding retrieve_all.simps Let_def if_not_P [OF first] by (rule triple_andThen [OF call after])
qed

lemma goes_wind_down:
  assumes "benign w v" and "distinct H"
  shows "goes H (wind_down w v b)"
proof -
  have handles: "triple (calm H) (get rs_handles) (\<lambda>h s. calm H s \<and> map (\<lambda>p. ad_ServiceID (pv_adapter p)) h = H) (\<lambda>_. False)"
    by (rule triple_get) (simp add: calm_def)
  have retrieve: "triple (\<lambda>s. calm H s \<and> map (\<lambda>p. ad_ServiceID (pv_adapter p)) h = H)
      (retrieve_all w r b win [] h) (\<lambda>_. calm H) (\<lambda>_. False)" for h r win
    using goes_retrieve [OF assms(1), of h "[]" H r b win] assms(2) by (auto simp: triple_def)
  have unstable: "goes H (note_unstable w r)" for r
    by (auto simp: triple_def note_unstable_def andThen_def get_def ret_def calm_def)
  note tail = keeps_andThen [OF goes_Now] keeps_andThen [OF goes_mustRecord] keeps_andThen [OF unstable]
  have grace: "triple (\<lambda>s. elapsed \<and> calm H s) (if elapsed then ret () else abort w) (\<lambda>_. calm H) (\<lambda>_. False)" for elapsed
    by (intro triple_holds triple_ret)
  show ?thesis
    unfolding wind_down_def
    by (rule triple_andThen [OF goes_sleep [OF assms(1)]], rule triple_andThen [OF grace], rule tail(1), rule tail(2), rule tail(3),
        rule keeps_andThen [OF triple_get], assumption, rule triple_andThen [OF handles retrieve])
qed

lemma goes_drive: "benign w v \<Longrightarrow> distinct H \<Longrightarrow> goes H (drive w v b)"
  unfolding drive_def by (intro keeps_andThen goes_Now goes_timeline goes_wind_down)

definition capable :: "Scenario \<Rightarrow> bool \<Rightarrow> adapter list \<Rightarrow> string list" where
  "capable sc cd as = map ad_ServiceID (filter (\<lambda>a. capability_gap sc cd (ad_Capabilities a) = None) as)"

lemma provisions_one:
  assumes "benign w v"
  shows "triple (calm H) (provisionAdapter w sc ep r t cd a) (\<lambda>err s. \<not> err \<and> calm (H @ capable sc cd [a]) s) (\<lambda>_. False)"
proof (cases "capability_gap sc cd (ad_Capabilities a)")
  case (Some reason)
  then show ?thesis
    unfolding provisionAdapter_def by (auto simp: capable_def intro!: triple_andThen [OF goes_report] triple_ret)
next
  case None
  let ?tgt = "\<lparr>at_ID = sc_Target sc, at_URL = monitorTargetURLForRun (w_sha w) sc ep r\<rparr>"
  let ?cfg = "provisionConfig sc t"
  have "provisionAdapter w sc ep r t cd a s = (Some False, s\<lparr>rs_trace := rs_trace s @ [Provision (ad_ServiceID a) ?tgt ?cfg (Inr h)],
      rs_handles := rs_handles s @ [\<lparr>pv_adapter = a, pv_handle = h\<rparr>]\<rparr>)"
    if "w_provision w (rs_trace s) (ad_ServiceID a) ?tgt ?cfg = Inr h" for s h
    using that None by (simp add: provisionAdapter_def Let_def andThen_def ask_def add_handle_def ret_def)
  moreover have "\<exists>h. w_provision w (rs_trace s) (ad_ServiceID a) ?tgt ?cfg = Inr h" for s
    by (rule benign_outcomes(1) [OF assms])
  ultimately have "\<exists>s'. provisionAdapter w sc ep r t cd a s = (Some False, s') \<and> (calm H s \<longrightarrow> calm (H @ capable sc cd [a]) s')" for s
    using None by (fastforce simp: calm_def capable_def)
  then show ?thesis unfolding triple_def by (metis (no_types, lifting) case_prod_conv option.simps(5))
qed

lemma provisions:
  assumes "benign w v"
  shows "triple (calm H) (provisionAdapters w sc ep r t cd as) (\<lambda>err s. \<not> err \<and> calm (H @ capable sc cd as) s) (\<lambda>_. False)"
proof (induction as arbitrary: H)
  case Nil
  show ?case by (auto simp: capable_def intro!: triple_ret)
next
  case (Cons a as)
  have split: "capable sc cd [a] @ capable sc cd as = capable sc cd (a # as)" by (simp add: capable_def)
  have next_ok: "triple (\<lambda>s. \<not> err \<and> calm (H @ capable sc cd [a]) s)
      (andThen (provisionAdapters w sc ep r t cd as) (\<lambda>errs. ret (err \<or> errs)))
      (\<lambda>err s. \<not> err \<and> calm (H @ capable sc cd (a # as)) s) (\<lambda>_. False)" for err
  proof (cases err)
    case True
    then show ?thesis by (simp add: triple_def)
  next
    case False
    then show ?thesis
      by (auto simp: split intro!: triple_andThen [OF Cons.IH [of "H @ capable sc cd [a]"]] triple_ret)
  qed
  show ?case
    unfolding provisionAdapters.simps by (rule triple_andThen [OF provisions_one [OF assms] next_ok])
qed

lemma goes_provision_and_drive:
  assumes "benign w v" and "distinct (capable (re_sc v) cd as)"
  shows "triple (calm []) (provision_and_drive w v t cd as) (\<lambda>_. calm (capable (re_sc v) cd as)) (\<lambda>_. False)"
proof -
  let ?H = "capable (re_sc v) cd as"
  have no_error: "triple (\<lambda>s. \<not> err \<and> calm ([] @ ?H) s) (if err then set_reason ''adapter_error'' else ret ()) (\<lambda>_. calm ?H) (\<lambda>_. False)" for err
    by (intro triple_fails triple_ret) simp
  show ?thesis
    unfolding provision_and_drive_def
    by (rule triple_andThen [OF provisions [OF assms(1)]], rule triple_andThen [OF no_error])
      (intro keeps_andThen triple_get triple_if triple_ret goes_drive [OF assms])
qed

section \<open>The whole run\<close>

lemma goes_before:
  assumes "benign w v"
  shows "goes H (before_provision w v t)"
proof -
  have event: "triple (calm H) (ask (\<lambda>tr. w_insert_event w tr row) (InsertEvent row)) (\<lambda>err s. err = None \<and> calm H s) (\<lambda>_. False)"
    for row
    using assms by (intro triple_ask) (simp add: calm_def benign_def)
  have "goes H (log_maintenance w (re_runID v) (re_sc v) t)"
    unfolding log_maintenance_def Let_def
    by (intro triple_option triple_ret triple_andThen [OF event] triple_no_error)
  then show ?thesis
    unfolding before_provision_def by (intro keeps_andThen goes_mustLog [OF assms] goes_mustRecord)
qed

lemma calm_cleanup:
  assumes "benign w v" and "calm H s"
  shows "calm H (cleanup w s)"
proof -
  have one: "deprovisionOne w p s = (Some None, s\<lparr>rs_trace := rs_trace s @ [Deprovision (ad_ServiceID (pv_adapter p)) (pv_handle p) None]\<rparr>)" for p s
    using assms(1) by (simp add: deprovisionOne_def deprovisionAttempts_def numeral_3_eq_3 andThen_def ask_def ret_def benign_def Let_def)
  have "\<exists>ext. deprovisionAll w ps s = (Some 0, s\<lparr>rs_trace := rs_trace s @ ext\<rparr>)" for ps s
  proof (induction ps arbitrary: s)
    case Nil
    show ?case by (rule exI [of _ "[]"]) (simp add: ret_def)
  next
    case (Cons p ps)
    from Cons.IH [of "snd (deprovisionOne w p s)"] show ?case by (auto simp: one andThen_def ret_def)
  qed
  then obtain ext where "deprovisionAll w (rs_handles s) s = (Some 0, s\<lparr>rs_trace := rs_trace s @ ext\<rparr>)" by blast
  then show ?thesis using assms(2) by (simp add: cleanup_def calm_def)
qed

lemma guarded_calm:
  assumes "benign w v" and "distinct (capable (re_sc v) cd as)" and "calm [] s"
  shows "calm (capable (re_sc v) cd as) (guarded w v t cd as s)"
proof -
  obtain s1 u where b: "before_provision w v t s = (Some u, s1)" "calm [] s1"
    using goes_before [OF assms(1), of "[]" t] assms(3) by (fastforce simp: triple_def split: option.splits)
  obtain s2 q where "provision_and_drive w v t cd as s1 = (Some q, s2)" "calm (capable (re_sc v) cd as) s2"
    using goes_provision_and_drive [OF assms(1,2), of t] b(2) by (fastforce simp: triple_def split: option.splits)
  with b show ?thesis by (simp add: guarded_def calm_cleanup [OF assms(1)])
qed

lemma benign_run:
  assumes v: "env_of w runID sc fc svcCfg v" and ok: "benign w v"
    and no_baseline: "newDNSBaselinePlan (w_json_list w) sc fc svcCfg (ep_host (re_endpoint v)) = None"
    and distinct: "distinct (capable sc (op_requireCooldownReset opts) as)"
  shows "fst (Run w runID sc fc as svcCfg opts) = (runID, None) \<and>
    (\<exists>before t e. snd (Run w runID sc fc as svcCfg opts) = before @ [CloseRun runID t ''planned_completion'' e]) \<and>
    map fst (provisioned_in (snd (Run w runID sc fc as svcCfg opts))) = capable sc (op_requireCooldownReset opts) as"
proof (rule Run_cases [of w runID sc fc as svcCfg opts])
  fix err tr
  assume "\<And>v. env_of w runID sc fc svcCfg v \<Longrightarrow> \<exists>r. w_insert_run w [Clock (w_now w [])] r \<noteq> None"
  then show ?thesis using v ok by (auto simp: benign_def)
next
  fix v' rec t b
  let ?g = "guarded w v' t (op_requireCooldownReset opts) as (initial_state [Clock t, InsertRun rec None] b)"
  assume run: "Run w runID sc fc as svcCfg opts = ((runID, rs_error (close_run w v' ?g)), rs_trace (close_run w v' ?g))"
    and v': "env_of w runID sc fc svcCfg v'" and b: "b = newDNSBaselinePlan (w_json_list w) sc fc svcCfg (ep_host (re_endpoint v'))"
  have same: "v' = v" using v v' by (cases v, cases v') (auto simp: env_of_def)
  have re: "re_sc v = sc" "re_runID v = runID" using v by (simp_all add: env_of_def)
  have "calm [] (initial_state [Clock t, InsertRun rec None] b)"
    using no_baseline by (simp add: calm_def initial_state_def b same)
  then have calm: "calm (capable sc (op_requireCooldownReset opts) as) ?g"
    using guarded_calm [OF ok, of "op_requireCooldownReset opts" as] distinct by (simp add: same re)
  have "inv_of remembered ?g"
    by (rule memory.guarded_keeps) (simp add: initial_state_def remembered_def)
  then have "provisioned_in (rs_trace ?g) = map handle_key (rs_handles ?g)" by (simp add: remembered_def)
  then have known: "map fst (provisioned_in (rs_trace ?g)) = capable sc (op_requireCooldownReset opts) as"
    using calm by (simp add: calm_def handle_key_def comp_def)
  show ?thesis
    using close_run_shape [of w v' ?g] run calm known re same by (auto simp: calm_def)
qed

section \<open>The windows measured from a run\<close>

text \<open>
  The stored rows of a run, as the measurement engine reads them: \<open>enc\<close> is what the JSON column keeps
  of the details, and \<open>col\<close> what the \<open>DATETIME(6)\<close> column keeps of a time.
\<close>

fun stored_row :: "(details \<Rightarrow> json_column) \<Rightarrow> (instant \<Rightarrow> instant) \<Rightarrow> step \<Rightarrow> GroundTruthEvent option" where
  "stored_row enc col (InsertEvent r None) = Some \<lparr>ge_RunID = er_RunID r, ge_EventType = er_EventType r,
     ge_TargetID = er_TargetID r, ge_FailureType = er_FailureType r, ge_OccurredAt = col (er_OccurredAt r),
     ge_Details = enc (er_Details r)\<rparr>"
| "stored_row enc col _ = None"

definition ground_truth :: "(details \<Rightarrow> json_column) \<Rightarrow> (instant \<Rightarrow> instant) \<Rightarrow> trace \<Rightarrow> GroundTruthEvent list" where
  "ground_truth enc col tr = List.map_filter (stored_row enc col) tr"

fun row_of :: "step \<Rightarrow> EventRow" where
  "row_of (InsertEvent r e) = r"

definition failure_ge :: "GroundTruthEvent \<Rightarrow> bool" where
  "failure_ge e \<longleftrightarrow> ge_EventType e = ''failure_start'' \<or> ge_EventType e = ''failure_end''"

text \<open>Rows of other kinds change neither the open nor the closed windows.\<close>

lemma windows_of_failures:
  assumes "ws_windows st = ws_windows st'" and "ws_starts st = ws_starts st'"
  shows "ws_windows (foldl window_step st es) = ws_windows (foldl window_step st' (filter failure_ge es))"
  using assms
proof (induction es arbitrary: st st')
  case Nil
  then show ?case by simp
next
  case (Cons e es)
  show ?case
  proof (cases "failure_ge e")
    case True
    then show ?thesis
      using Cons.prems by (simp, intro Cons.IH) (auto simp: window_step_def failure_ge_def split: option.splits)
  next
    case False
    then show ?thesis
      using Cons.prems by (simp, intro Cons.IH) (auto simp: window_step_def failure_ge_def)
  qed
qed

lemma stored_failures:
  assumes "\<forall>x \<in> set (filter failure_row tr). \<exists>r. x = InsertEvent r None"
  shows "filter failure_ge (ground_truth enc col tr) = map (\<lambda>x. the (stored_row enc col x)) (filter failure_row tr)"
  using assms
proof (induction tr)
  case Nil
  then show ?case by (simp add: ground_truth_def List.map_filter_simps)
next
  case (Cons x tr)
  have other: "stored_row enc col x = Some g \<Longrightarrow> failure_ge g = failure_row x" for g
    by (cases "(enc, col, x)" rule: stored_row.cases) (auto simp: failure_ge_def)
  have "failure_row x \<Longrightarrow> \<exists>g. stored_row enc col x = Some g"
    using Cons.prems by auto
  then show ?case
    using Cons other by (cases "stored_row enc col x") (auto simp: ground_truth_def List.map_filter_simps)
qed

lemma rows_as_function:
  assumes "list_all2 P rs es" and "distinct es"
  shows "\<exists>g. rs = map g es \<and> (\<forall>e \<in> set es. P (g e) e)"
  using assms
proof (induction rule: list_all2_induct)
  case Nil
  then show ?case by simp
next
  case (Cons r rs e es)
  then obtain g where "rs = map g es" "\<forall>e \<in> set es. P (g e) e" by auto
  then show ?case using Cons by (intro exI [of _ "g(e := r)"]) auto
qed

lemma row_for_iff:
  "row_for runID tg x ev \<longleftrightarrow> (\<exists>r. x = InsertEvent r None \<and> er_RunID r = runID \<and> er_TargetID r = tg \<and>
     er_FailureType r = f_Type (fe_failure ev) \<and>
     er_EventType r = (if fe_activate ev then ''failure_start'' else ''failure_end''))"
  by (cases "(runID, tg, x, ev)" rule: row_for.cases) auto

definition logged_at :: "(instant \<Rightarrow> instant) \<Rightarrow> trace \<Rightarrow> string \<Rightarrow> string \<Rightarrow> instant \<Rightarrow> bool" where
  "logged_at col tr ty kind t \<longleftrightarrow>
    (\<exists>r. InsertEvent r None \<in> set tr \<and> er_EventType r = ty \<and> er_FailureType r = kind \<and> col (er_OccurredAt r) = t)"

lemma windows_of_log:
  fixes enc :: "details \<Rightarrow> json_column" and col :: "instant \<Rightarrow> instant"
  assumes log: "logged_rows runID tg (scheduleFailureEvents start dur fs) tr"
    and types: "distinct (map f_Type fs)" and dur: "0 \<le> dur"
  defines "ws \<equiv> ws_windows (foldl window_step window_init (ground_truth enc col tr))"
  shows "mset (map fw_kind ws) = mset (map f_Type fs)"
    and "w \<in> set ws \<Longrightarrow> logged_at col tr ''failure_start'' (fw_kind w) (fw_start w) \<and> logged_at col tr ''failure_end'' (fw_kind w) (fw_end w)"
proof -
  let ?es = "scheduleFailureEvents start dur fs"
  have "distinct ?es" using types by (simp add: distinct_schedule distinct_map)
  then obtain g where g: "filter failure_row tr = map g ?es" "\<forall>e \<in> set ?es. row_for runID tg (g e) e"
    using rows_as_function [OF log [unfolded logged_rows_def]] by metis
  define time where "time e = col (er_OccurredAt (row_of (g e)))" for e
  define det where "det e = enc (er_Details (row_of (g e)))" for e
  have row: "the (stored_row enc col (g e)) = event_row runID tg (time e) (det e) e" if "e \<in> set ?es" for e
  proof -
    from g(2) that have "row_for runID tg (g e) e" by blast
    then obtain r where "g e = InsertEvent r None" "er_RunID r = runID \<and> er_TargetID r = tg \<and>
        er_FailureType r = f_Type (fe_failure e) \<and>
        er_EventType r = (if fe_activate e then ''failure_start'' else ''failure_end'')"
      by (elim row_for_iff [THEN iffD1, elim_format] exE conjE) simp
    then show ?thesis by (simp add: event_row_def time_def det_def)
  qed
  have "filter failure_ge (ground_truth enc col tr) = map (\<lambda>e. event_row runID tg (time e) (det e) e) ?es"
    using g row by (subst stored_failures) (auto simp: row_for_iff)
  then have "ws = ws_windows (foldl window_step window_init (map (\<lambda>e. event_row runID tg (time e) (det e) e) ?es))"
    unfolding ws_def by (simp only: windows_of_failures [of window_init window_init "ground_truth enc col tr", OF refl refl])
  then have ws: "mset ws = image_mset (logged_window start dur time det) (mset fs)"
    using log_windows [OF types dur, of window_init] by (simp add: window_init_def)
  have "mset (map fw_kind ws) = image_mset fw_kind (mset ws)" by simp
  also have "\<dots> = mset (map f_Type fs)"
    unfolding ws by (simp add: image_mset.compositionality comp_def logged_window_def)
  finally show "mset (map fw_kind ws) = mset (map f_Type fs)" .
  have at_row: "logged_at col tr (if fe_activate e then ''failure_start'' else ''failure_end'') (f_Type (fe_failure e)) (time e)"
    if "e \<in> set ?es" for e
  proof -
    have "g e \<in> set (filter failure_row tr)" using that g(1) by simp
    then show ?thesis using g(2) that unfolding row_for_iff logged_at_def time_def by fastforce
  qed
  show "logged_at col tr ''failure_start'' (fw_kind w) (fw_start w) \<and> logged_at col tr ''failure_end'' (fw_kind w) (fw_end w)"
    if "w \<in> set ws"
  proof -
    have "set ws = logged_window start dur time det ` set fs"
      using arg_cong [OF ws, of set_mset] by simp
    with that obtain f where f: "f \<in> set fs" "w = logged_window start dur time det f" by auto
    have "start_event start f \<in> set ?es" "end_event start dur f \<in> set ?es" using f(1) by (auto simp: set_schedule)
    from this [THEN at_row] show ?thesis by (simp add: f(2) logged_window_def)
  qed
qed

text \<open>
  The windows of a failure type depend only on its own rows, so rows of different types may be read
  in any order.
\<close>

definition rows_of_kind :: "string \<Rightarrow> GroundTruthEvent list \<Rightarrow> GroundTruthEvent list" where
  "rows_of_kind k es = filter (\<lambda>e. failure_ge e \<and> ge_FailureType e = k) es"

definition stamps_in_order :: "GroundTruthEvent list \<Rightarrow> bool" where
  "stamps_in_order es \<longleftrightarrow> (\<forall>k. sorted_wrt (<) (map ge_OccurredAt (rows_of_kind k es)))"

lemma windows_of_kind:
  assumes "filter (\<lambda>w. fw_kind w = k) (ws_windows st) = filter (\<lambda>w. fw_kind w = k) (ws_windows st')"
    and "map_of (ws_starts st) k = map_of (ws_starts st') k"
  shows "filter (\<lambda>w. fw_kind w = k) (ws_windows (foldl window_step st es)) =
    filter (\<lambda>w. fw_kind w = k) (ws_windows (foldl window_step st' (rows_of_kind k es)))"
  using assms
proof (induction es arbitrary: st st')
  case Nil
  then show ?case by (simp add: rows_of_kind_def)
next
  case (Cons e es)
  show ?case
  proof (cases "failure_ge e \<and> ge_FailureType e = k")
    case True
    then have "rows_of_kind k (e # es) = e # rows_of_kind k es" by (simp add: rows_of_kind_def)
    moreover have "filter (\<lambda>w. fw_kind w = k) (ws_windows (window_step st e)) = filter (\<lambda>w. fw_kind w = k) (ws_windows (window_step st' e))"
      "map_of (ws_starts (window_step st e)) k = map_of (ws_starts (window_step st' e)) k"
      using True Cons.prems by (auto simp: window_step_def failure_ge_def update_conv' delete_conv' split: option.splits)
    ultimately show ?thesis using Cons.IH by simp
  next
    case False
    then have "rows_of_kind k (e # es) = rows_of_kind k es" by (simp add: rows_of_kind_def)
    moreover have "filter (\<lambda>w. fw_kind w = k) (ws_windows (window_step st e)) = filter (\<lambda>w. fw_kind w = k) (ws_windows st)"
      "map_of (ws_starts (window_step st e)) k = map_of (ws_starts st) k"
      using False by (auto simp: window_step_def failure_ge_def update_conv' delete_conv' split: option.splits)
    ultimately show ?thesis using Cons.IH Cons.prems by simp
  qed
qed

lemma same_rows_same_windows:
  assumes "\<And>k. rows_of_kind k es = rows_of_kind k es'"
  shows "mset (ws_windows (foldl window_step window_init es)) = mset (ws_windows (foldl window_step window_init es'))"
proof (rule multiset_eqI)
  fix w :: failureWindow
  let ?ws = "\<lambda>es. ws_windows (foldl window_step window_init es)" and ?of = "filter (\<lambda>x. fw_kind x = fw_kind w)"
  have kind: "count (mset ws) w = count (mset (?of ws)) w" for ws by simp
  have "?of (?ws es) = ?of (?ws es')"
    using windows_of_kind [OF refl refl, of "fw_kind w" window_init es]
      windows_of_kind [OF refl refl, of "fw_kind w" window_init es'] assms [of "fw_kind w"] by simp
  then show "count (mset (?ws es)) w = count (mset (?ws es')) w"
    using kind [of "?ws es"] kind [of "?ws es'"] by (simp only:)
qed

lemma increasing_unique:
  fixes f :: "'a \<Rightarrow> int"
  assumes "mset xs = mset ys" and "sorted (map f xs)" and "sorted_wrt (<) (map f ys)"
  shows "xs = ys"
proof -
  have ys: "sorted (map f ys)" "distinct (map f ys)" using assms(3) by (simp_all add: strict_sorted_iff)
  have same: "set xs = set ys" using assms(1) by (metis set_mset_mset)
  have "mset (map f xs) = mset (map f ys)" using assms(1) by simp
  then have "distinct (map f xs)" using ys(2) by (metis mset_eq_imp_distinct_iff)
  moreover have "inj_on f (set xs \<union> set ys)" using ys(2) same by (simp add: distinct_map)
  ultimately show ?thesis using assms(2) ys same by (intro map_sorted_distinct_set_unique) auto
qed

text \<open>Whatever the query returns, the windows are those of the rows in the order they were written.\<close>

lemma windows_of_query:
  assumes "mset (filter (\<lambda>e. ge_RunID e = runID) (db_events d)) = mset es" and "stamps_in_order es" and "may_return d runID rows"
  shows "mset (ws_windows (foldl window_step window_init rows)) = mset (ws_windows (foldl window_step window_init es))"
proof (rule same_rows_same_windows)
  fix k
  have "mset rows = mset es" "sorted (map ge_OccurredAt rows)" using assms(1,3) by (simp_all add: may_return_def)
  then have "mset (rows_of_kind k rows) = mset (rows_of_kind k es)" "sorted (map ge_OccurredAt (rows_of_kind k rows))"
    by (simp_all add: rows_of_kind_def sorted_filter)
  then show "rows_of_kind k rows = rows_of_kind k es"
    using assms(2) by (intro increasing_unique [where f = ge_OccurredAt]) (auto simp: stamps_in_order_def)
qed

section \<open>A concrete benign world\<close>

definition demo_failures :: "Failure list" where
  "demo_failures = [example_fail ''http_status'' 0 0, example_fail ''tcp_refused'' Minute (2 * Minute)]"

definition demo_adapter :: "string \<Rightarrow> adapter" where
  "demo_adapter sv = \<lparr>ad_ServiceID = sv,
     ad_Capabilities = \<lparr>cp_MinCheckFrequency = 0, cp_MonitorKinds = [], cp_SupportsKeyword = False,
       cp_SupportsInvertedKeyword = False, cp_SupportsMaintenanceWindows = False, cp_SupportsCooldownReset = False,
       cp_SupportsResponseTimeThreshold = False, cp_SupportsRequestHeaders = False, cp_DefaultMaxCallsPerRun = 1\<rparr>,
     ad_Normalize = (\<lambda>s. s)\<rparr>"

definition run_fleet :: Config where
  "run_fleet = \<lparr>cfg_Control = \<lparr>cc_Timeout = Second, cc_AuthTokenFile = ''token''\<rparr>, cfg_Adapters = [], cfg_Nameservers = [],
     cfg_Targets = [\<lparr>tg_ID = ''site'', tg_Address = ''192.0.2.1'', tg_ControlPort = 9000, tg_Sites = [], tg_GeneratedSites = []\<rparr>],
     cfg_Domains = [], cfg_Certmint = None\<rparr>"

definition demo_world :: world where
  "demo_world = \<lparr>w_now = (\<lambda>tr. int (length tr)), w_wait = (\<lambda>tr d. True), w_ticks = (\<lambda>tr d. 0), w_ctx_err = (\<lambda>tr. None),
     w_insert_run = (\<lambda>tr r. None), w_insert_event = (\<lambda>tr r. None), w_insert_report = (\<lambda>tr r. None), w_close_run = (\<lambda>tr. None),
     w_provision = (\<lambda>tr sv tg pc. Inr \<lparr>mh_ServiceID = sv, mh_MonitorID = ''1'', mh_Fields = []\<rparr>),
     w_retrieve = (\<lambda>tr sv h win. Inr \<lparr>rr_Status = ''ok'', rr_Reports = [], rr_Reason = [], rr_ReasonCode = [],
        rr_Metadata = No_details\<rparr>),
     w_deprovision = (\<lambda>tr sv h. None), w_activate = (\<lambda>tr m q. None), w_deactivate = (\<lambda>tr m q. None),
     w_net = (\<lambda>tr m q d. Dial_error ''unused''), w_lookup = (\<lambda>tr r host. Inr []), w_token_file = (\<lambda>f. Inr ''secret''),
     w_ip4 = (\<lambda>s. None), w_json_list = (\<lambda>s. None), w_sha = (\<lambda>s. replicate 32 0), w_sprintf = (\<lambda>p n. p)\<rparr>"

definition demo_opts :: runOpts where
  "demo_opts = \<lparr>op_campaignRunID = [], op_requireCooldownReset = False, op_parameters = []\<rparr>"

definition demo_env :: run_env where
  "demo_env = \<lparr>re_sc = example_scenario demo_failures, re_fleet = run_fleet, re_services = None,
     re_target = hd (cfg_Targets run_fleet), re_endpoint = \<lparr>ep_host = ''192.0.2.1'', ep_path = []\<rparr>,
     re_runID = ''r1'', re_seed = 1, re_token = ''secret''\<rparr>"

lemma demo_env_of: "env_of demo_world ''r1'' (example_scenario demo_failures) run_fleet None demo_env"
  by (simp add: env_of_def demo_world_def demo_env_def run_fleet_def example_scenario_def effectiveSeed_def
      targetEndpointForRun_def readFleetToken_def TrimSpace_def is_space_def)

lemma demo_benign: "benign demo_world demo_env"
  by (simp add: benign_def demo_world_def demo_env_def demo_failures_def example_scenario_def example_fail_def
      controlMembersForFailure_def isDNSFailureType_def)

lemma demo_capable:
  "capable (example_scenario demo_failures) False [demo_adapter ''a'', demo_adapter ''b''] = [''a'', ''b'']"
  by code_simp

lemma demo_baseline: "newDNSBaselinePlan j (example_scenario demo_failures) fc svc h = None"
  by (simp add: newDNSBaselinePlan_def scenarioIsTLSOnly_def example_scenario_def demo_failures_def example_fail_def HasPrefix_def)

lemma closed_in:
  assumes "\<exists>before t e. tr = before @ [CloseRun r t y e]"
  shows "\<exists>t e. CloseRun r t y e \<in> set tr"
proof -
  from assms obtain before t e where "tr = before @ [CloseRun r t y e]" by blast
  then have "CloseRun r t y e \<in> set tr" by simp
  then show ?thesis by blast
qed

lemma demo_run:
  "map fst (provisioned_in (snd (Run demo_world ''r1'' (example_scenario demo_failures) run_fleet
     [demo_adapter ''a'', demo_adapter ''b''] None demo_opts))) = [''a'', ''b'']"
  "\<exists>t e. CloseRun ''r1'' t ''planned_completion'' e \<in> set (snd (Run demo_world ''r1'' (example_scenario demo_failures)
     run_fleet [demo_adapter ''a'', demo_adapter ''b''] None demo_opts))"
proof -
  have "distinct (capable (example_scenario demo_failures) (op_requireCooldownReset demo_opts) [demo_adapter ''a'', demo_adapter ''b''])"
    by (simp add: demo_opts_def demo_capable)
  note run = benign_run [OF demo_env_of demo_benign demo_baseline this]
  show "map fst (provisioned_in (snd (Run demo_world ''r1'' (example_scenario demo_failures) run_fleet
     [demo_adapter ''a'', demo_adapter ''b''] None demo_opts))) = [''a'', ''b'']"
    using run by (simp add: demo_opts_def demo_capable)
  show "\<exists>t e. CloseRun ''r1'' t ''planned_completion'' e \<in> set (snd (Run demo_world ''r1'' (example_scenario demo_failures)
     run_fleet [demo_adapter ''a'', demo_adapter ''b''] None demo_opts))"
    by (rule closed_in [OF run [THEN conjunct2, THEN conjunct1]])
qed

lemma demo_types: "distinct (map f_Type (sc_Failures (example_scenario demo_failures)))" "0 \<le> sc_Duration (example_scenario demo_failures)"
  by (simp_all add: example_scenario_def demo_failures_def example_fail_def)

section \<open>Properties\<close>

text \<open>
  C17. A run closed as planned has told the whole story: if any monitor was there to watch, its failure rows are
  the events of the schedule, in the order of the schedule, one stored row each with the kind and
  failure of the event; if no service could be provisioned, no failure was injected at all.
\<close>

theorem planned_run_logs_schedule:
  assumes "CloseRun runID t ''planned_completion'' e \<in> set (snd (Run w runID sc fc as svcCfg opts))"
  shows "if provisioned_in (snd (Run w runID sc fc as svcCfg opts)) = []
    then filter failure_row (snd (Run w runID sc fc as svcCfg opts)) = []
    else (\<exists>start. logged_rows runID (sc_Target sc) (scheduleFailureEvents start (sc_Duration sc) (sc_Failures sc))
            (snd (Run w runID sc fc as svcCfg opts)))"
  using assms by (rule planned_log)

lemma planned_run_logs_schedule_witness:
  "\<exists>start. logged_rows ''r1'' ''site'' (scheduleFailureEvents start (5 * Minute) demo_failures)
     (snd (Run demo_world ''r1'' (example_scenario demo_failures) run_fleet
       [demo_adapter ''a'', demo_adapter ''b''] None demo_opts))"
proof -
  obtain t e where "CloseRun ''r1'' t ''planned_completion'' e \<in> set (snd (Run demo_world ''r1'' (example_scenario demo_failures)
     run_fleet [demo_adapter ''a'', demo_adapter ''b''] None demo_opts))"
    using demo_run(2) by blast
  from planned_run_logs_schedule [OF this] demo_run(1) show ?thesis
    by (cases "provisioned_in (snd (Run demo_world ''r1'' (example_scenario demo_failures) run_fleet
       [demo_adapter ''a'', demo_adapter ''b''] None demo_opts)) = []")
      (simp, simp only: if_False example_scenario_def Scenario.select_convs)
qed


definition demo_trace :: trace where
  "demo_trace = snd (Run demo_world ''r1'' (example_scenario demo_failures) run_fleet [demo_adapter ''a'', demo_adapter ''b''] None demo_opts)"

definition demo_rows :: database where
  "demo_rows = \<lparr>db_events = ground_truth (\<lambda>d. Null) (\<lambda>t. t) demo_trace, db_reports = [], db_runs = [], db_metrics = []\<rparr>"

definition row_values :: "GroundTruthEvent \<Rightarrow> string \<times> string \<times> instant \<times> string \<times> json_column" where
  "row_values e = (ge_EventType e, ge_FailureType e, ge_OccurredAt e, ge_RunID e, ge_Details e)"

lemma demo_rows_stored:
  "map row_values (db_events demo_rows) =
     [(''run_start'', [], 2, ''r1'', Null), (''failure_start'', ''http_status'', 9, ''r1'', Null),
      (''failure_start'', ''tcp_refused'', 15, ''r1'', Null), (''failure_end'', ''tcp_refused'', 20, ''r1'', Null),
      (''failure_end'', ''http_status'', 26, ''r1'', Null), (''run_end'', [], 39, ''r1'', Null)]"
  by code_simp

lemma demo_rows_all: "list_all (\<lambda>e. ge_RunID e = ''r1'' \<and> ge_Details e = Null) (db_events demo_rows)"
proof -
  have "list_all (\<lambda>(ty, kind, t, r, d). r = ''r1'' \<and> d = Null) (map row_values (db_events demo_rows))"
    unfolding demo_rows_stored by simp
  then show ?thesis by (simp add: list_all_iff row_values_def)
qed

lemma demo_rows_times: "map ge_OccurredAt (filter failure_ge (db_events demo_rows)) = [9, 15, 20, 26]"
proof -
  have "map ge_OccurredAt (filter failure_ge (db_events demo_rows)) =
      map (\<lambda>(ty, kind, t, r). t) (filter (\<lambda>(ty, v). ty = ''failure_start'' \<or> ty = ''failure_end'') (map row_values (db_events demo_rows)))"
    by (simp add: filter_map comp_def row_values_def failure_ge_def [abs_def])
  then show ?thesis unfolding demo_rows_stored by simp
qed

lemma demo_stamps: "stamps_in_order (db_events demo_rows)"
  unfolding stamps_in_order_def
proof
  fix k
  have "sorted_wrt (<) (map ge_OccurredAt (filter failure_ge (db_events demo_rows)))" by (simp add: demo_rows_times)
  then have increasing: "sorted_wrt (\<lambda>x y. ge_OccurredAt x < ge_OccurredAt y) (filter failure_ge (db_events demo_rows))"
    by (simp only: sorted_wrt_map)
  have "rows_of_kind k (db_events demo_rows) = filter (\<lambda>e. ge_FailureType e = k) (filter failure_ge (db_events demo_rows))"
    by (simp add: rows_of_kind_def conj_commute)
  then have "sorted_wrt (\<lambda>x y. ge_OccurredAt x < ge_OccurredAt y) (rows_of_kind k (db_events demo_rows))"
    using increasing by (simp only: sorted_wrt_filter)
  then show "sorted_wrt (<) (map ge_OccurredAt (rows_of_kind k (db_events demo_rows)))"
    by (simp only: sorted_wrt_map)
qed




end
