(* ===== verification/Campaign.thy ===== *)
theory Campaign
  imports Scenario
begin

text \<open>
  Campaign files: the configuration of \<open>src/internal/campaign/campaign.go\<close>, decoded (\<open>craw\<close>) and
  validated (\<open>Campaign\<close>), with the errors in the order in which the code finds them. A Go map is an
  association list in the order in which the loop of the code visits it. Values of errors that
  only format other values are left out.
\<close>

section \<open>Decoded files\<close>

record rawDurationRng =
  rr_Min :: string
  rr_Max :: string

record rawTargets =
  rt_Pool :: "string list"
  rt_Patterns :: "string list"

record rawHighDiscrimTier =
  rh_FailureTypes :: "string list"
  rh_SamplesPerCell :: int

record rawSampling =
  rs_Default :: int
  rs_HighDiscrimination :: "rawHighDiscrimTier list"

record rawFailureType =
  rft_Type :: string
  rft_StatusCodeChoices :: "int list"
  rft_MethodChoices :: "string list"
  rft_PhaseChoices :: "string list"
  rft_DelayRange :: "rawDurationRng option"
  rft_ResponseTimeThreshold :: string
  rft_HeaderName :: string
  rft_HeaderValueChoices :: "string list"
  rft_ContentChoices :: "string list"
  rft_KeywordChoices :: "string list"
  rft_DaysExpiredChoices :: "int list"
  rft_DaysRemainingChoices :: "int list"
  rft_VariantChoices :: "string list"
  rft_ReasonChoices :: "string list"

record rawEscalation =
  re_Probability :: float64
  re_StagesMin :: int
  re_StagesMax :: int
  re_InterStageRange :: "rawDurationRng option"
  re_Patterns :: "string list"

record craw =
  cr_ID :: string
  cr_Description :: string
  cr_Duration :: string
  cr_Seed :: int
  cr_CheckFrequency :: string
  cr_GracePeriod :: string
  cr_Targets :: rawTargets
  cr_DurationBuckets :: "(string \<times> rawDurationRng) list"
  cr_Sampling :: rawSampling
  cr_FailureTypes :: "rawFailureType list"
  cr_Escalation :: "rawEscalation option"
  cr_Budget :: "(string \<times> int) list"
  cr_Cooldown :: string

section \<open>Validated campaigns\<close>

record Targets =
  ts_Pool :: "string list"
  ts_Patterns :: "string list"

record DurationRange =
  dr_Min :: duration
  dr_Max :: duration

record HighDiscrimTier =
  ht_FailureTypes :: "string list"
  ht_SamplesPerCell :: int

record Sampling =
  sm_Default :: int
  sm_HighDiscrimination :: "HighDiscrimTier list"

record FailureType =
  ft_Type :: string
  ft_StatusCodeChoices :: "int list"
  ft_MethodChoices :: "string list"
  ft_PhaseChoices :: "string list"
  ft_DelayRange :: "DurationRange option"
  ft_Threshold :: duration
  ft_HeaderName :: string
  ft_HeaderValueChoices :: "string list"
  ft_ContentChoices :: "string list"
  ft_KeywordChoices :: "string list"
  ft_DaysExpiredChoices :: "int list"
  ft_DaysRemainingChoices :: "int list"
  ft_VariantChoices :: "string list"
  ft_ReasonChoices :: "string list"

record Escalation =
  es_Probability :: float64
  es_StagesMin :: int
  es_StagesMax :: int
  es_InterStageRange :: DurationRange
  es_Patterns :: "string list"

record Campaign =
  ca_ID :: string
  ca_Description :: string
  ca_Duration :: duration
  ca_Seed :: int
  ca_CheckFrequency :: duration
  ca_GracePeriod :: duration
  ca_Targets :: Targets
  ca_DurationBuckets :: "(string \<times> DurationRange) list"
  ca_Sampling :: Sampling
  ca_FailureTypes :: "FailureType list"
  ca_Escalation :: "Escalation option"
  ca_Budget :: "(string \<times> int) list"
  ca_Cooldown :: duration

section \<open>Validation\<close>

definition campaign_duration :: "string \<Rightarrow> string \<Rightarrow> bool \<Rightarrow> duration result" where
  "campaign_duration field s required =
    (if s = [] then (if required then Inl (''campaign: '' @ field @ '' is required'') else Inr 0)
     else case ParseDuration s of
       None \<Rightarrow> Inl (''campaign: '' @ field @ '': invalid duration '' @ s)
     | Some d \<Rightarrow> Inr d)"

text \<open>The first error of a check over a list.\<close>

fun check_each :: "('a \<Rightarrow> unit result) \<Rightarrow> 'a list \<Rightarrow> unit result" where
  "check_each f [] = Inr ()"
| "check_each f (x # xs) = rbind (f x) (\<lambda>_. check_each f xs)"

lemma check_each_iff [simp]: "check_each f xs = Inr u \<longleftrightarrow> (\<forall>x \<in> set xs. f x = Inr ())"
  by (induction xs) auto

definition host_patterns :: "string list" where
  "host_patterns = [''single'', ''two_random'', ''all'']"

definition validateTargets :: "rawTargets \<Rightarrow> Targets result" where
  "validateTargets rt =
    (if rt_Pool rt = [] then Inl ''campaign: targets.pool must list at least one host''
     else if rt_Patterns rt = [] then Inl ''campaign: targets.patterns must list at least one pattern''
     else rbind (check_each (\<lambda>p. require (p \<in> set host_patterns) (''campaign: targets.patterns: unknown pattern '' @ p))
         (rt_Patterns rt)) (\<lambda>_.
       if ''two_random'' \<in> set (rt_Patterns rt) \<and> length (rt_Pool rt) < 2
       then Inl ''campaign: targets.patterns includes two_random but pool has only one host''
       else Inr \<lparr>ts_Pool = rt_Pool rt, ts_Patterns = rt_Patterns rt\<rparr>))"

definition validateDurationRange :: "string \<Rightarrow> rawDurationRng \<Rightarrow> DurationRange result" where
  "validateDurationRange field rd =
    rbind (campaign_duration (field @ ''.min'') (rr_Min rd) True) (\<lambda>minD.
    rbind (campaign_duration (field @ ''.max'') (rr_Max rd) True) (\<lambda>maxD.
      if minD \<le> 0 then Inl (''campaign: '' @ field @ ''.min must be positive'')
      else if maxD < minD then Inl (''campaign: '' @ field @ '': max must not be below min'')
      else Inr \<lparr>dr_Min = minD, dr_Max = maxD\<rparr>))"

text \<open>A bucket is checked like any other range; only the wording of the field differs.\<close>

definition validateDurationBuckets ::
  "(string \<times> rawDurationRng) list \<Rightarrow> (string \<times> DurationRange) list result" where
  "validateDurationBuckets rb =
    (if rb = [] then Inl ''campaign: duration_buckets must declare at least one bucket''
     else rmap (\<lambda>(name, bk). rbind (validateDurationRange (''duration_buckets.'' @ name) bk) (\<lambda>r. Inr (name, r))) rb)"

definition normalizeMethodChoices :: "string list \<Rightarrow> string list" where
  "normalizeMethodChoices methods = map (\<lambda>m. ToUpper (TrimSpace m)) methods"

definition validHTTPMethod :: "string \<Rightarrow> bool" where
  "validHTTPMethod m \<longleftrightarrow> m \<in> {''GET'', ''HEAD'', ''POST'', ''PUT'', ''PATCH'', ''DELETE'', ''OPTIONS''}"

definition validateVariantChoice :: "string \<Rightarrow> string \<Rightarrow> unit result" where
  "validateVariantChoice ty v =
    (if ty = ''http_redirect'' then
       require (v \<in> {''loop'', ''chain''}) (''variant_choices contains invalid http_redirect variant '' @ v)
     else if ty = ''tls_invalid'' then
       require (v \<in> {''self_signed'', ''hostname_mismatch''}) (''variant_choices contains invalid tls_invalid variant '' @ v)
     else if ty = ''tls_deprecated'' then
       require (v \<in> {''TLS10'', ''TLS11''}) (''variant_choices contains invalid tls_deprecated variant '' @ v)
     else Inr ())"

definition validateContentChoice :: "string \<Rightarrow> string \<Rightarrow> unit result" where
  "validateContentChoice ty content =
    (if ty \<noteq> ''http_body'' then Inr ()
     else require (content \<in> {''empty'', ''error_page'', ''keyword_missing'', ''keyword_injected'', ''ransomware'',
         ''defacement'', ''malicious_script'', ''spam_links''})
       (''content_choices contains invalid http_body content '' @ content))"

definition validateReasonChoice :: "string \<Rightarrow> string \<Rightarrow> unit result" where
  "validateReasonChoice ty reason =
    (if ty = ''tls_handshake'' then
       require (reason \<in> {''version_mismatch'', ''no_common_cipher''})
         (''reason_choices contains invalid tls_handshake reason '' @ reason)
     else Inr ())"

definition at_type :: "nat \<Rightarrow> string \<Rightarrow> string \<Rightarrow> string" where
  "at_type i ty msg = ''campaign: failure_types['' @ show_int (int i) @ ''] ('' @ ty @ ''): '' @ msg"

definition wrap_at :: "nat \<Rightarrow> string \<Rightarrow> 'a result \<Rightarrow> 'a result" where
  "wrap_at i ty r = (case r of Inl e \<Rightarrow> Inl (at_type i ty e) | Inr x \<Rightarrow> Inr x)"

lemma wrap_at_Inr [simp]: "wrap_at i ty r = Inr x \<longleftrightarrow> r = Inr x"
  by (cases r) (simp_all add: wrap_at_def)

text \<open>The choices of a type, in the order of the checks.\<close>

definition validate_choices :: "nat \<Rightarrow> rawFailureType \<Rightarrow> unit result" where
  "validate_choices i rf =
    (let ty = rft_Type rf; err = at_type i ty in
     rbind (check_each (\<lambda>code. require (100 \<le> code \<and> code \<le> 599) (err ''status_code_choices contains invalid code''))
       (rft_StatusCodeChoices rf)) (\<lambda>_.
     rbind (check_each (\<lambda>m. require (validHTTPMethod m) (err ''method_choices contains invalid method''))
       (normalizeMethodChoices (rft_MethodChoices rf))) (\<lambda>_.
     rbind (check_each (\<lambda>d. require (d > 0) (err ''days_expired_choices must be positive'')) (rft_DaysExpiredChoices rf)) (\<lambda>_.
     rbind (check_each (\<lambda>d. require (d > 0) (err ''days_remaining_choices must be positive'')) (rft_DaysRemainingChoices rf)) (\<lambda>_.
     rbind (check_each (\<lambda>v. wrap_at i ty (validateVariantChoice ty v)) (rft_VariantChoices rf)) (\<lambda>_.
     rbind (check_each (\<lambda>c. wrap_at i ty (validateContentChoice ty c)) (rft_ContentChoices rf)) (\<lambda>_.
     rbind (check_each (\<lambda>k. require (k \<noteq> []) (err ''keyword_choices must not contain empty strings'')) (rft_KeywordChoices rf)) (\<lambda>_.
     if ty = ''http_body'' \<and> ''keyword_injected'' \<in> set (rft_ContentChoices rf) \<and> rft_KeywordChoices rf = []
     then Inl (err ''keyword_choices is required when content_choices includes keyword_injected'')
     else check_each (\<lambda>r. wrap_at i ty (validateReasonChoice ty r)) (rft_ReasonChoices rf)))))))))"

text \<open>What a type needs, once its ranges are read.\<close>

definition validate_needs :: "nat \<Rightarrow> FailureType \<Rightarrow> unit result" where
  "validate_needs i ft =
    (let ty = ft_Type ft; err = at_type i ty in
     if ty = ''http_latency'' \<and> ft_Threshold ft = 0 then Inl (err ''response_time_threshold is required for http_latency'')
     else if ty = ''http_method_status'' then
       (if ft_StatusCodeChoices ft = [] then Inl (err ''status_code_choices is required for http_method_status'')
        else if ft_MethodChoices ft = [] then Inl (err ''method_choices is required for http_method_status'')
        else Inr ())
     else if ty = ''http_timeout'' then
       (if ft_PhaseChoices ft = [] then Inl (err ''phase_choices is required for http_timeout'')
        else if ft_DelayRange ft = None then Inl (err ''delay_range is required for http_timeout'')
        else Inr ())
     else if ty = ''http_latency'' then
       (if ft_DelayRange ft = None then Inl (err ''delay_range is required for http_latency'') else Inr ())
     else if ty = ''http_redirect'' then
       (if ft_VariantChoices ft = [] then Inl (err ''variant_choices is required for http_redirect'') else Inr ())
     else if ty = ''http_header_status'' then
       (if ft_StatusCodeChoices ft = [] then Inl (err ''status_code_choices is required for http_header_status'')
        else if ft_HeaderName ft = [] then Inl (err ''header_name is required for http_header_status'')
        else check_each (\<lambda>v. require (v \<noteq> []) (err ''header_value_choices must not contain empty strings''))
          (ft_HeaderValueChoices ft))
     else Inr ())"

definition failure_type_of :: "rawFailureType \<Rightarrow> DurationRange option \<Rightarrow> duration \<Rightarrow> FailureType" where
  "failure_type_of rf delay threshold =
    \<lparr>ft_Type = rft_Type rf, ft_StatusCodeChoices = rft_StatusCodeChoices rf,
     ft_MethodChoices = normalizeMethodChoices (rft_MethodChoices rf), ft_PhaseChoices = rft_PhaseChoices rf,
     ft_DelayRange = delay, ft_Threshold = threshold, ft_HeaderName = rft_HeaderName rf,
     ft_HeaderValueChoices = rft_HeaderValueChoices rf, ft_ContentChoices = rft_ContentChoices rf,
     ft_KeywordChoices = rft_KeywordChoices rf, ft_DaysExpiredChoices = rft_DaysExpiredChoices rf,
     ft_DaysRemainingChoices = rft_DaysRemainingChoices rf, ft_VariantChoices = rft_VariantChoices rf,
     ft_ReasonChoices = rft_ReasonChoices rf\<rparr>"

definition validateFailureTypeConfig :: "nat \<Rightarrow> rawFailureType \<Rightarrow> FailureType result" where
  "validateFailureTypeConfig i rf =
    (let field = ''failure_types['' @ show_int (int i) @ '']'' in
     rbind (validate_choices i rf) (\<lambda>_.
     rbind (case rft_DelayRange rf of None \<Rightarrow> Inr None
            | Some rd \<Rightarrow> rbind (validateDurationRange (field @ ''.delay_range'') rd) (\<lambda>dr. Inr (Some dr))) (\<lambda>delay.
     rbind (if rft_ResponseTimeThreshold rf = [] then Inr 0
            else rbind (campaign_duration (field @ ''.response_time_threshold'') (rft_ResponseTimeThreshold rf) True) (\<lambda>t.
              if t \<le> 0 then Inl (at_type i (rft_Type rf) ''response_time_threshold must be positive'') else Inr t)) (\<lambda>threshold.
     let ft = failure_type_of rf delay threshold in
     rbind (validate_needs i ft) (\<lambda>_. Inr ft)))))"

fun failure_types_loop :: "nat \<Rightarrow> string list \<Rightarrow> rawFailureType list \<Rightarrow> FailureType list result" where
  "failure_types_loop i seen [] = Inr []"
| "failure_types_loop i seen (rf # rfs) =
    (let field = ''campaign: failure_types['' @ show_int (int i) @ '']'' in
     if rft_Type rf = [] then Inl (field @ ''.type is required'')
     else if rft_Type rf \<in> set seen then Inl (field @ '': duplicate type '' @ rft_Type rf)
     else rbind (validateFailureTypeConfig i rf) (\<lambda>ft.
       rbind (failure_types_loop (Suc i) (rft_Type rf # seen) rfs) (\<lambda>fts. Inr (ft # fts))))"

definition validateFailureTypes :: "rawFailureType list \<Rightarrow> FailureType list result" where
  "validateFailureTypes rfs =
    (if rfs = [] then Inl ''campaign: at least one failure_types block is required''
     else failure_types_loop 0 [] rfs)"

fun tiers_loop :: "string list \<Rightarrow> nat \<Rightarrow> rawHighDiscrimTier list \<Rightarrow> HighDiscrimTier list result" where
  "tiers_loop declared i [] = Inr []"
| "tiers_loop declared i (t # ts) =
    (let field = ''campaign: sampling.high_discrimination['' @ show_int (int i) @ '']'' in
     if rh_SamplesPerCell t \<le> 0 then Inl (field @ ''.samples_per_cell must be positive'')
     else if rh_FailureTypes t = [] then Inl (field @ ''.failure_types must list at least one type'')
     else rbind (check_each (\<lambda>n. require (n \<in> set declared) (field @ '': failure_type '' @ n @ '' is not declared''))
         (rh_FailureTypes t)) (\<lambda>_.
       rbind (tiers_loop declared (Suc i) ts) (\<lambda>rest.
         Inr (\<lparr>ht_FailureTypes = rh_FailureTypes t, ht_SamplesPerCell = rh_SamplesPerCell t\<rparr> # rest))))"

definition validateSampling :: "rawSampling \<Rightarrow> FailureType list \<Rightarrow> Sampling result" where
  "validateSampling rs fts =
    (if rs_Default rs \<le> 0 then Inl ''campaign: sampling.samples_per_cell_default must be positive''
     else rbind (tiers_loop (map ft_Type fts) 0 (rs_HighDiscrimination rs)) (\<lambda>tiers.
       Inr \<lparr>sm_Default = rs_Default rs, sm_HighDiscrimination = tiers\<rparr>))"

definition escalation_patterns :: "string list" where
  "escalation_patterns = [''layered'', ''replacement'', ''recovery'']"

fun patterns_loop :: "string list \<Rightarrow> string list \<Rightarrow> unit result" where
  "patterns_loop seen [] = Inr ()"
| "patterns_loop seen (p # ps) =
    (if p \<notin> set escalation_patterns then Inl (''campaign: escalation.patterns contains unknown pattern '' @ p)
     else if p \<in> set seen then Inl (''campaign: escalation.patterns contains duplicate pattern '' @ p)
     else patterns_loop (p # seen) ps)"

definition validateEscalation :: "rawEscalation \<Rightarrow> Escalation result" where
  "validateEscalation re =
    (if flt (re_Probability re) (Fin 0) \<or> flt (Fin 1) (re_Probability re)
     then Inl ''campaign: escalation.probability must be in [0, 1]''
     else if re_StagesMin re < 2 then Inl ''campaign: escalation.stages_range.min must be at least 2''
     else if re_StagesMax re < re_StagesMin re
     then Inl ''campaign: escalation.stages_range: max must not be below min''
     else case re_InterStageRange re of
       None \<Rightarrow> Inl ''campaign: escalation.inter_stage_range is required when escalation is declared''
     | Some rd \<Rightarrow> rbind (validateDurationRange ''escalation.inter_stage_range'' rd) (\<lambda>dr.
         let patterns = (if re_Patterns re = [] then [''layered''] else re_Patterns re) in
         rbind (patterns_loop [] patterns) (\<lambda>_.
           Inr \<lparr>es_Probability = re_Probability re, es_StagesMin = re_StagesMin re, es_StagesMax = re_StagesMax re,
                es_InterStageRange = dr, es_Patterns = patterns\<rparr>)))"

definition validateBudget :: "(string \<times> int) list \<Rightarrow> (string \<times> int) list result" where
  "validateBudget rb =
    rmap (\<lambda>(svc, n). if n < 0 then Inl (''campaign: budget.'' @ svc @ ''.max_runs_per_hour must be at least 0'')
      else Inr (svc, n)) rb"

definition validateCooldown :: "string \<Rightarrow> duration result" where
  "validateCooldown s =
    rbind (campaign_duration ''cooldown.per_target_minimum'' s False) (\<lambda>cd.
      if cd < 0 then Inl ''campaign: cooldown.per_target_minimum must be non-negative'' else Inr cd)"

definition positive :: "string \<Rightarrow> duration \<Rightarrow> duration result" where
  "positive field d = (if d \<le> 0 then Inl (''campaign: '' @ field @ '' must be positive'') else Inr d)"

definition campaign_grace :: "string \<Rightarrow> duration result" where
  "campaign_grace s =
    rbind (campaign_duration ''grace_period'' s False) (\<lambda>gp0.
      let gp = (if gp0 = 0 then 3 * Minute else gp0) in
      if gp < 0 then Inl ''campaign: grace_period must be non-negative'' else Inr gp)"

definition validate_campaign :: "craw \<Rightarrow> Campaign result" where
  "validate_campaign r =
    (if cr_ID r = [] then Inl ''campaign: id is required''
     else
       rbind (campaign_duration ''duration'' (cr_Duration r) True) (\<lambda>d.
       rbind (positive ''duration'' d) (\<lambda>dur.
       rbind (campaign_duration ''check_frequency'' (cr_CheckFrequency r) True) (\<lambda>f.
       rbind (positive ''check_frequency'' f) (\<lambda>cf.
       rbind (campaign_grace (cr_GracePeriod r)) (\<lambda>gp.
       rbind (validateTargets (cr_Targets r)) (\<lambda>targets.
       rbind (validateDurationBuckets (cr_DurationBuckets r)) (\<lambda>buckets.
       rbind (validateFailureTypes (cr_FailureTypes r)) (\<lambda>fts.
       rbind (validateSampling (cr_Sampling r) fts) (\<lambda>sampling.
       rbind (case cr_Escalation r of None \<Rightarrow> Inr None
              | Some e \<Rightarrow> rbind (validateEscalation e) (\<lambda>e. Inr (Some e))) (\<lambda>esc.
       rbind (validateBudget (cr_Budget r)) (\<lambda>budget.
       rbind (validateCooldown (cr_Cooldown r)) (\<lambda>cooldown.
         Inr \<lparr>ca_ID = cr_ID r, ca_Description = cr_Description r, ca_Duration = dur, ca_Seed = cr_Seed r,
              ca_CheckFrequency = cf, ca_GracePeriod = gp, ca_Targets = targets, ca_DurationBuckets = buckets,
              ca_Sampling = sampling, ca_FailureTypes = fts, ca_Escalation = esc, ca_Budget = budget,
              ca_Cooldown = cooldown\<rparr>)))))))))))))"

section \<open>What a validated campaign promises\<close>

definition range_ok :: "DurationRange \<Rightarrow> bool" where
  "range_ok dr \<longleftrightarrow> 0 < dr_Min dr \<and> dr_Min dr \<le> dr_Max dr \<and> in_int64 (dr_Max dr)"

definition targets_ok :: "Targets \<Rightarrow> bool" where
  "targets_ok ts \<longleftrightarrow> ts_Pool ts \<noteq> [] \<and> ts_Patterns ts \<noteq> [] \<and> set (ts_Patterns ts) \<subseteq> set host_patterns \<and>
     (''two_random'' \<in> set (ts_Patterns ts) \<longrightarrow> 2 \<le> length (ts_Pool ts))"

definition escalation_ok :: "Escalation \<Rightarrow> bool" where
  "escalation_ok e \<longleftrightarrow> 2 \<le> es_StagesMin e \<and> es_StagesMin e \<le> es_StagesMax e \<and> range_ok (es_InterStageRange e) \<and>
     es_Patterns e \<noteq> [] \<and> distinct (es_Patterns e) \<and> set (es_Patterns e) \<subseteq> set escalation_patterns"

definition sampling_ok :: "FailureType list \<Rightarrow> Sampling \<Rightarrow> bool" where
  "sampling_ok fts s \<longleftrightarrow> 0 < sm_Default s \<and>
     (\<forall>t \<in> set (sm_HighDiscrimination s). 0 < ht_SamplesPerCell t \<and> set (ht_FailureTypes t) \<subseteq> ft_Type ` set fts)"

definition failure_type_ok :: "FailureType \<Rightarrow> bool" where
  "failure_type_ok ft \<longleftrightarrow> ft_Type ft \<noteq> [] \<and> (case ft_DelayRange ft of None \<Rightarrow> True | Some dr \<Rightarrow> range_ok dr) \<and>
     0 \<le> ft_Threshold ft \<and> list_all (\<lambda>c. 100 \<le> c \<and> c \<le> 599) (ft_StatusCodeChoices ft) \<and>
     list_all (\<lambda>k. k \<noteq> []) (ft_KeywordChoices ft) \<and>
     (''keyword_injected'' \<in> set (ft_ContentChoices ft) \<and> ft_Type ft = ''http_body'' \<longrightarrow> ft_KeywordChoices ft \<noteq> [])"

definition campaign_ok :: "Campaign \<Rightarrow> bool" where
  "campaign_ok c \<longleftrightarrow> ca_ID c \<noteq> [] \<and> 0 < ca_Duration c \<and> in_int64 (ca_Duration c) \<and> 0 < ca_CheckFrequency c \<and>
     0 \<le> ca_GracePeriod c \<and> 0 \<le> ca_Cooldown c \<and> targets_ok (ca_Targets c) \<and>
     ca_DurationBuckets c \<noteq> [] \<and> list_all (\<lambda>(n, dr). range_ok dr) (ca_DurationBuckets c) \<and>
     ca_FailureTypes c \<noteq> [] \<and> distinct (map ft_Type (ca_FailureTypes c)) \<and> list_all failure_type_ok (ca_FailureTypes c) \<and>
     sampling_ok (ca_FailureTypes c) (ca_Sampling c) \<and>
     (case ca_Escalation c of None \<Rightarrow> True | Some e \<Rightarrow> escalation_ok e)"

lemma campaign_duration_range: "campaign_duration f s b = Inr d \<Longrightarrow> in_int64 d"
  by (auto simp: campaign_duration_def in_int64_def split: if_splits option.splits dest: ParseDuration_in_int64)

lemma validateDurationRange_ok: "validateDurationRange f rd = Inr dr \<Longrightarrow> range_ok dr"
  by (auto simp: validateDurationRange_def range_ok_def guard_Inr_iff dest: campaign_duration_range)

lemma validateTargets_ok: "validateTargets rt = Inr ts \<Longrightarrow> targets_ok ts"
  by (auto simp: validateTargets_def targets_ok_def guard_Inr_iff not_less)

lemma validateDurationBuckets_ok:
  assumes "validateDurationBuckets rb = Inr bs"
  shows "bs \<noteq> []" and "list_all (\<lambda>(n, dr). range_ok dr) bs" and "map fst bs = map fst rb"
proof -
  from assms have rb: "rb \<noteq> []"
    and m: "rmap (\<lambda>(name, bk). rbind (validateDurationRange (''duration_buckets.'' @ name) bk) (\<lambda>r. Inr (name, r))) rb = Inr bs"
    by (auto simp: validateDurationBuckets_def guard_Inr_iff)
  from rb m show "bs \<noteq> []" by (auto dest: rmap_Inr_length)
  from m show "list_all (\<lambda>(n, dr). range_ok dr) bs"
    by (rule rmap_Inr_all) (auto dest: validateDurationRange_ok)
  from m show "map fst bs = map fst rb"
    unfolding rmap_Inr_list_all2 by (induction rule: list_all2_induct) auto
qed

lemma validate_choices_ok:
  assumes "validate_choices i rf = Inr ()"
  shows "list_all (\<lambda>c. 100 \<le> c \<and> c \<le> 599) (rft_StatusCodeChoices rf)"
    and "''keyword_injected'' \<in> set (rft_ContentChoices rf) \<Longrightarrow> rft_Type rf = ''http_body'' \<Longrightarrow> rft_KeywordChoices rf \<noteq> []"
    and "list_all (\<lambda>k. k \<noteq> []) (rft_KeywordChoices rf)"
  using assms by (auto simp: validate_choices_def Let_def guard_Inr_iff list_all_iff)

lemma validateFailureTypeConfig_ok:
  assumes "validateFailureTypeConfig i rf = Inr ft" and "rft_Type rf \<noteq> []"
  shows "failure_type_ok ft" and "ft_Type ft = rft_Type rf" and "validate_needs i ft = Inr ()"
proof -
  obtain delay threshold where ch: "validate_choices i rf = Inr ()"
    and delay: "(case rft_DelayRange rf of None \<Rightarrow> Inr None
        | Some rd \<Rightarrow> rbind (validateDurationRange ((''failure_types['' @ show_int (int i) @ '']'') @ ''.delay_range'') rd) (\<lambda>dr. Inr (Some dr))) = Inr delay"
    and threshold: "(if rft_ResponseTimeThreshold rf = [] then Inr 0
        else rbind (campaign_duration ((''failure_types['' @ show_int (int i) @ '']'') @ ''.response_time_threshold'')
            (rft_ResponseTimeThreshold rf) True) (\<lambda>t.
          if t \<le> 0 then Inl (at_type i (rft_Type rf) ''response_time_threshold must be positive'') else Inr t)) = Inr threshold"
    and needs: "validate_needs i (failure_type_of rf delay threshold) = Inr ()"
    and ft: "ft = failure_type_of rf delay threshold"
    using assms(1) unfolding validateFailureTypeConfig_def Let_def rbind_Inr_iff by auto
  have "case delay of None \<Rightarrow> True | Some dr \<Rightarrow> range_ok dr"
    using delay by (cases "rft_DelayRange rf") (auto dest: validateDurationRange_ok)
  moreover have "0 \<le> threshold"
    using threshold by (auto split: if_splits)
  ultimately show "failure_type_ok ft"
    using assms(2) validate_choices_ok [OF ch] by (auto simp: ft failure_type_ok_def failure_type_of_def)
  show "ft_Type ft = rft_Type rf" "validate_needs i ft = Inr ()"
    using needs by (simp_all add: ft failure_type_of_def)
qed

lemma failure_types_loop_ok:
  assumes "failure_types_loop i seen rfs = Inr fts"
  shows "list_all failure_type_ok fts \<and> distinct (map ft_Type fts) \<and> ft_Type ` set fts \<inter> set seen = {} \<and> length fts = length rfs \<and>
    list_all (\<lambda>ft. \<exists>j. validate_needs j ft = Inr ()) fts"
  using assms
proof (induction i seen rfs arbitrary: fts rule: failure_types_loop.induct)
  case (1 i seen)
  then show ?case by simp
next
  case (2 i seen rf rfs)
  from 2(2) have new: "rft_Type rf \<noteq> []" "rft_Type rf \<notin> set seen"
    by (auto simp: Let_def split: if_splits)
  obtain ft rest where ft: "validateFailureTypeConfig i rf = Inr ft"
    and rest: "failure_types_loop (Suc i) (rft_Type rf # seen) rfs = Inr rest" and fts: "fts = ft # rest"
    using 2(2) new by (auto simp: Let_def)
  have "list_all failure_type_ok rest \<and> distinct (map ft_Type rest) \<and> ft_Type ` set rest \<inter> set (rft_Type rf # seen) = {} \<and>
      length rest = length rfs \<and> list_all (\<lambda>ft. \<exists>j. validate_needs j ft = Inr ()) rest"
    by (rule 2(1) [OF refl _ _ rest]) (use new in simp_all)
  with validateFailureTypeConfig_ok [OF ft new(1)] new show ?case by (auto simp: fts)
qed

lemma tiers_loop_ok:
  "tiers_loop declared i ts = Inr tiers \<Longrightarrow>
     \<forall>t \<in> set tiers. 0 < ht_SamplesPerCell t \<and> set (ht_FailureTypes t) \<subseteq> set declared"
proof (induction ts arbitrary: i tiers)
  case Nil
  then show ?case by simp
next
  case (Cons t ts)
  then obtain rest where "tiers_loop declared (Suc i) ts = Inr rest" "0 < rh_SamplesPerCell t" "\<forall>x \<in> set (rh_FailureTypes t). x \<in> set declared"
    "tiers = \<lparr>ht_FailureTypes = rh_FailureTypes t, ht_SamplesPerCell = rh_SamplesPerCell t\<rparr> # rest"
    by (auto simp: Let_def guard_Inr_iff)
  with Cons.IH [OF this(1)] show ?case by auto
qed

lemma validateSampling_ok: "validateSampling rs fts = Inr s \<Longrightarrow> sampling_ok fts s"
  using tiers_loop_ok by (fastforce simp: validateSampling_def guard_Inr_iff sampling_ok_def)

lemma patterns_loop_ok:
  "patterns_loop seen ps = Inr u \<Longrightarrow> set ps \<subseteq> set escalation_patterns \<and> distinct ps \<and> set ps \<inter> set seen = {}"
proof (induction ps arbitrary: seen)
  case Nil
  then show ?case by simp
next
  case (Cons p ps)
  then have "patterns_loop (p # seen) ps = Inr u" "p \<in> set escalation_patterns" "p \<notin> set seen" by (auto split: if_splits)
  with Cons.IH [OF this(1)] show ?case by auto
qed

lemma validateEscalation_ok:
  assumes "validateEscalation re = Inr e"
  shows "escalation_ok e"
proof -
  obtain rd dr where dr: "validateDurationRange ''escalation.inter_stage_range'' rd = Inr dr"
    and ps: "patterns_loop [] (es_Patterns e) = Inr ()" and e: "es_InterStageRange e = dr" "es_Patterns e \<noteq> []"
      "2 \<le> es_StagesMin e" "es_StagesMin e \<le> es_StagesMax e"
    using assms by (auto simp: validateEscalation_def guard_Inr_iff Let_def split: option.splits if_splits)
  then show ?thesis
    using validateDurationRange_ok [OF dr] patterns_loop_ok [OF ps] by (simp add: escalation_ok_def)
qed

lemma validate_campaign_ok:
  assumes "validate_campaign r = Inr c"
  shows "campaign_ok c"
proof -
  obtain d f where d: "campaign_duration ''duration'' (cr_Duration r) True = Inr d" "positive ''duration'' d = Inr (ca_Duration c)"
    and f: "positive ''check_frequency'' f = Inr (ca_CheckFrequency c)"
    and gp: "campaign_grace (cr_GracePeriod r) = Inr (ca_GracePeriod c)"
    and ts: "validateTargets (cr_Targets r) = Inr (ca_Targets c)"
    and bs: "validateDurationBuckets (cr_DurationBuckets r) = Inr (ca_DurationBuckets c)"
    and fts: "validateFailureTypes (cr_FailureTypes r) = Inr (ca_FailureTypes c)"
    and sm: "validateSampling (cr_Sampling r) (ca_FailureTypes c) = Inr (ca_Sampling c)"
    and es: "(case cr_Escalation r of None \<Rightarrow> Inr None | Some e \<Rightarrow> rbind (validateEscalation e) (\<lambda>e. Inr (Some e))) =
      Inr (ca_Escalation c)"
    and cd: "validateCooldown (cr_Cooldown r) = Inr (ca_Cooldown c)"
    and id: "ca_ID c = cr_ID r" "cr_ID r \<noteq> []"
    using assms unfolding validate_campaign_def guard_Inr_iff rbind_Inr_iff by (elim exE conjE) auto
  have "0 < ca_Duration c" "in_int64 (ca_Duration c)" "0 < ca_CheckFrequency c" "0 \<le> ca_GracePeriod c" "0 \<le> ca_Cooldown c"
    using d f gp cd campaign_duration_range
    by (auto simp: positive_def campaign_grace_def validateCooldown_def guard_Inr_iff Let_def split: if_splits)
  moreover have "ca_FailureTypes c \<noteq> []" "distinct (map ft_Type (ca_FailureTypes c))" "list_all failure_type_ok (ca_FailureTypes c)"
    using fts failure_types_loop_ok by (fastforce simp: validateFailureTypes_def guard_Inr_iff)+
  moreover have "case ca_Escalation c of None \<Rightarrow> True | Some e \<Rightarrow> escalation_ok e"
    using es validateEscalation_ok by (cases "cr_Escalation r"; cases "ca_Escalation c") auto
  ultimately show ?thesis
    using id validateTargets_ok [OF ts] validateDurationBuckets_ok [OF bs] validateSampling_ok [OF sm]
    by (simp add: campaign_ok_def)
qed

end
