(* ===== verification/Campaign_Generate.thy ===== *)
theory Campaign_Generate
  imports Campaign
begin

text \<open>
  The campaign generator, \<open>src/internal/campaign/generator.go\<close>: cells, designs, escalations and the
  schedule of replays. \<open>math/rand/v2\<close> is a \<open>random\<close>: the value of a draw may depend on the seed, the draws
  made before it and its own bound, so every generator behind that interface is an instance. A
  bound that is not positive panics there, and is an error here.
\<close>

section \<open>Random numbers\<close>

datatype draw = Draw_int int | Draw_int64 int | Draw_float

type_synonym rng = "(int \<times> int) \<times> draw list"

record random =
  rd_IntN :: "rng \<Rightarrow> int \<Rightarrow> int"
  rd_Int64N :: "rng \<Rightarrow> int \<Rightarrow> int"
  rd_Float64 :: "rng \<Rightarrow> rat"

text \<open>What the library documents of its results.\<close>

definition random_ok :: "random \<Rightarrow> bool" where
  "random_ok rd \<longleftrightarrow> (\<forall>r n. 0 < n \<longrightarrow> 0 \<le> rd_IntN rd r n \<and> rd_IntN rd r n < n) \<and>
     (\<forall>r n. 0 < n \<longrightarrow> 0 \<le> rd_Int64N rd r n \<and> rd_Int64N rd r n < n) \<and>
     (\<forall>r. 0 \<le> rd_Float64 rd r \<and> rd_Float64 rd r < 1)"

text \<open>Code that draws: it takes the generator and returns a value and the generator after it.\<close>

type_synonym 'a gen = "rng \<Rightarrow> ('a \<times> rng) result"

definition gret :: "'a \<Rightarrow> 'a gen" where
  "gret x r = Inr (x, r)"

definition gbind :: "'a gen \<Rightarrow> ('a \<Rightarrow> 'b gen) \<Rightarrow> 'b gen" where
  "gbind m f r = rbind (m r) (\<lambda>(x, r'). f x r')"

definition IntN :: "random \<Rightarrow> int \<Rightarrow> int gen" where
  "IntN rd n r = (if n \<le> 0 then Inl ''panic: invalid argument to IntN'' else Inr (rd_IntN rd r n, (fst r, snd r @ [Draw_int n])))"

definition Int64N :: "random \<Rightarrow> int \<Rightarrow> int gen" where
  "Int64N rd n r = (if n \<le> 0 then Inl ''panic: invalid argument to Int64N''
     else Inr (rd_Int64N rd r n, (fst r, snd r @ [Draw_int64 n])))"

definition Float64 :: "random \<Rightarrow> float64 gen" where
  "Float64 rd r = Inr (Fin (rd_Float64 rd r), (fst r, snd r @ [Draw_float]))"

text \<open>\<open>xs[r.IntN(len(xs))]\<close>.\<close>

definition pick :: "random \<Rightarrow> 'a list \<Rightarrow> 'a gen" where
  "pick rd xs = gbind (IntN rd (int (length xs))) (\<lambda>i. gret (xs ! nat i))"

text \<open>
  \<open>make([]T, 0, n)\<close> for elements of \<open>sz\<close> bytes: it panics when \<open>n\<close> is negative or the slice would exceed
  the address space of 48 bits. That the memory for a smaller slice is there is not modelled.
\<close>

definition makeslice_panic :: string where
  "makeslice_panic = ''panic: runtime error: makeslice: out of range''"

definition makeslice :: "int \<Rightarrow> int \<Rightarrow> unit result" where
  "makeslice sz n = (if n < 0 \<or> 2 ^ 48 < sz * n then Inl makeslice_panic else Inr ())"

definition makeslice_gen :: "int \<Rightarrow> int \<Rightarrow> unit gen" where
  "makeslice_gen sz n r = rbind (makeslice sz n) (\<lambda>u. Inr (u, r))"

definition le64 :: "int \<Rightarrow> byte list" where
  "le64 n = map (\<lambda>i. word_of_int (n div 256 ^ i)) [0..<8]"

definition read_le64 :: "byte list \<Rightarrow> int" where
  "read_le64 bs = foldr (\<lambda>b v. uint b + 256 * v) (take 8 bs) 0"

definition newRand :: "(string \<Rightarrow> byte list) \<Rightarrow> int \<Rightarrow> rng" where
  "newRand sha seed = (let h = sha (show_int seed) in ((read_le64 h, read_le64 (drop 8 h)), []))"

definition deriveSeed :: "(string \<Rightarrow> byte list) \<Rightarrow> int \<Rightarrow> string \<Rightarrow> nat \<Rightarrow> int" where
  "deriveSeed sha master label index =
    wrap64 (read_le64 (sha (label @ string_of (le64 master @ le64 (int index)))))"

definition durationIn :: "random \<Rightarrow> duration \<Rightarrow> duration \<Rightarrow> duration gen" where
  "durationIn rd mn mx =
    (if mx \<le> mn then gret mn
     else let span = wrap64 (mx - mn) in gbind (Int64N rd (wrap64 (span + 1))) (\<lambda>d. gret (wrap64 (mn + d))))"

section \<open>Designs\<close>

record Cell =
  cl_FailureType :: string
  cl_DurationBucket :: string
  cl_HostPattern :: string

record EscalationStage =
  st_FailureType :: string
  st_Params :: params
  st_Offset :: duration
  st_Duration :: duration

record EscalationDesign =
  ed_Pattern :: string
  ed_Stages :: "EscalationStage list"

record Design =
  de_ID :: string
  de_Cell :: Cell
  de_Replays :: int
  de_Targets :: "string list"
  de_FailureType :: string
  de_Duration :: duration
  de_Params :: params
  de_Escalation :: "EscalationDesign option"
  de_Seed :: int

record ReplaySlot =
  rp_DesignID :: string
  rp_Index :: int
  rp_Offset :: duration

record Plan =
  pl_Designs :: "Design list"
  pl_Schedule :: "ReplaySlot list"

definition ReportLabel :: "Design \<Rightarrow> string" where
  "ReportLabel d =
    (case de_Escalation d of
       None \<Rightarrow> de_FailureType d
     | Some e \<Rightarrow>
         if ed_Stages e = [] then de_FailureType d
         else (if ed_Pattern e = [] then ''escalation'' else ed_Pattern e) @ '':'' @ Join (map st_FailureType (ed_Stages e)) ''>'')"

definition HasMixedContentEscalation :: "Design \<Rightarrow> bool" where
  "HasMixedContentEscalation d =
    (case de_Escalation d of
       None \<Rightarrow> False
     | Some e \<Rightarrow>
         (let contents = map (\<lambda>s. as_string (dget (st_Params s) ''content'')) (filter (\<lambda>s. st_FailureType s = ''http_body'') (ed_Stages e))
          in ''keyword_injected'' \<in> set contents \<and> list_ex (\<lambda>c. c \<noteq> ''keyword_injected'' \<and> c \<noteq> []) contents))"

definition enumerateCells :: "Campaign \<Rightarrow> Cell list" where
  "enumerateCells c =
    (let bucketNames = sort (map fst (ca_DurationBuckets c)) in
     concat (map (\<lambda>ft. concat (map (\<lambda>b. map (\<lambda>p.
         \<lparr>cl_FailureType = ft_Type ft, cl_DurationBucket = b, cl_HostPattern = p\<rparr>) (ts_Patterns (ca_Targets c)))
       bucketNames)) (ca_FailureTypes c)))"

definition pickTargets :: "random \<Rightarrow> string list \<Rightarrow> string \<Rightarrow> string list gen" where
  "pickTargets rd pool pattern =
    (if pattern = ''single'' then gbind (pick rd pool) (\<lambda>h. gret [h])
     else if pattern = ''two_random'' then
       gbind (IntN rd (int (length pool))) (\<lambda>i.
       gbind (IntN rd (int (length pool) - 1)) (\<lambda>j.
         let j = (if j \<ge> i then j + 1 else j) in gret [pool ! nat i, pool ! nat j]))
     else if pattern = ''all'' then gret pool
     else gret [])"

definition put_choice :: "random \<Rightarrow> string \<Rightarrow> ('a \<Rightarrow> float64 any) \<Rightarrow> 'a list \<Rightarrow> params \<Rightarrow> params gen" where
  "put_choice rd k f xs p = (if xs = [] then gret p else gbind (pick rd xs) (\<lambda>x. gret (AList.update k (f x) p)))"

definition put :: "bool \<Rightarrow> string \<Rightarrow> float64 any \<Rightarrow> params \<Rightarrow> params" where
  "put b k v p = (if b then AList.update k v p else p)"

definition pickFailureParams :: "random \<Rightarrow> FailureType option \<Rightarrow> params gen" where
  "pickFailureParams rd oft =
    (case oft of
       None \<Rightarrow> gret []
     | Some ft \<Rightarrow>
         gbind (put_choice rd ''status_code'' VInt (ft_StatusCodeChoices ft) []) (\<lambda>p.
         gbind (put_choice rd ''method'' VString (ft_MethodChoices ft) p) (\<lambda>p.
         gbind (put_choice rd ''phase'' VString (ft_PhaseChoices ft) p) (\<lambda>p.
         gbind (case ft_DelayRange ft of None \<Rightarrow> gret p
                | Some dr \<Rightarrow> gbind (durationIn rd (dr_Min dr) (dr_Max dr)) (\<lambda>d. gret (AList.update ''delay'' (VDuration d) p))) (\<lambda>p.
         let p = put (ft_Threshold ft > 0) ''response_time_threshold'' (VDuration (ft_Threshold ft)) p;
             p = put (ft_HeaderName ft \<noteq> []) ''header_name'' (VString (ft_HeaderName ft)) p in
         gbind (put_choice rd ''header_value'' VString (ft_HeaderValueChoices ft) p) (\<lambda>p.
         gbind (put_choice rd ''content'' VString (ft_ContentChoices ft) p) (\<lambda>p.
         gbind (if as_string (dget p ''content'') = ''keyword_injected''
                then put_choice rd ''keyword'' VString (ft_KeywordChoices ft) p else gret p) (\<lambda>p.
         gbind (put_choice rd ''days_expired'' VInt (ft_DaysExpiredChoices ft) p) (\<lambda>p.
         gbind (put_choice rd ''days_remaining'' VInt (ft_DaysRemainingChoices ft) p) (\<lambda>p.
         gbind (put_choice rd ''variant'' VString (ft_VariantChoices ft) p) (\<lambda>p.
           put_choice rd ''reason'' VString (ft_ReasonChoices ft) p)))))))))))"

definition failureTypeByName :: "Campaign \<Rightarrow> string \<Rightarrow> FailureType option" where
  "failureTypeByName c name = find (\<lambda>ft. ft_Type ft = name) (ca_FailureTypes c)"

section \<open>Escalations\<close>

definition halfPositive :: "duration \<Rightarrow> duration" where
  "halfPositive d = (if d \<le> 1 then d else quot_trunc d 2)"

definition escalationStageDuration :: "string \<Rightarrow> duration list \<Rightarrow> nat \<Rightarrow> duration \<Rightarrow> duration" where
  "escalationStageDuration pattern offsets i scenarioDuration =
    (let remaining = wrap64 (scenarioDuration - offsets ! i) in
     if pattern = ''replacement'' then
       (if i + 1 < length offsets then wrap64 (offsets ! (i + 1) - offsets ! i) else remaining)
     else if pattern = ''recovery'' then
       (if i + 1 < length offsets then halfPositive (wrap64 (offsets ! (i + 1) - offsets ! i)) else halfPositive remaining)
     else remaining)"

text \<open>The offsets of the stages: \<open>n\<close> more are wanted, the next is \<open>offset\<close>.\<close>

fun stage_offsets :: "random \<Rightarrow> DurationRange \<Rightarrow> duration \<Rightarrow> nat \<Rightarrow> duration \<Rightarrow> duration list gen" where
  "stage_offsets rd dr scenarioDuration 0 offset = gret []"
| "stage_offsets rd dr scenarioDuration (Suc n) offset =
    (if n = 0 then gret [offset]
     else gbind (durationIn rd (dr_Min dr) (dr_Max dr)) (\<lambda>d.
       let next = wrap64 (offset + d) in
       if next \<ge> scenarioDuration then gret [offset]
       else gbind (stage_offsets rd dr scenarioDuration n next) (\<lambda>rest. gret (offset # rest))))"

fun stages_loop ::
  "random \<Rightarrow> Campaign \<Rightarrow> string \<Rightarrow> string \<Rightarrow> duration \<Rightarrow> duration list \<Rightarrow> nat list \<Rightarrow> EscalationStage list gen" where
  "stages_loop rd c base pattern scenarioDuration offsets [] = gret []"
| "stages_loop rd c base pattern scenarioDuration offsets (i # is) =
    gbind (if i > 0 then gbind (pick rd (ca_FailureTypes c)) (\<lambda>ft. gret (ft_Type ft)) else gret base) (\<lambda>name.
    gbind (pickFailureParams rd (failureTypeByName c name)) (\<lambda>ps.
    gbind (stages_loop rd c base pattern scenarioDuration offsets is) (\<lambda>rest.
      gret (\<lparr>st_FailureType = name, st_Params = ps, st_Offset = offsets ! i,
        st_Duration = escalationStageDuration pattern offsets i scenarioDuration\<rparr> # rest))))"

definition pickEscalation :: "random \<Rightarrow> Campaign \<Rightarrow> Escalation \<Rightarrow> string \<Rightarrow> duration \<Rightarrow> EscalationDesign gen" where
  "pickEscalation rd c e base scenarioDuration =
    gbind (if es_StagesMax e > es_StagesMin e
           then gbind (IntN rd (wrap64 (es_StagesMax e - es_StagesMin e + 1))) (\<lambda>n. gret (wrap64 (es_StagesMin e + n)))
           else gret (es_StagesMin e)) (\<lambda>stages.
    gbind (if es_Patterns e = [] then gret ''layered'' else pick rd (es_Patterns e)) (\<lambda>pattern.
    gbind (makeslice_gen 8 stages) (\<lambda>_.
    gbind (stage_offsets rd (es_InterStageRange e) scenarioDuration (nat stages) 0) (\<lambda>offsets.
    gbind (stages_loop rd c base pattern scenarioDuration offsets [0..<length offsets]) (\<lambda>stages.
      gret \<lparr>ed_Pattern = pattern, ed_Stages = stages\<rparr>)))))"

text \<open>\<open>fmt.Sprintf("d-%04d", idx)\<close>.\<close>

definition design_id :: "nat \<Rightarrow> string" where
  "design_id idx = (let s = show_int (int idx) in ''d-'' @ replicate (4 - length s) CHR ''0'' @ s)"

definition bucket_of :: "Campaign \<Rightarrow> string \<Rightarrow> DurationRange" where
  "bucket_of c name = (case map_of (ca_DurationBuckets c) name of None \<Rightarrow> \<lparr>dr_Min = 0, dr_Max = 0\<rparr> | Some dr \<Rightarrow> dr)"

text \<open>The last draws of a design: whether it escalates, and how.\<close>

definition add_escalation :: "random \<Rightarrow> Campaign \<Rightarrow> Design \<Rightarrow> Design gen" where
  "add_escalation rd c d =
    (case ca_Escalation c of
       None \<Rightarrow> gret d
     | Some e \<Rightarrow> gbind (Float64 rd) (\<lambda>u.
         if flt u (es_Probability e)
         then gbind (pickEscalation rd c e (de_FailureType d) (de_Duration d)) (\<lambda>esc. gret (d\<lparr>de_Escalation := Some esc\<rparr>))
         else gret d))"

definition generateDesign ::
  "random \<Rightarrow> (string \<Rightarrow> byte list) \<Rightarrow> Campaign \<Rightarrow> Cell \<Rightarrow> int \<Rightarrow> FailureType option \<Rightarrow> int \<Rightarrow> nat \<Rightarrow> Design result" where
  "generateDesign rd sha c cell samples ftConfig seed idx =
    (let bucket = bucket_of c (cl_DurationBucket cell) in
     rbind (gbind (durationIn rd (dr_Min bucket) (dr_Max bucket)) (\<lambda>dur.
       gbind (pickTargets rd (ts_Pool (ca_Targets c)) (cl_HostPattern cell)) (\<lambda>targets.
       gbind (pickFailureParams rd ftConfig) (\<lambda>ps.
         add_escalation rd c
           \<lparr>de_ID = design_id idx, de_Cell = cell, de_Replays = samples, de_Targets = targets,
            de_FailureType = cl_FailureType cell, de_Duration = dur, de_Params = ps, de_Escalation = None, de_Seed = seed\<rparr>)))
       (newRand sha seed)) (\<lambda>(d, r). Inr d))"

end
