(* ===== verification/Campaign_Schedule.thy ===== *)
theory Campaign_Schedule
  imports Campaign_Generate
begin

text \<open>
  The schedule of a campaign (\<open>generateSchedule\<close> and what it calls in
  \<open>src/internal/campaign/generator.go\<close>) and \<open>Generate\<close> itself: the jittered grid, the layout that
  respects the cooldown of the targets, and the check that both must pass.
\<close>

section \<open>Definitions\<close>

record replayPair =
  pa_design :: nat
  pa_replay :: int

definition replay_pairs :: "Design list \<Rightarrow> replayPair list" where
  "replay_pairs designs =
    concat (map (\<lambda>(di, d). map (\<lambda>ri. \<lparr>pa_design = di, pa_replay = int ri\<rparr>) [0..<nat (de_Replays d)])
      (zip [0..<length designs] designs))"

text \<open>The sum of the replays, in \<open>int\<close>; the loops of \<open>Generate\<close> and of \<open>generateSchedule\<close> both compute it.\<close>

definition total_replays :: "Design list \<Rightarrow> int" where
  "total_replays designs = foldl (\<lambda>n d. wrap64 (n + de_Replays d)) 0 designs"

text \<open>Fisher-Yates from index \<open>i\<close> down to 1.\<close>

fun shuffle_loop :: "random \<Rightarrow> nat \<Rightarrow> 'a list \<Rightarrow> 'a list gen" where
  "shuffle_loop rd 0 xs = gret xs"
| "shuffle_loop rd (Suc i) xs =
    gbind (IntN rd (int (Suc i) + 1)) (\<lambda>j.
      shuffle_loop rd i (xs[Suc i := xs ! nat j, nat j := xs ! Suc i]))"

definition slot_of :: "Design list \<Rightarrow> replayPair \<Rightarrow> duration \<Rightarrow> ReplaySlot" where
  "slot_of designs p offset =
    \<lparr>rp_DesignID = de_ID (designs ! pa_design p), rp_Index = pa_replay p, rp_Offset = offset\<rparr>"

definition uniform_offset :: "duration \<Rightarrow> duration \<Rightarrow> nat \<Rightarrow> float64 \<Rightarrow> duration" where
  "uniform_offset campaignDuration slot i u =
    (let base = wrap64 (int i * slot);
         jitter = int64_of_float (fmul (float_of_int slot) (fadd (fmul u (Fin (1 / 2))) (Fin (- 1 / 4))));
         offset = wrap64 (base + jitter);
         offset = (if offset < 0 then 0 else offset)
     in if offset \<ge> campaignDuration then wrap64 (campaignDuration - Millisecond) else offset)"

fun uniform_loop :: "random \<Rightarrow> Design list \<Rightarrow> duration \<Rightarrow> duration \<Rightarrow> nat \<Rightarrow> replayPair list \<Rightarrow> ReplaySlot list gen" where
  "uniform_loop rd designs campaignDuration slot i [] = gret []"
| "uniform_loop rd designs campaignDuration slot i (p # ps) =
    gbind (Float64 rd) (\<lambda>u.
    gbind (uniform_loop rd designs campaignDuration slot (Suc i) ps) (\<lambda>rest.
      gret (slot_of designs p (uniform_offset campaignDuration slot i u) # rest)))"

definition generateUniformSchedule :: "random \<Rightarrow> Design list \<Rightarrow> replayPair list \<Rightarrow> duration \<Rightarrow> ReplaySlot list gen" where
  "generateUniformSchedule rd designs pairs campaignDuration =
    (if pairs = [] then (\<lambda>_. Inl ''panic: runtime error: integer divide by zero'')
     else gbind (makeslice_gen 32 (int (length pairs))) (\<lambda>_.
       gbind (uniform_loop rd designs campaignDuration (quot_trunc campaignDuration (int (length pairs))) 0 pairs) (\<lambda>slots.
         gret (sort_key rp_Offset slots))))"

definition designsByID :: "Design list \<Rightarrow> (string \<times> Design) list" where
  "designsByID designs = foldl (\<lambda>m d. AList.update (de_ID d) d m) [] designs"

text \<open>One slot: its targets in order, against the last start of each.\<close>

fun cooldown_targets :: "duration \<Rightarrow> duration \<Rightarrow> (string \<times> duration) list \<Rightarrow> string list \<Rightarrow> (string \<times> duration) list option" where
  "cooldown_targets cooldown offset last_by [] = Some last_by"
| "cooldown_targets cooldown offset last_by (t # ts) =
    (case map_of last_by t of
       Some l \<Rightarrow> if wrap64 (offset - l) < cooldown then None
                 else cooldown_targets cooldown offset (AList.update t offset last_by) ts
     | None \<Rightarrow> cooldown_targets cooldown offset (AList.update t offset last_by) ts)"

fun cooldown_loop :: "(string \<times> Design) list \<Rightarrow> duration \<Rightarrow> (string \<times> duration) list \<Rightarrow> ReplaySlot list \<Rightarrow> bool" where
  "cooldown_loop designs cooldown last_by [] = True"
| "cooldown_loop designs cooldown last_by (s # ss) =
    (case map_of designs (rp_DesignID s) of
       None \<Rightarrow> cooldown_loop designs cooldown last_by ss
     | Some d \<Rightarrow> (case cooldown_targets cooldown (rp_Offset s) last_by (de_Targets d) of
         None \<Rightarrow> False
       | Some last_by \<Rightarrow> cooldown_loop designs cooldown last_by ss))"

definition scheduleRespectsTargetCooldown :: "ReplaySlot list \<Rightarrow> (string \<times> Design) list \<Rightarrow> duration \<Rightarrow> bool" where
  "scheduleRespectsTargetCooldown slots designs cooldown = cooldown_loop designs cooldown [] slots"

text \<open>\<open>targetReplayCounts\<close>: the targets of the pairs, one entry per replay.\<close>

definition pair_targets :: "Design list \<Rightarrow> replayPair list \<Rightarrow> string list" where
  "pair_targets designs pairs = concat (map (\<lambda>p. de_Targets (designs ! pa_design p)) pairs)"

text \<open>\<open>seen\<close> lists the targets of the pairs so far: its counts are \<open>targetPositions\<close>.\<close>

definition cooldown_offset :: "duration \<Rightarrow> string list \<Rightarrow> string list \<Rightarrow> duration" where
  "cooldown_offset cooldown seen targets =
    foldl (\<lambda>offset t. let candidate = wrap64 (int (count_list seen t) * cooldown)
       in if candidate > offset then candidate else offset) 0 targets"

fun cooldown_layout :: "Design list \<Rightarrow> duration \<Rightarrow> string list \<Rightarrow> replayPair list \<Rightarrow> ReplaySlot list" where
  "cooldown_layout designs cooldown seen [] = []"
| "cooldown_layout designs cooldown seen (p # ps) =
    (let targets = de_Targets (designs ! pa_design p)
     in slot_of designs p (cooldown_offset cooldown seen targets) # cooldown_layout designs cooldown (seen @ targets) ps)"

definition scaled :: "float64 \<Rightarrow> ReplaySlot \<Rightarrow> ReplaySlot" where
  "scaled scale s = s\<lparr>rp_Offset := int64_of_float (fmul (float_of_int (rp_Offset s)) scale)\<rparr>"

definition stretch :: "duration \<Rightarrow> ReplaySlot list \<Rightarrow> ReplaySlot list" where
  "stretch campaignDuration slots =
    (let latest = foldl max 0 (map rp_Offset slots); scaleTo = wrap64 (campaignDuration - Nanosecond)
     in if latest > 0 \<and> scaleTo > latest
        then map (scaled (fdiv (float_of_int scaleTo) (float_of_int latest))) slots else slots)"

text \<open>The slice of slots has the length that the uniform layout has allocated just before.\<close>

definition generateCooldownSchedule ::
  "Design list \<Rightarrow> replayPair list \<Rightarrow> duration \<Rightarrow> duration \<Rightarrow> ReplaySlot list result" where
  "generateCooldownSchedule designs pairs campaignDuration cooldown =
    (if list_ex (\<lambda>t. wrap64 ((int (count_list (pair_targets designs pairs) t) - 1) * cooldown) \<ge> campaignDuration)
         (pair_targets designs pairs)
     then Inl ''campaign: schedule infeasible''
     else
       let slots = sort_key rp_Offset (stretch campaignDuration (cooldown_layout designs cooldown [] pairs))
       in if scheduleRespectsTargetCooldown slots (designsByID designs) cooldown then Inr slots
          else Inl ''campaign: internal error: generated schedule violates per-target cooldown'')"

definition generateSchedule ::
  "random \<Rightarrow> (string \<Rightarrow> byte list) \<Rightarrow> Design list \<Rightarrow> duration \<Rightarrow> duration \<Rightarrow> int \<Rightarrow> ReplaySlot list result" where
  "generateSchedule rd sha designs campaignDuration cooldown masterSeed =
    (if total_replays designs = 0 then Inr []
     else rbind (makeslice 16 (total_replays designs)) (\<lambda>_.
       let pairs0 = replay_pairs designs in
       rbind (shuffle_loop rd (length pairs0 - 1) pairs0 (newRand sha (deriveSeed sha masterSeed ''schedule'' 0))) (\<lambda>(pairs, r).
       rbind (generateUniformSchedule rd designs pairs campaignDuration r) (\<lambda>(slots, r).
         if cooldown \<le> 0 \<or> scheduleRespectsTargetCooldown slots (designsByID designs) cooldown then Inr slots
         else generateCooldownSchedule designs pairs campaignDuration cooldown))))"

text \<open>The samples of a cell: the first tier that lists its type, else the default.\<close>

definition samples_for :: "Sampling \<Rightarrow> string \<Rightarrow> int" where
  "samples_for s ty =
    (case find (\<lambda>t. ty \<in> set (ht_FailureTypes t)) (sm_HighDiscrimination s) of
       None \<Rightarrow> sm_Default s
     | Some t \<Rightarrow> ht_SamplesPerCell t)"

fun designs_loop :: "random \<Rightarrow> (string \<Rightarrow> byte list) \<Rightarrow> Campaign \<Rightarrow> int \<Rightarrow> nat \<Rightarrow> Cell list \<Rightarrow> Design list result" where
  "designs_loop rd sha c masterSeed i [] = Inr []"
| "designs_loop rd sha c masterSeed i (cell # cells) =
    (let samples = samples_for (ca_Sampling c) (cl_FailureType cell) in
     if samples \<le> 0 then designs_loop rd sha c masterSeed (Suc i) cells
     else rbind (generateDesign rd sha c cell samples (failureTypeByName c (cl_FailureType cell))
           (deriveSeed sha masterSeed ''design'' i) i) (\<lambda>d.
       rbind (designs_loop rd sha c masterSeed (Suc i) cells) (\<lambda>ds. Inr (d # ds))))"

definition Generate :: "random \<Rightarrow> (string \<Rightarrow> byte list) \<Rightarrow> Campaign \<Rightarrow> int \<Rightarrow> Plan result" where
  "Generate rd sha c masterSeed =
    (let cells = enumerateCells c in
     if cells = [] then Inl ''campaign: Generate: no cells produced (empty failure_types, duration_buckets, or patterns)''
     else rbind (designs_loop rd sha c masterSeed 0 cells) (\<lambda>designs.
       if total_replays designs = 0 then Inl ''campaign: Generate: every cell resolved to zero samples''
       else rbind (generateSchedule rd sha designs (ca_Duration c) (ca_Cooldown c) masterSeed) (\<lambda>schedule.
         Inr \<lparr>pl_Designs = designs, pl_Schedule = schedule\<rparr>)))"

end
