(* ===== verification/Campaign_Designs.thy ===== *)
theory Campaign_Designs
  imports Campaign_Schedule
begin

text \<open>
  What the designs of a generated campaign are: total-correctness rules for code that draws random
  numbers (no draw panics, and the result has the property), and the shape of the designs
  and of their escalations.
\<close>

section \<open>Rules for code that draws\<close>

text \<open>
  Code that returns a value with the property, or else, unless the sizes it is given are in range
  (\<open>b\<close>), panics in \<open>make\<close>; code that does not allocate always returns.
\<close>

definition yields_or :: "bool \<Rightarrow> 'a gen \<Rightarrow> ('a \<Rightarrow> bool) \<Rightarrow> bool" where
  "yields_or b m P \<longleftrightarrow> (\<forall>r. (\<exists>x r'. m r = Inr (x, r') \<and> P x) \<or> \<not> b \<and> m r = Inl makeslice_panic)"

abbreviation yields :: "'a gen \<Rightarrow> ('a \<Rightarrow> bool) \<Rightarrow> bool" where
  "yields \<equiv> yields_or True"

named_theorems yields_rules \<open>total correctness of generator code\<close>

lemma yieldsE:
  assumes "yields m P"
  obtains x r' where "m r = Inr (x, r')" and "P x"
  using assms unfolding yields_or_def by blast

lemma yields_orE:
  assumes "yields_or b m P"
  obtains x r' where "m r = Inr (x, r')" and "P x" | "\<not> b" and "m r = Inl makeslice_panic"
  using assms unfolding yields_or_def by blast

lemma gen_runs_or:
  assumes "yields_or b m P"
  shows "(\<exists>d. rbind (m r) (\<lambda>(d, r). Inr d) = Inr d \<and> P d) \<or> \<not> b \<and> rbind (m r) (\<lambda>(d, r). Inr d) = Inl makeslice_panic"
  by (rule yields_orE [OF assms, of r]) simp_all

lemma gen_runs:
  assumes "yields m P"
  shows "\<exists>d. rbind (m r) (\<lambda>(d, r). Inr d) = Inr d \<and> P d"
proof -
  obtain x r' where "m r = Inr (x, r')" "P x" using yieldsE [OF assms, of r] by blast
  then show ?thesis by simp
qed

lemma yields_ret [yields_rules]: "P x \<Longrightarrow> yields_or b (gret x) P"
  by (simp add: yields_or_def gret_def)

lemma yields_or_bind:
  assumes "yields_or b m Q" and "\<And>x. Q x \<Longrightarrow> yields_or b (f x) P"
  shows "yields_or b (gbind m f) P"
  unfolding yields_or_def
proof
  fix r
  show "(\<exists>x r'. gbind m f r = Inr (x, r') \<and> P x) \<or> \<not> b \<and> gbind m f r = Inl makeslice_panic"
  proof (cases rule: yields_orE [OF assms(1), of r])
    case (1 x r')
    from assms(2) [OF 1(2)] show ?thesis by (cases rule: yields_orE [of b "f x" P r']) (simp_all add: gbind_def 1(1))
  next
    case 2
    then show ?thesis by (simp add: gbind_def)
  qed
qed

lemma yields_or_total: "yields m P \<Longrightarrow> yields_or b m P"
  by (simp add: yields_or_def)

lemma yields_bind: "yields m Q \<Longrightarrow> (\<And>x. Q x \<Longrightarrow> yields_or b (f x) P) \<Longrightarrow> yields_or b (gbind m f) P"
  by (rule yields_or_bind [OF yields_or_total])

lemma yields_makeslice: "0 \<le> n \<Longrightarrow> (b \<Longrightarrow> sz * n \<le> 2 ^ 48) \<Longrightarrow> yields_or b (makeslice_gen sz n) (\<lambda>_. True)"
  by (auto simp: yields_or_def makeslice_gen_def makeslice_def)

lemma yields_weaken: "yields m Q \<Longrightarrow> (\<And>x. Q x \<Longrightarrow> P x) \<Longrightarrow> yields m P"
  by (fastforce simp: yields_or_def)

lemma yields_if [yields_rules]: "(b \<Longrightarrow> yields_or ok m P) \<Longrightarrow> (\<not> b \<Longrightarrow> yields_or ok n P) \<Longrightarrow> yields_or ok (if b then m else n) P"
  by simp

lemma yields_IntN: "random_ok rd \<Longrightarrow> 0 < n \<Longrightarrow> yields (IntN rd n) (\<lambda>i. 0 \<le> i \<and> i < n)"
  by (simp add: yields_or_def IntN_def random_ok_def)

lemma yields_Int64N: "random_ok rd \<Longrightarrow> 0 < n \<Longrightarrow> yields (Int64N rd n) (\<lambda>i. 0 \<le> i \<and> i < n)"
  by (simp add: yields_or_def Int64N_def random_ok_def)

lemma yields_Float64: "random_ok rd \<Longrightarrow> yields (Float64 rd) (\<lambda>u. \<exists>q. u = Fin q \<and> 0 \<le> q \<and> q < 1)"
  by (simp add: yields_or_def Float64_def random_ok_def)

lemma yields_pick:
  assumes "random_ok rd" and "xs \<noteq> []"
  shows "yields (pick rd xs) (\<lambda>x. x \<in> set xs)"
  unfolding pick_def
  by (rule yields_bind [OF yields_IntN [OF assms(1)]]) (use assms(2) in \<open>auto intro!: yields_ret nth_mem\<close>)

lemma yields_durationIn:
  assumes "random_ok rd" and "range_ok dr"
  shows "yields (durationIn rd (dr_Min dr) (dr_Max dr)) (\<lambda>d. dr_Min dr \<le> d \<and> d \<le> dr_Max dr)"
proof (cases "dr_Max dr \<le> dr_Min dr")
  case True
  with assms(2) show ?thesis by (auto simp: durationIn_def range_ok_def intro: yields_ret)
next
  case False
  have r: "0 < dr_Min dr" "dr_Max dr < 2 ^ 63" using assms(2) by (auto simp: range_ok_def in_int64_def)
  have w: "wrap64 (dr_Max dr - dr_Min dr) = dr_Max dr - dr_Min dr"
    "wrap64 (dr_Max dr - dr_Min dr + 1) = dr_Max dr - dr_Min dr + 1"
    using r False by (auto intro!: wrap64_id simp: in_int64_def)
  have "yields (gbind (Int64N rd (dr_Max dr - dr_Min dr + 1)) (\<lambda>d. gret (wrap64 (dr_Min dr + d))))
      (\<lambda>d. dr_Min dr \<le> d \<and> d \<le> dr_Max dr)"
  proof (rule yields_bind [OF yields_Int64N [OF assms(1)]])
    fix d assume "0 \<le> d \<and> d < dr_Max dr - dr_Min dr + 1"
    moreover from this have "wrap64 (dr_Min dr + d) = dr_Min dr + d" using r by (intro wrap64_id) (auto simp: in_int64_def)
    ultimately show "yields (gret (wrap64 (dr_Min dr + d))) (\<lambda>d. dr_Min dr \<le> d \<and> d \<le> dr_Max dr)" by (auto intro: yields_ret)
  qed (use False in simp)
  then show ?thesis using False by (simp add: durationIn_def Let_def w)
qed

section \<open>Targets and parameters\<close>

definition targets_for :: "string list \<Rightarrow> string \<Rightarrow> string list \<Rightarrow> bool" where
  "targets_for pool pattern ts \<longleftrightarrow> set ts \<subseteq> set pool \<and>
    (if pattern = ''single'' then length ts = 1
     else if pattern = ''two_random'' then \<exists>i j. i \<noteq> j \<and> i < length pool \<and> j < length pool \<and> ts = [pool ! i, pool ! j]
     else ts = pool)"

lemma yields_pickTargets:
  assumes "random_ok rd" and "targets_ok tg" and "pattern \<in> set (ts_Patterns tg)"
  shows "yields (pickTargets rd (ts_Pool tg) pattern) (targets_for (ts_Pool tg) pattern)"
proof -
  let ?pool = "ts_Pool tg"
  from assms(2,3) consider (one) "pattern = ''single''" "?pool \<noteq> []"
    | (two) "pattern = ''two_random''" "2 \<le> length ?pool" | (all) "pattern = ''all''"
    by (auto simp: targets_ok_def host_patterns_def)
  then show ?thesis
  proof cases
    case one
    then show ?thesis
      unfolding pickTargets_def
      by (auto intro!: yields_bind [OF yields_pick [OF assms(1)]] yields_ret simp: targets_for_def)
  next
    case two
    have draw: "yields (IntN rd (int (length ?pool))) (\<lambda>i. 0 \<le> i \<and> i < int (length ?pool))"
      "yields (IntN rd (int (length ?pool) - 1)) (\<lambda>j. 0 \<le> j \<and> j < int (length ?pool) - 1)"
      using two by (auto intro!: yields_IntN [OF assms(1)])
    have res: "targets_for ?pool ''two_random'' [?pool ! nat i, ?pool ! nat (if j \<ge> i then j + 1 else j)]"
      if "0 \<le> i \<and> i < int (length ?pool)" "0 \<le> j \<and> j < int (length ?pool) - 1" for i j
    proof -
      define k where "k = (if j \<ge> i then j + 1 else j)"
      have k: "nat k < length ?pool" "nat i < length ?pool" "nat i \<noteq> nat k" using that by (auto simp: k_def)
      then have "set [?pool ! nat i, ?pool ! nat k] \<subseteq> set ?pool" by simp
      with k show ?thesis
        unfolding targets_for_def k_def [symmetric]
        by (simp, intro exI [of _ "nat i"] exI [of _ "nat k"]) simp
    qed
    show ?thesis
      using two res unfolding pickTargets_def Let_def
      by (simp del: if_cancel) (rule yields_bind [OF draw(1)], rule yields_bind [OF draw(2)], rule yields_ret, blast)
  next
    case all
    then show ?thesis unfolding pickTargets_def by (auto intro!: yields_ret simp: targets_for_def)
  qed
qed

lemma yields_put_choice: "random_ok rd \<Longrightarrow> yields (put_choice rd k f xs p) (\<lambda>_. True)"
  unfolding put_choice_def by (auto intro!: yields_ret yields_bind [OF yields_pick])

lemma yields_pickFailureParams:
  assumes "random_ok rd" and "case oft of None \<Rightarrow> True | Some ft \<Rightarrow> failure_type_ok ft"
  shows "yields (pickFailureParams rd oft) (\<lambda>_. True)"
proof (cases oft)
  case None
  then show ?thesis by (auto simp: pickFailureParams_def intro: yields_ret)
next
  case (Some ft)
  have delay: "yields (case ft_DelayRange ft of None \<Rightarrow> gret p
      | Some dr \<Rightarrow> gbind (durationIn rd (dr_Min dr) (dr_Max dr)) (\<lambda>d. gret (AList.update ''delay'' (VDuration d) p))) (\<lambda>_. True)" for p
    using assms(2) Some
    by (cases "ft_DelayRange ft") (auto simp: failure_type_ok_def intro!: yields_ret yields_bind [OF yields_durationIn [OF assms(1)]])
  note step = yields_bind [OF yields_put_choice [OF assms(1)]] yields_put_choice [OF assms(1)] yields_bind [OF delay]
  have keyword: "yields (if b then put_choice rd k f xs p else gret p) (\<lambda>_. True)" for b k f p and xs :: "string list"
    by (auto intro!: yields_ret yields_put_choice [OF assms(1)])
  show ?thesis
    unfolding pickFailureParams_def Some option.case Let_def by (intro step yields_bind [OF keyword])
qed

section \<open>Escalations\<close>

text \<open>The offsets of stages: from the given one on, apart by the inter-stage range, before the end.\<close>

fun offsets_ok :: "DurationRange \<Rightarrow> duration \<Rightarrow> duration list \<Rightarrow> bool" where
  "offsets_ok dr stop [] = True"
| "offsets_ok dr stop [o1] = (0 \<le> o1 \<and> o1 < stop)"
| "offsets_ok dr stop (o1 # o2 # os) =
    (0 \<le> o1 \<and> dr_Min dr \<le> o2 - o1 \<and> o2 - o1 \<le> dr_Max dr \<and> offsets_ok dr stop (o2 # os))"

lemma yields_stage_offsets:
  assumes "random_ok rd" and "range_ok dr" and "in_int64 stop"
  shows "0 \<le> offset \<Longrightarrow> offset < stop \<Longrightarrow> 0 < n \<Longrightarrow> stop + dr_Max dr < 2 ^ 63 \<Longrightarrow>
    yields (stage_offsets rd dr stop n offset) (\<lambda>os. os \<noteq> [] \<and> hd os = offset \<and> length os \<le> n \<and> offsets_ok dr stop os)"
proof (induction n arbitrary: offset)
  case 0
  then show ?case by simp
next
  case (Suc n)
  show ?case
  proof (cases "n = 0")
    case True
    then show ?thesis using Suc.prems by (auto intro: yields_ret)
  next
    case False
    have "yields (gbind (durationIn rd (dr_Min dr) (dr_Max dr)) (\<lambda>d. let next = wrap64 (offset + d) in
         if next \<ge> stop then gret [offset]
         else gbind (stage_offsets rd dr stop n next) (\<lambda>rest. gret (offset # rest))))
       (\<lambda>os. os \<noteq> [] \<and> hd os = offset \<and> length os \<le> Suc n \<and> offsets_ok dr stop os)"
    proof (rule yields_bind [OF yields_durationIn [OF assms(1,2)]])
      fix d assume d: "dr_Min dr \<le> d \<and> d \<le> dr_Max dr"
      have pos: "0 < dr_Min dr" using assms(2) by (simp add: range_ok_def)
      have w: "wrap64 (offset + d) = offset + d"
        using d pos Suc.prems assms(3) by (intro wrap64_id) (auto simp: in_int64_def)
      show "yields (let next = wrap64 (offset + d) in if next \<ge> stop then gret [offset]
           else gbind (stage_offsets rd dr stop n next) (\<lambda>rest. gret (offset # rest)))
         (\<lambda>os. os \<noteq> [] \<and> hd os = offset \<and> length os \<le> Suc n \<and> offsets_ok dr stop os)"
      proof (cases "offset + d \<ge> stop")
        case True
        then show ?thesis using Suc.prems by (auto simp: w intro: yields_ret)
      next
        case le: False
        have "yields (stage_offsets rd dr stop n (offset + d))
            (\<lambda>os. os \<noteq> [] \<and> hd os = offset + d \<and> length os \<le> n \<and> offsets_ok dr stop os)"
          using Suc.IH [of "offset + d"] Suc.prems False le d pos by simp
        then show ?thesis
          unfolding Let_def w using le
          by (simp, elim yields_bind) (rule yields_ret, use d Suc.prems pos in \<open>auto simp: neq_Nil_conv\<close>)
      qed
    qed
    then show ?thesis using False by simp
  qed
qed

lemma offsets_ok_nth:
  "range_ok dr \<Longrightarrow> offsets_ok dr stop os \<Longrightarrow> i < length os \<Longrightarrow> 0 \<le> os ! i \<and> os ! i < stop \<and>
    (Suc i < length os \<longrightarrow> os ! i < os ! Suc i)"
proof (induction dr stop os arbitrary: i rule: offsets_ok.induct)
  case (3 dr stop o1 o2 os)
  have "0 \<le> o2 \<and> o2 < stop" using 3(1) [of 0] 3(2,3) by simp
  with 3(1) [of "i - 1"] 3(2-4) show ?case by (cases i) (auto simp: range_ok_def)
qed auto

definition stage_rule :: "string \<Rightarrow> duration list \<Rightarrow> duration \<Rightarrow> nat \<Rightarrow> EscalationStage \<Rightarrow> bool" where
  "stage_rule pattern os stop i st \<longleftrightarrow>
    st_Offset st = os ! i \<and> 0 < st_Duration st \<and> st_Offset st + st_Duration st \<le> stop \<and>
    (if pattern = ''replacement'' then st_Offset st + st_Duration st = (if Suc i < length os then os ! Suc i else stop)
     else if pattern = ''recovery'' then st_Offset st + st_Duration st \<le> (if Suc i < length os then os ! Suc i else stop)
     else st_Offset st + st_Duration st = stop)"

lemma halfPositive_bounds: "0 < d \<Longrightarrow> 0 < halfPositive d \<and> halfPositive d \<le> d"
  by (auto simp: halfPositive_def quot_trunc_def)

lemma stage_durations:
  assumes "range_ok dr" and "offsets_ok dr stop os" and "i < length os" and "in_int64 stop"
    and "st_Offset st = os ! i" and "st_Duration st = escalationStageDuration pattern os i stop"
  shows "stage_rule pattern os stop i st"
proof -
  have o: "0 \<le> os ! i" "os ! i < stop" using offsets_ok_nth [OF assms(1,2,3)] by auto
  have next_o: "os ! i < os ! Suc i" "os ! Suc i < stop" if "Suc i < length os"
    using offsets_ok_nth [OF assms(1,2,3)] offsets_ok_nth [OF assms(1,2) that] that by auto
  have w: "wrap64 (stop - os ! i) = stop - os ! i" using o assms(4) by (intro wrap64_id) (auto simp: in_int64_def)
  have w': "wrap64 (os ! Suc i - os ! i) = os ! Suc i - os ! i" if "Suc i < length os"
    using o next_o [OF that] assms(4) by (intro wrap64_id) (auto simp: in_int64_def)
  have rest: "0 < stop - os ! i" using o by simp
  show ?thesis
    using o next_o w w' halfPositive_bounds [OF rest] halfPositive_bounds [of "os ! Suc i - os ! i"]
    unfolding stage_rule_def assms(5,6) escalationStageDuration_def
    by (cases "Suc i < length os") (auto simp: Let_def)
qed

definition stages_from :: "Campaign \<Rightarrow> string \<Rightarrow> string \<Rightarrow> duration list \<Rightarrow> duration \<Rightarrow> nat list \<Rightarrow> EscalationStage list \<Rightarrow> bool" where
  "stages_from c base pattern os stop is sts \<longleftrightarrow>
    list_all2 (\<lambda>i st. stage_rule pattern os stop i st \<and> (if i = 0 then st_FailureType st = base
       else st_FailureType st \<in> ft_Type ` set (ca_FailureTypes c))) is sts"

lemma by_name_ok:
  "campaign_ok c \<Longrightarrow> case failureTypeByName c name of None \<Rightarrow> True | Some ft \<Rightarrow> failure_type_ok ft"
  by (auto simp: failureTypeByName_def find_Some_iff campaign_ok_def list_all_iff split: option.splits)

lemma yields_stages:
  assumes "random_ok rd" and "campaign_ok c" and "range_ok dr" and "offsets_ok dr stop os" and "in_int64 stop"
  shows "\<forall>i \<in> set is. i < length os \<Longrightarrow>
    yields (stages_loop rd c base pattern stop os is) (stages_from c base pattern os stop is)"
proof (induction "is")
  case Nil
  show ?case by (auto intro!: yields_ret simp: stages_from_def)
next
  case (Cons i "is")
  let ?Q = "\<lambda>name. if i = 0 then name = base else name \<in> ft_Type ` set (ca_FailureTypes c)"
  have name: "yields (if i > 0 then gbind (pick rd (ca_FailureTypes c)) (\<lambda>ft. gret (ft_Type ft)) else gret base) ?Q"
    using assms(2) by (auto simp: campaign_ok_def intro!: yields_ret yields_bind [OF yields_pick [OF assms(1)]])
  have ps: "yields (pickFailureParams rd (failureTypeByName c n)) (\<lambda>_. True)" for n
    by (rule yields_pickFailureParams [OF assms(1) by_name_ok [OF assms(2)]])
  have rest: "yields (stages_loop rd c base pattern stop os is) (stages_from c base pattern os stop is)"
    using Cons by simp
  show ?case
    unfolding stages_loop.simps
    by (rule yields_bind [OF name], rule yields_bind [OF ps], rule yields_bind [OF rest], rule yields_ret)
      (use Cons.prems in \<open>auto simp: stages_from_def intro: stage_durations [OF assms(3,4) _ assms(5)]\<close>)
qed

definition escalation_design_ok :: "Campaign \<Rightarrow> Escalation \<Rightarrow> string \<Rightarrow> duration \<Rightarrow> EscalationDesign \<Rightarrow> bool" where
  "escalation_design_ok c e base stop ed \<longleftrightarrow>
    ed_Pattern ed \<in> set (es_Patterns e) \<and> ed_Stages ed \<noteq> [] \<and> int (length (ed_Stages ed)) \<le> es_StagesMax e \<and>
    st_Offset (hd (ed_Stages ed)) = 0 \<and> st_FailureType (hd (ed_Stages ed)) = base \<and>
    offsets_ok (es_InterStageRange e) stop (map st_Offset (ed_Stages ed)) \<and>
    stages_from c base (ed_Pattern ed) (map st_Offset (ed_Stages ed)) stop [0..<length (ed_Stages ed)] (ed_Stages ed)"

lemma stages_from_offsets:
  assumes "stages_from c base pattern os stop [0..<length os] sts"
  shows "map st_Offset sts = os"
proof -
  have len: "length sts = length os" using assms by (auto simp: stages_from_def dest: list_all2_lengthD)
  moreover have "st_Offset (sts ! i) = os ! i" if "i < length os" for i
    using assms that by (auto simp: stages_from_def list_all2_conv_all_nth stage_rule_def)
  ultimately show ?thesis by (auto intro: nth_equalityI)
qed

lemma yields_pickEscalation:
  assumes "random_ok rd" and "campaign_ok c" and "escalation_ok e" and "in_int64 (es_StagesMax e)"
    and "0 < stop" and "in_int64 stop" and "stop + dr_Max (es_InterStageRange e) < 2 ^ 63"
    and "b \<Longrightarrow> 8 * es_StagesMax e \<le> 2 ^ 48"
  shows "yields_or b (pickEscalation rd c e base stop) (escalation_design_ok c e base stop)"
proof -
  have e: "2 \<le> es_StagesMin e" "es_StagesMin e \<le> es_StagesMax e" "range_ok (es_InterStageRange e)" "es_Patterns e \<noteq> []"
    using assms(3) by (auto simp: escalation_ok_def)
  have stages: "yields (if es_StagesMax e > es_StagesMin e
      then gbind (IntN rd (wrap64 (es_StagesMax e - es_StagesMin e + 1))) (\<lambda>n. gret (wrap64 (es_StagesMin e + n)))
      else gret (es_StagesMin e)) (\<lambda>n. 2 \<le> n \<and> n \<le> es_StagesMax e)"
  proof (rule yields_if)
    assume more: "es_StagesMax e > es_StagesMin e"
    have w: "wrap64 (es_StagesMax e - es_StagesMin e + 1) = es_StagesMax e - es_StagesMin e + 1"
      using e assms(4) by (intro wrap64_id) (auto simp: in_int64_def)
    show "yields (gbind (IntN rd (wrap64 (es_StagesMax e - es_StagesMin e + 1))) (\<lambda>n. gret (wrap64 (es_StagesMin e + n))))
        (\<lambda>n. 2 \<le> n \<and> n \<le> es_StagesMax e)"
      unfolding w
    proof (rule yields_bind [OF yields_IntN [OF assms(1)]])
      fix n assume "0 \<le> n \<and> n < es_StagesMax e - es_StagesMin e + 1"
      moreover from this have "wrap64 (es_StagesMin e + n) = es_StagesMin e + n"
        using e assms(4) by (intro wrap64_id) (auto simp: in_int64_def)
      ultimately show "yields (gret (wrap64 (es_StagesMin e + n))) (\<lambda>n. 2 \<le> n \<and> n \<le> es_StagesMax e)"
        using e by (auto intro: yields_ret)
    qed (use more in simp)
  qed (use e in \<open>auto intro: yields_ret\<close>)
  have pattern: "yields (if es_Patterns e = [] then gret ''layered'' else pick rd (es_Patterns e)) (\<lambda>p. p \<in> set (es_Patterns e))"
    using e(4) yields_pick [OF assms(1)] by simp
  have offsets: "yields (stage_offsets rd (es_InterStageRange e) stop (nat n) 0)
      (\<lambda>os. os \<noteq> [] \<and> hd os = 0 \<and> length os \<le> nat n \<and> offsets_ok (es_InterStageRange e) stop os)" if "2 \<le> n" for n
    using that assms by (intro yields_stage_offsets [OF assms(1) e(3)]) auto
  have result: "escalation_design_ok c e base stop \<lparr>ed_Pattern = p, ed_Stages = sts\<rparr>"
    if "stages_from c base p os stop [0..<length os] sts" "os \<noteq> []" "hd os = 0" "length os \<le> nat n"
      "offsets_ok (es_InterStageRange e) stop os" "n \<le> es_StagesMax e" "2 \<le> n" "p \<in> set (es_Patterns e)" for p os sts n
  proof -
    note m = stages_from_offsets [OF that(1)]
    have len: "length sts = length os" using m by (metis length_map)
    with that(2) have ne: "sts \<noteq> []" by auto
    have "st_Offset (hd sts) = 0" using m that(3) ne by (metis hd_map)
    moreover have "st_FailureType (hd sts) = base"
      using that(1,2) ne len by (auto simp: stages_from_def list_all2_conv_all_nth hd_conv_nth)
    ultimately show ?thesis
      using that ne len m by (simp add: escalation_design_ok_def)
  qed
  show ?thesis
    unfolding pickEscalation_def
  proof (rule yields_bind [OF stages], rule yields_bind [OF pattern])
    fix n p assume n: "2 \<le> n \<and> n \<le> es_StagesMax e" and p: "p \<in> set (es_Patterns e)"
    have alloc: "yields_or b (makeslice_gen 8 n) (\<lambda>_. True)"
      using n assms(8) by (intro yields_makeslice) auto
    show "yields_or b (gbind (makeslice_gen 8 n) (\<lambda>_. gbind (stage_offsets rd (es_InterStageRange e) stop (nat n) 0) (\<lambda>offsets.
        gbind (stages_loop rd c base p stop offsets [0..<length offsets]) (\<lambda>stages.
          gret \<lparr>ed_Pattern = p, ed_Stages = stages\<rparr>)))) (escalation_design_ok c e base stop)"
      using n p
      by (intro yields_or_bind [OF alloc], intro yields_bind [OF offsets], simp,
          intro yields_bind [OF yields_stages [OF assms(1,2) e(3) _ assms(6)]])
        (auto intro!: yields_ret intro: result)
  qed
qed

section \<open>Designs\<close>

definition design_ok :: "Campaign \<Rightarrow> nat \<Rightarrow> Cell \<Rightarrow> Design \<Rightarrow> bool" where
  "design_ok c idx cell d \<longleftrightarrow>
    de_ID d = design_id idx \<and> de_Cell d = cell \<and> de_FailureType d = cl_FailureType cell \<and>
    de_Replays d = samples_for (ca_Sampling c) (cl_FailureType cell) \<and> 0 < de_Replays d \<and>
    dr_Min (bucket_of c (cl_DurationBucket cell)) \<le> de_Duration d \<and>
    de_Duration d \<le> dr_Max (bucket_of c (cl_DurationBucket cell)) \<and>
    targets_for (ts_Pool (ca_Targets c)) (cl_HostPattern cell) (de_Targets d) \<and>
    (case de_Escalation d of None \<Rightarrow> True
     | Some ed \<Rightarrow> (case ca_Escalation c of None \<Rightarrow> False
         | Some e \<Rightarrow> escalation_design_ok c e (cl_FailureType cell) (de_Duration d) ed))"

text \<open>No duration of a stage and no number of stages leaves the 64-bit range.\<close>

definition no_overflow :: "Campaign \<Rightarrow> bool" where
  "no_overflow c \<longleftrightarrow> (case ca_Escalation c of None \<Rightarrow> True
     | Some e \<Rightarrow> in_int64 (es_StagesMax e) \<and>
         list_all (\<lambda>(n, dr). dr_Max dr + dr_Max (es_InterStageRange e) < 2 ^ 63) (ca_DurationBuckets c))"

text \<open>
  The slices of the generator can be allocated: the stages of an escalation, 8 bytes each, and the
  replays of the whole campaign, 32 bytes each. Validation demands neither.
\<close>

definition samples_total :: "Campaign \<Rightarrow> int" where
  "samples_total c = (\<Sum>cell\<leftarrow>enumerateCells c. samples_for (ca_Sampling c) (cl_FailureType cell))"

definition sizes_fit :: "Campaign \<Rightarrow> bool" where
  "sizes_fit c \<longleftrightarrow> (case ca_Escalation c of None \<Rightarrow> True | Some e \<Rightarrow> 8 * es_StagesMax e \<le> 2 ^ 48) \<and>
    32 * samples_total c \<le> 2 ^ 48"

lemma samples_positive:
  assumes "campaign_ok c"
  shows "0 < samples_for (ca_Sampling c) ty"
  using assms
  by (auto simp: samples_for_def campaign_ok_def sampling_ok_def find_Some_iff split: option.splits)

lemma cells_of_campaign:
  assumes "cell \<in> set (enumerateCells c)"
  shows "cl_DurationBucket cell \<in> fst ` set (ca_DurationBuckets c)"
    and "cl_HostPattern cell \<in> set (ts_Patterns (ca_Targets c))"
    and "cl_FailureType cell \<in> ft_Type ` set (ca_FailureTypes c)"
  using assms by (auto simp: enumerateCells_def Let_def intro: rev_image_eqI)

lemma bucket_of_declared:
  assumes "name \<in> fst ` set (ca_DurationBuckets c)"
  shows "\<exists>n. (n, bucket_of c name) \<in> set (ca_DurationBuckets c)"
proof -
  obtain dr where "map_of (ca_DurationBuckets c) name = Some dr"
    using assms by (metis map_of_eq_None_iff not_None_eq)
  then show ?thesis by (auto simp: bucket_of_def dest: map_of_SomeD)
qed

lemma generateDesign_ok:
  assumes "random_ok rd" and "campaign_ok c" and "no_overflow c" and "cell \<in> set (enumerateCells c)"
    and "samples = samples_for (ca_Sampling c) (cl_FailureType cell)"
  shows "(\<exists>d. generateDesign rd sha c cell samples (failureTypeByName c (cl_FailureType cell)) seed idx = Inr d \<and>
      design_ok c idx cell d) \<or>
    \<not> sizes_fit c \<and> generateDesign rd sha c cell samples (failureTypeByName c (cl_FailureType cell)) seed idx = Inl makeslice_panic"
proof -
  let ?b = "bucket_of c (cl_DurationBucket cell)"
  obtain n where b: "(n, ?b) \<in> set (ca_DurationBuckets c)"
    using bucket_of_declared [OF cells_of_campaign(1) [OF assms(4)]] by blast
  then have rng: "range_ok ?b" using assms(2) by (auto simp: campaign_ok_def list_all_iff)
  have tg: "targets_ok (ca_Targets c)" using assms(2) by (simp add: campaign_ok_def)
  let ?base = "\<lambda>d. de_ID d = design_id idx \<and> de_Cell d = cell \<and> de_FailureType d = cl_FailureType cell \<and>
    de_Replays d = samples \<and> de_Escalation d = None \<and> dr_Min ?b \<le> de_Duration d \<and> de_Duration d \<le> dr_Max ?b \<and>
    targets_for (ts_Pool (ca_Targets c)) (cl_HostPattern cell) (de_Targets d)"
  have plain: "design_ok c idx cell d" if "?base d" for d
    using that samples_positive [OF assms(2)] assms(5) by (simp add: design_ok_def)
  have esc: "yields_or (sizes_fit c) (pickEscalation rd c e (cl_FailureType cell) dur) (escalation_design_ok c e (cl_FailureType cell) dur)"
    if "ca_Escalation c = Some e" "dr_Min ?b \<le> dur \<and> dur \<le> dr_Max ?b" for e dur
  proof -
    have "in_int64 (es_StagesMax e)" "dr_Max ?b + dr_Max (es_InterStageRange e) < 2 ^ 63"
      using assms(3) that(1) b by (auto simp: no_overflow_def list_all_iff)
    then show ?thesis
      using assms(2) that rng
      by (intro yields_pickEscalation [OF assms(1,2)]) (auto simp: campaign_ok_def range_ok_def in_int64_def sizes_fit_def)
  qed
  have chosen: "yields_or (sizes_fit c) (add_escalation rd c d) (design_ok c idx cell)" if d: "?base d" for d
  proof (cases "ca_Escalation c")
    case None
    then show ?thesis using plain [OF d] by (auto simp: add_escalation_def intro: yields_ret)
  next
    case (Some e)
    have "design_ok c idx cell (d\<lparr>de_Escalation := Some ed\<rparr>)"
      if "escalation_design_ok c e (cl_FailureType cell) (de_Duration d) ed" for ed
      using plain [OF d] d that Some by (simp add: design_ok_def)
    moreover have "yields_or (sizes_fit c) (pickEscalation rd c e (de_FailureType d) (de_Duration d))
        (escalation_design_ok c e (cl_FailureType cell) (de_Duration d))"
      using esc [OF Some] d by simp
    ultimately show ?thesis
      unfolding add_escalation_def Some option.case
      by (intro yields_bind [OF yields_Float64 [OF assms(1)]] yields_if) (auto intro: yields_ret yields_or_bind plain [OF d])
  qed
  show ?thesis
    unfolding generateDesign_def Let_def
    by (rule gen_runs_or,
        rule yields_bind [OF yields_durationIn [OF assms(1) rng]],
        rule yields_bind [OF yields_pickTargets [OF assms(1) tg cells_of_campaign(2) [OF assms(4)]]],
        rule yields_bind [OF yields_pickFailureParams [OF assms(1) by_name_ok [OF assms(2)]]],
        rule chosen) auto
qed

text \<open>One design per cell, in the order of the cells.\<close>

lemma designs_loop_ok:
  assumes "random_ok rd" and "campaign_ok c" and "no_overflow c"
  shows "set cells \<subseteq> set (enumerateCells c) \<Longrightarrow>
    (\<exists>ds. designs_loop rd sha c seed i cells = Inr ds \<and> length ds = length cells \<and>
      (\<forall>k < length cells. design_ok c (i + k) (cells ! k) (ds ! k))) \<or>
    \<not> sizes_fit c \<and> designs_loop rd sha c seed i cells = Inl makeslice_panic"
proof (induction cells arbitrary: i)
  case Nil
  then show ?case by simp
next
  case (Cons cell cells)
  let ?samples = "samples_for (ca_Sampling c) (cl_FailureType cell)"
  let ?one = "generateDesign rd sha c cell ?samples (failureTypeByName c (cl_FailureType cell)) (deriveSeed sha seed ''design'' i) i"
  have step: "designs_loop rd sha c seed i (cell # cells) =
      rbind ?one (\<lambda>d. rbind (designs_loop rd sha c seed (Suc i) cells) (\<lambda>ds. Inr (d # ds)))"
    using samples_positive [OF assms(2)] by (simp add: not_le [symmetric] Let_def)
  have "(\<exists>d. ?one = Inr d \<and> design_ok c i cell d) \<or> \<not> sizes_fit c \<and> ?one = Inl makeslice_panic"
    using Cons.prems by (intro generateDesign_ok [OF assms _ refl]) simp
  then show ?case
  proof (elim disjE exE conjE)
    fix d assume d: "?one = Inr d" "design_ok c i cell d"
    have "(\<exists>ds. designs_loop rd sha c seed (Suc i) cells = Inr ds \<and> length ds = length cells \<and>
        (\<forall>k < length cells. design_ok c (Suc i + k) (cells ! k) (ds ! k))) \<or>
      \<not> sizes_fit c \<and> designs_loop rd sha c seed (Suc i) cells = Inl makeslice_panic"
      using Cons.prems by (intro Cons.IH) simp
    then show ?thesis
    proof (elim disjE exE conjE)
      fix ds assume ds: "designs_loop rd sha c seed (Suc i) cells = Inr ds" "length ds = length cells"
        "\<forall>k < length cells. design_ok c (Suc i + k) (cells ! k) (ds ! k)"
      have "design_ok c (i + k) ((cell # cells) ! k) ((d # ds) ! k)" if "k < Suc (length cells)" for k
        using that d(2) ds(3) [rule_format, of "k - 1"] by (cases k) auto
      then show ?thesis using ds(1,2) d(1) unfolding step by auto
    next
      assume "\<not> sizes_fit c" "designs_loop rd sha c seed (Suc i) cells = Inl makeslice_panic"
      then show ?thesis using d(1) unfolding step by simp
    qed
  next
    assume "\<not> sizes_fit c" "?one = Inl makeslice_panic"
    then show ?thesis unfolding step by simp
  qed
qed

lemma cells_not_empty: "campaign_ok c \<Longrightarrow> enumerateCells c \<noteq> []"
  by (simp add: campaign_ok_def targets_ok_def enumerateCells_def Let_def)

text \<open>The sum of the replays does not wrap when it fits, and then is the number of pairs.\<close>

definition replays_total :: "Design list \<Rightarrow> int" where
  "replays_total ds = (\<Sum>d\<leftarrow>ds. de_Replays d)"

lemma replays_total_nonneg: "\<forall>d \<in> set ds. 0 < de_Replays d \<Longrightarrow> int (length ds) \<le> replays_total ds"
  by (induction ds) (auto simp: replays_total_def)

lemma total_replays_exact:
  assumes "\<forall>d \<in> set ds. 0 < de_Replays d" and "replays_total ds < 2 ^ 63"
  shows "total_replays ds = replays_total ds"
proof -
  have "foldl (\<lambda>n d. wrap64 (n + de_Replays d)) n ds = n + replays_total ds"
    if "0 \<le> n" "n + replays_total ds < 2 ^ 63" for n
    using assms(1) that
  proof (induction ds arbitrary: n)
    case (Cons d ds)
    have "0 \<le> replays_total ds" using replays_total_nonneg [of ds] Cons.prems(1) by force
    with Cons.prems have "wrap64 (n + de_Replays d) = n + de_Replays d"
      by (intro wrap64_id) (auto simp: in_int64_def replays_total_def)
    moreover have "foldl (\<lambda>n d. wrap64 (n + de_Replays d)) (n + de_Replays d) ds = (n + de_Replays d) + replays_total ds"
      using Cons.prems by (intro Cons.IH) (auto simp: replays_total_def)
    ultimately show ?case by (simp add: replays_total_def)
  qed (simp add: replays_total_def)
  from this [of 0] assms(2) show ?thesis by (simp add: total_replays_def)
qed

lemma length_replay_pairs: "int (length (replay_pairs ds)) = (\<Sum>d\<leftarrow>ds. max 0 (de_Replays d))"
proof -
  have "length (replay_pairs ds) = sum_list (map (\<lambda>d. nat (de_Replays d)) (map snd (zip [0..<length ds] ds)))"
    unfolding replay_pairs_def length_concat map_map comp_def by (simp add: case_prod_beta)
  also have "\<dots> = (\<Sum>d\<leftarrow>ds. nat (de_Replays d))" by simp
  also have "int \<dots> = (\<Sum>d\<leftarrow>ds. max 0 (de_Replays d))" by (induction ds) (simp_all add: max_def)
  finally show ?thesis .
qed

lemma pairs_of_positive:
  assumes "\<forall>d \<in> set ds. 0 < de_Replays d"
  shows "int (length (replay_pairs ds)) = replays_total ds"
  using assms unfolding length_replay_pairs replays_total_def by (intro arg_cong [of _ _ sum_list] map_cong) auto

definition design_errors :: "string list" where
  "design_errors = [''campaign: schedule infeasible'', ''campaign: internal error: generated schedule violates per-target cooldown'']"

text \<open>What becomes of counts that are too large.\<close>

definition oversize_errors :: "string list" where
  "oversize_errors = [makeslice_panic, ''campaign: Generate: every cell resolved to zero samples'']"

definition designs_ok :: "Campaign \<Rightarrow> Design list \<Rightarrow> bool" where
  "designs_ok c ds \<longleftrightarrow> list_all2 (\<lambda>(i, cell) d. design_ok c i cell d) (enumerate 0 (enumerateCells c)) ds"

lemma designs_ok_nth:
  "designs_ok c ds \<longleftrightarrow> length ds = length (enumerateCells c) \<and> (\<forall>k < length ds. design_ok c k (enumerateCells c ! k) (ds ! k))"
  by (auto simp: designs_ok_def list_all2_conv_all_nth nth_enumerate_eq)

lemma designs_replays:
  assumes "designs_ok c ds"
  shows "\<forall>d \<in> set ds. 0 < de_Replays d" and "replays_total ds = samples_total c"
proof -
  show "\<forall>d \<in> set ds. 0 < de_Replays d" using assms by (auto simp: designs_ok_nth in_set_conv_nth design_ok_def)
  show "replays_total ds = samples_total c"
    unfolding replays_total_def samples_total_def
    using assms by (intro arg_cong [of _ _ sum_list] nth_equalityI) (auto simp: designs_ok_nth design_ok_def)
qed

lemma Generate_designs:
  assumes "random_ok rd" and "campaign_ok c" and "no_overflow c"
  obtains (made) ds where "designs_ok c ds" and "ds \<noteq> []" and "total_replays ds \<noteq> 0" and "Generate rd sha c seed =
      rbind (generateSchedule rd sha ds (ca_Duration c) (ca_Cooldown c) seed) (\<lambda>schedule.
        Inr \<lparr>pl_Designs = ds, pl_Schedule = schedule\<rparr>)"
    | (oversize) e where "\<not> sizes_fit c" and "e \<in> set oversize_errors" and "Generate rd sha c seed = Inl e"
proof -
  note cells = cells_not_empty [OF assms(2)]
  from designs_loop_ok [OF assms subset_refl, of sha seed 0] show thesis
  proof (elim disjE exE conjE)
    fix ds assume ds: "designs_loop rd sha c seed 0 (enumerateCells c) = Inr ds" "length ds = length (enumerateCells c)"
      "\<forall>k < length (enumerateCells c). design_ok c (0 + k) (enumerateCells c ! k) (ds ! k)"
    have ok: "designs_ok c ds" using ds(2,3) by (simp add: designs_ok_nth)
    have ne: "ds \<noteq> []" using ds(2) cells by auto
    show thesis
    proof (cases "total_replays ds = 0")
      case True
      have "\<not> sizes_fit c"
      proof
        assume "sizes_fit c"
        then have "replays_total ds < 2 ^ 63" using designs_replays(2) [OF ok] by (simp add: sizes_fit_def)
        with True total_replays_exact [OF designs_replays(1) [OF ok]] have "replays_total ds = 0" by simp
        with replays_total_nonneg [OF designs_replays(1) [OF ok]] ne show False by simp
      qed
      moreover have "Generate rd sha c seed = Inl ''campaign: Generate: every cell resolved to zero samples''"
        using cells ds(1) True by (simp add: Generate_def)
      ultimately show thesis by (intro oversize) (simp_all add: oversize_errors_def)
    next
      case False
      show thesis by (rule made [OF ok ne False]) (use cells ds(1) False in \<open>simp add: Generate_def\<close>)
    qed
  next
    assume "\<not> sizes_fit c" "designs_loop rd sha c seed 0 (enumerateCells c) = Inl makeslice_panic"
    then show thesis using cells by (intro oversize [of makeslice_panic]) (simp_all add: oversize_errors_def Generate_def)
  qed
qed

end
