(* ===== verification/Campaign_Slots.thy ===== *)
theory Campaign_Slots
  imports Campaign_Designs
begin

text \<open>
  What a schedule of a campaign promises: the slots are the replays of the designs, in the order of
  their offsets, inside the campaign, and two slots that share a target are a cooldown apart. The
  check of the generator decides the last of these.
\<close>

section \<open>Designs by identifier\<close>

lemma design_id_inj: "design_id i = design_id j \<Longrightarrow> i = j"
proof -
  have val: "digits_val (drop 2 (design_id k)) = int k" for k
  proof -
    have "drop 2 (design_id k) = replicate (4 - length (dec_digits (int k))) CHR ''0'' @ dec_digits (int k)"
      unfolding design_id_def Let_def show_int_def by (simp del: dec_digits.simps replicate.simps)
    then show ?thesis using dec_digits_correct [of "int k"] by (simp only: digits_val_zeros)
  qed
  assume "design_id i = design_id j"
  then have "int i = int j" by (simp only: val [symmetric])
  then show "i = j" by (simp only: of_nat_eq_iff)
qed

definition targets_of :: "Design list \<Rightarrow> ReplaySlot \<Rightarrow> string list" where
  "targets_of ds s = (case find (\<lambda>d. de_ID d = rp_DesignID s) ds of None \<Rightarrow> [] | Some d \<Rightarrow> de_Targets d)"

lemma designsByID_find:
  assumes "distinct (map de_ID ds)"
  shows "map_of (designsByID ds) k = find (\<lambda>d. de_ID d = k) ds"
proof -
  have "map_of (foldl (\<lambda>m d. AList.update (de_ID d) d m) m ds) k =
      (case find (\<lambda>d. de_ID d = k) ds of None \<Rightarrow> map_of m k | Some d \<Rightarrow> Some d)" for m
    using assms
  proof (induction ds arbitrary: m)
    case (Cons d ds)
    then have "find (\<lambda>x. de_ID x = de_ID d) ds = None" by (auto simp: find_None_iff intro: rev_image_eqI)
    then show ?case using Cons by (auto split: option.splits)
  qed simp
  from this [of "[]"] show ?thesis by (simp add: designsByID_def split: option.splits)
qed

lemma designs_ok_distinct:
  assumes "designs_ok c ds"
  shows "distinct (map de_ID ds)"
  using assms
  by (auto simp: designs_ok_def list_all2_conv_all_nth nth_enumerate_eq distinct_conv_nth design_ok_def dest: design_id_inj)

section \<open>The check of the cooldown\<close>

definition apart :: "Design list \<Rightarrow> duration \<Rightarrow> ReplaySlot \<Rightarrow> ReplaySlot \<Rightarrow> bool" where
  "apart ds cd a b \<longleftrightarrow> set (targets_of ds a) \<inter> set (targets_of ds b) = {} \<or> cd \<le> rp_Offset b - rp_Offset a"

definition cooldown_respected :: "Design list \<Rightarrow> duration \<Rightarrow> ReplaySlot list \<Rightarrow> bool" where
  "cooldown_respected ds cd slots \<longleftrightarrow> sorted_wrt (apart ds cd) slots"

definition ready :: "duration \<Rightarrow> (string \<times> duration) list \<Rightarrow> string list \<Rightarrow> duration \<Rightarrow> bool" where
  "ready cd last_by ts o1 \<longleftrightarrow> (\<forall>t \<in> set ts. \<forall>l. map_of last_by t = Some l \<longrightarrow> l + cd \<le> o1)"

definition started :: "(string \<times> duration) list \<Rightarrow> bool" where
  "started last_by \<longleftrightarrow> (\<forall>t l. map_of last_by t = Some l \<longrightarrow> 0 \<le> l \<and> in_int64 l)"

lemma wrap64_gap: "0 \<le> a \<Longrightarrow> 0 \<le> b \<Longrightarrow> in_int64 a \<Longrightarrow> in_int64 b \<Longrightarrow> wrap64 (b - a) = b - a"
  by (intro wrap64_id) (auto simp: in_int64_def)

lemma started_gap: "started lb \<Longrightarrow> 0 \<le> o1 \<Longrightarrow> in_int64 o1 \<Longrightarrow> map_of lb t = Some l \<Longrightarrow> wrap64 (o1 - l) = o1 - l"
  by (auto simp: started_def intro: wrap64_gap)

lemma started_update: "started lb \<Longrightarrow> 0 \<le> o1 \<Longrightarrow> in_int64 o1 \<Longrightarrow> started (AList.update t o1 lb)"
  by (auto simp: started_def)

lemma cooldown_targets_sound:
  assumes "0 \<le> cd" and "0 \<le> o1" and "in_int64 o1"
  shows "started lb \<Longrightarrow> cooldown_targets cd o1 lb ts = Some lb' \<Longrightarrow>
    ready cd lb ts o1 \<and> started lb' \<and> map_of lb' = (\<lambda>t. if t \<in> set ts then Some o1 else map_of lb t)"
proof (induction ts arbitrary: lb)
  case Nil
  then show ?case by (simp add: ready_def)
next
  case (Cons t ts)
  have rest: "cooldown_targets cd o1 (AList.update t o1 lb) ts = Some lb'"
    and gap: "\<And>l. map_of lb t = Some l \<Longrightarrow> l + cd \<le> o1"
    using Cons.prems started_gap [OF Cons.prems(1) assms(2,3)] by (auto split: option.splits if_splits)
  have "ready cd (AList.update t o1 lb) ts o1 \<and> started lb' \<and>
      map_of lb' = (\<lambda>u. if u \<in> set ts then Some o1 else map_of (AList.update t o1 lb) u)"
    by (rule Cons.IH [OF started_update [OF Cons.prems(1) assms(2,3)] rest])
  with gap show ?case by (auto simp: ready_def fun_eq_iff split: if_splits)
qed

lemma cooldown_targets_complete:
  assumes "0 \<le> o1" and "in_int64 o1"
  shows "started lb \<Longrightarrow> distinct ts \<Longrightarrow> ready cd lb ts o1 \<Longrightarrow> cooldown_targets cd o1 lb ts \<noteq> None"
proof (induction ts arbitrary: lb)
  case Nil
  then show ?case by simp
next
  case (Cons t ts)
  have "cooldown_targets cd o1 (AList.update t o1 lb) ts \<noteq> None"
    using Cons.prems by (intro Cons.IH started_update assms) (auto simp: ready_def)
  with Cons.prems show ?case
    using started_gap [OF Cons.prems(1) assms] by (auto simp: ready_def split: option.splits)
qed

definition in_range :: "ReplaySlot list \<Rightarrow> bool" where
  "in_range slots \<longleftrightarrow> list_all (\<lambda>s. 0 \<le> rp_Offset s \<and> in_int64 (rp_Offset s)) slots"

lemma cooldown_loop_sound:
  assumes "0 \<le> cd" and "distinct (map de_ID ds)"
  shows "started lb \<Longrightarrow> in_range ss \<Longrightarrow> cooldown_loop (designsByID ds) cd lb ss \<Longrightarrow>
    cooldown_respected ds cd ss \<and> (\<forall>s \<in> set ss. ready cd lb (targets_of ds s) (rp_Offset s))"
proof (induction ss arbitrary: lb)
  case Nil
  then show ?case by (simp add: cooldown_respected_def)
next
  case (Cons s ss)
  have o1: "0 \<le> rp_Offset s" "in_int64 (rp_Offset s)" "in_range ss" using Cons.prems(2) by (auto simp: in_range_def)
  show ?case
  proof (cases "find (\<lambda>d. de_ID d = rp_DesignID s) ds")
    case None
    then have t: "targets_of ds s = []" by (simp add: targets_of_def)
    have "cooldown_loop (designsByID ds) cd lb ss"
      using Cons.prems(3) None by (simp add: designsByID_find [OF assms(2)])
    from Cons.IH [OF Cons.prems(1) o1(3) this] show ?thesis
      by (auto simp: cooldown_respected_def apart_def ready_def t)
  next
    case (Some d)
    then have t: "targets_of ds s = de_Targets d" by (simp add: targets_of_def)
    obtain lb' where lb': "cooldown_targets cd (rp_Offset s) lb (de_Targets d) = Some lb'"
      and loop: "cooldown_loop (designsByID ds) cd lb' ss"
      using Cons.prems(3) Some by (auto simp: designsByID_find [OF assms(2)] split: option.splits)
    note sound = cooldown_targets_sound [OF assms(1) o1(1,2) Cons.prems(1) lb']
    have ih: "cooldown_respected ds cd ss" "\<And>s'. s' \<in> set ss \<Longrightarrow> ready cd lb' (targets_of ds s') (rp_Offset s')"
      using Cons.IH [OF conjunct1 [OF conjunct2 [OF sound]] o1(3) loop] by blast+
    have map': "map_of lb' = (\<lambda>u. if u \<in> set (targets_of ds s) then Some (rp_Offset s) else map_of lb u)"
      and now: "ready cd lb (targets_of ds s) (rp_Offset s)"
      using sound by (simp_all add: t)
    have gap: "rp_Offset s + cd \<le> rp_Offset s'" if "s' \<in> set ss" "u \<in> set (targets_of ds s)" "u \<in> set (targets_of ds s')" for s' u
      using ih(2) [OF that(1)] that by (simp add: ready_def map')
    have "ready cd lb (targets_of ds s') (rp_Offset s')" if s': "s' \<in> set ss" for s'
      unfolding ready_def
    proof (intro ballI allI impI)
      fix u l assume u: "u \<in> set (targets_of ds s')" "map_of lb u = Some l"
      show "l + cd \<le> rp_Offset s'"
      proof (cases "u \<in> set (targets_of ds s)")
        case True
        then have "l + cd \<le> rp_Offset s" using now u(2) by (auto simp: ready_def)
        with gap [OF s' True u(1)] assms(1) show ?thesis by linarith
      next
        case False
        then show ?thesis using ih(2) [OF s'] u by (simp add: ready_def map')
      qed
    qed
    moreover have "apart ds cd s s'" if "s' \<in> set ss" for s'
      using gap [OF that] by (fastforce simp: apart_def)
    ultimately show ?thesis using ih(1) now by (simp add: cooldown_respected_def)
  qed
qed

lemma cooldown_loop_complete:
  assumes "0 \<le> cd" and "distinct (map de_ID ds)" and "\<forall>d \<in> set ds. distinct (de_Targets d)"
  shows "started lb \<Longrightarrow> in_range ss \<Longrightarrow> cooldown_respected ds cd ss \<Longrightarrow>
    \<forall>s \<in> set ss. ready cd lb (targets_of ds s) (rp_Offset s) \<Longrightarrow> cooldown_loop (designsByID ds) cd lb ss"
proof (induction ss arbitrary: lb)
  case Nil
  then show ?case by simp
next
  case (Cons s ss)
  have o1: "0 \<le> rp_Offset s" "in_int64 (rp_Offset s)" "in_range ss" using Cons.prems(2) by (auto simp: in_range_def)
  have res: "cooldown_respected ds cd ss" "\<forall>s' \<in> set ss. apart ds cd s s'"
    using Cons.prems(3) by (simp_all add: cooldown_respected_def)
  show ?case
  proof (cases "find (\<lambda>d. de_ID d = rp_DesignID s) ds")
    case None
    then show ?thesis
      using Cons.IH [OF Cons.prems(1) o1(3) res(1)] Cons.prems(4) by (simp add: designsByID_find [OF assms(2)])
  next
    case (Some d)
    then have t: "targets_of ds s = de_Targets d" by (simp add: targets_of_def)
    have d: "distinct (de_Targets d)" using Some assms(3) by (auto simp: find_Some_iff)
    from t obtain lb' where lb': "cooldown_targets cd (rp_Offset s) lb (de_Targets d) = Some lb'"
      using cooldown_targets_complete [OF o1(1,2) Cons.prems(1) d] Cons.prems(4) by fastforce
    note sound = cooldown_targets_sound [OF assms(1) o1(1,2) Cons.prems(1) lb']
    have "ready cd lb' (targets_of ds s') (rp_Offset s')" if s': "s' \<in> set ss" for s'
      using res(2) s' Cons.prems(4) sound by (fastforce simp: ready_def apart_def t split: if_splits)
    then have "cooldown_loop (designsByID ds) cd lb' ss"
      using sound by (intro Cons.IH o1 res) auto
    with lb' Some show ?thesis by (simp add: designsByID_find [OF assms(2)])
  qed
qed

lemma started_Nil [simp]: "started []" and ready_Nil [simp]: "ready cd [] ts o1"
  by (simp_all add: started_def ready_def)

text \<open>The check decides the cooldown of a schedule whose designs name no target twice.\<close>

lemma check_decides:
  assumes "0 \<le> cd" and "distinct (map de_ID ds)" and "\<forall>d \<in> set ds. distinct (de_Targets d)" and "in_range slots"
  shows "scheduleRespectsTargetCooldown slots (designsByID ds) cd \<longleftrightarrow> cooldown_respected ds cd slots"
  using cooldown_loop_sound [OF assms(1,2) started_Nil assms(4)] cooldown_loop_complete [OF assms(1,2,3) started_Nil assms(4)]
  by (auto simp: scheduleRespectsTargetCooldown_def)

section \<open>The shuffle and the grid\<close>

lemma yields_shuffle:
  assumes "random_ok rd"
  shows "i < length xs \<or> i = 0 \<Longrightarrow> yields (shuffle_loop rd i xs) (\<lambda>ys. mset ys = mset xs)"
proof (induction i arbitrary: xs)
  case 0
  then show ?case by (auto intro: yields_ret)
next
  case (Suc i)
  show ?case
    unfolding shuffle_loop.simps
  proof (rule yields_bind [OF yields_IntN [OF assms]])
    fix j assume j: "0 \<le> j \<and> j < int (Suc i) + 1"
    let ?xs = "xs[Suc i := xs ! nat j, nat j := xs ! Suc i]"
    have "mset ?xs = mset xs"
      using Suc.prems j by (intro mset_swap [of "nat j" xs "Suc i"]) auto
    moreover have "yields (shuffle_loop rd i ?xs) (\<lambda>ys. mset ys = mset ?xs)"
      using Suc.prems by (intro Suc.IH) auto
    ultimately show "yields (shuffle_loop rd i ?xs) (\<lambda>ys. mset ys = mset xs)" by simp
  qed simp
qed

definition slots_of :: "Design list \<Rightarrow> replayPair list \<Rightarrow> ReplaySlot list \<Rightarrow> bool" where
  "slots_of ds pairs slots \<longleftrightarrow>
    list_all2 (\<lambda>p s. rp_DesignID s = de_ID (ds ! pa_design p) \<and> rp_Index s = pa_replay p) pairs slots"

lemma uniform_offset_bounds:
  assumes "Millisecond \<le> dur" and "in_int64 dur"
  shows "0 \<le> uniform_offset dur slot i u \<and> uniform_offset dur slot i u < dur"
proof -
  have "wrap64 (dur - Millisecond) = dur - Millisecond" using assms by (intro wrap64_id) (auto simp: in_int64_def)
  then show ?thesis using assms by (auto simp: uniform_offset_def Let_def)
qed

lemma yields_uniform:
  assumes "random_ok rd" and "Millisecond \<le> dur" and "in_int64 dur"
  shows "yields (uniform_loop rd ds dur slot i pairs)
    (\<lambda>slots. slots_of ds pairs slots \<and> list_all (\<lambda>s. 0 \<le> rp_Offset s \<and> rp_Offset s < dur) slots)"
proof (induction pairs arbitrary: i)
  case Nil
  show ?case by (auto intro: yields_ret simp: slots_of_def)
next
  case (Cons p pairs)
  show ?case
    unfolding uniform_loop.simps
    by (rule yields_bind [OF yields_Float64 [OF assms(1)]], rule yields_bind [OF Cons.IH], rule yields_ret)
      (use uniform_offset_bounds [OF assms(2,3)] in \<open>auto simp: slots_of_def slot_of_def\<close>)
qed

section \<open>The layout under a cooldown\<close>

lemma slots_of_layout: "slots_of ds pairs (cooldown_layout ds cd seen pairs)"
  by (induction pairs arbitrary: seen) (auto simp: slots_of_def slot_of_def Let_def)

lemma cooldown_offset_cases:
  "cooldown_offset cd seen ts = 0 \<or> (\<exists>t \<in> set ts. cooldown_offset cd seen ts = wrap64 (int (count_list seen t) * cd))"
  and cooldown_offset_nonneg: "0 \<le> cooldown_offset cd seen ts"
proof -
  let ?f = "\<lambda>offset t. let candidate = wrap64 (int (count_list seen t) * cd) in if candidate > offset then candidate else offset"
  have gen: "x \<le> foldl ?f x ts \<and> (foldl ?f x ts = x \<or> (\<exists>t \<in> set ts. foldl ?f x ts = wrap64 (int (count_list seen t) * cd)))" for x
  proof (induction ts arbitrary: x)
    case (Cons t ts)
    show ?case using Cons [of "?f x t"] by (auto simp: Let_def split: if_splits)
  qed simp
  show "cooldown_offset cd seen ts = 0 \<or> (\<exists>t \<in> set ts. cooldown_offset cd seen ts = wrap64 (int (count_list seen t) * cd))"
    "0 \<le> cooldown_offset cd seen ts"
    using gen [of 0] by (simp_all add: cooldown_offset_def)
qed

text \<open>No product of the layout leaves the 64-bit range, and no target is asked for more than fits.\<close>

definition fits :: "duration \<Rightarrow> duration \<Rightarrow> string list \<Rightarrow> bool" where
  "fits dur cd ts \<longleftrightarrow> (\<forall>t \<in> set ts. (int (count_list ts t) - 1) * cd < dur)"

lemma layout_bounds:
  assumes "0 \<le> cd" and "0 < dur" and "in_int64 dur"
  shows "fits dur cd (seen @ pair_targets ds pairs) \<Longrightarrow>
    list_all (\<lambda>s. 0 \<le> rp_Offset s \<and> rp_Offset s < dur) (cooldown_layout ds cd seen pairs)"
proof (induction pairs arbitrary: seen)
  case Nil
  show ?case by simp
next
  case (Cons p pairs)
  let ?ts = "de_Targets (ds ! pa_design p)"
  have all: "seen @ pair_targets ds (p # pairs) = (seen @ ?ts) @ pair_targets ds pairs" by (simp add: pair_targets_def)
  have "cooldown_offset cd seen ?ts < dur"
  proof (cases "cooldown_offset cd seen ?ts = 0")
    case True
    then show ?thesis using assms(2) by simp
  next
    case False
    then obtain t where t: "t \<in> set ?ts" and o1: "cooldown_offset cd seen ?ts = wrap64 (int (count_list seen t) * cd)"
      using cooldown_offset_cases by blast
    have "0 < count_list ?ts t" using t by (metis count_list_0_iff gr0I)
    then have "int (count_list seen t) \<le> int (count_list (seen @ pair_targets ds (p # pairs)) t) - 1"
      by (simp add: pair_targets_def)
    then have "int (count_list seen t) * cd \<le> (int (count_list (seen @ pair_targets ds (p # pairs)) t) - 1) * cd"
      using assms(1) by (rule mult_right_mono)
    also have "\<dots> < dur" using Cons.prems t by (auto simp: fits_def pair_targets_def)
    finally have le: "int (count_list seen t) * cd < dur" .
    moreover have "0 \<le> int (count_list seen t) * cd" using assms(1) by simp
    ultimately show ?thesis using assms(3) by (simp add: o1 wrap64_id in_int64_def)
  qed
  then show ?case
    using Cons.IH [of "seen @ ?ts"] Cons.prems cooldown_offset_nonneg [of cd seen ?ts]
    by (simp add: all Let_def slot_of_def)
qed

section \<open>Scaling\<close>

lemma rnd_relative:
  assumes "1 \<le> x"
  shows "\<bar>rnd x - x\<bar> \<le> x / 2 ^ 53"
proof -
  have pos: "0 < x" using assms by simp
  have "pow2 0 < pow2 (ilog2 x + 1)" using assms ilog2_bounds(2) [OF pos] by (simp add: pow2_def)
  then have "0 < ilog2 x + 1" by (simp only: pow2_less_iff)
  then have "0 \<le> ilog2 x" by simp
  then have e: "fexp x = ilog2 x - 52" using pos by (simp add: fexp_def)
  have "rnd x - x = (of_int (rne (x / pow2 (fexp x))) - x / pow2 (fexp x)) * pow2 (fexp x)"
    by (simp add: rnd_def algebra_simps)
  then have "\<bar>rnd x - x\<bar> = \<bar>of_int (rne (x / pow2 (fexp x))) - x / pow2 (fexp x)\<bar> * pow2 (fexp x)"
    by (simp add: abs_mult)
  also have "\<dots> \<le> 1 / 2 * pow2 (fexp x)" by (rule mult_right_mono [OF rne_error]) simp
  also have "\<dots> = pow2 (ilog2 x) / 2 ^ 53" by (simp add: e pow2_diff)
  also have "\<dots> \<le> x / 2 ^ 53" using ilog2_bounds(1) [OF pos] by (simp add: divide_right_mono)
  finally show ?thesis .
qed

lemma fexp_below:
  assumes "0 < x" and "x < 2 ^ 52"
  shows "fexp x \<le> - 1"
proof -
  have "pow2 (ilog2 x) < pow2 52" using ilog2_bounds(1) [OF assms(1)] assms(2) by (simp add: pow2_def)
  then have "ilog2 x < 52" by (simp only: pow2_less_iff)
  then show ?thesis using assms(1) by (simp add: fexp_def)
qed

text \<open>Scaling the offsets by \<open>scaleTo / latest\<close> stays at or below \<open>scaleTo\<close>.\<close>

lemma scaled_bound:
  assumes "0 \<le> o1" and "o1 \<le> latest" and "0 < latest" and "latest < n" and "n < 2 ^ 52"
  defines "y \<equiv> rnd (of_int n / of_int latest)"
  shows "fdiv (float_of_int n) (float_of_int latest) = Fin y" and "1 \<le> y"
    and "fmul (float_of_int o1) (Fin y) = Fin (rnd (of_int o1 * y))"
    and "0 \<le> rnd (of_int o1 * y)" and "rnd (of_int o1 * y) < of_int n + 1" and "of_int o1 * y < of_int n + 1"
proof -
  let ?q = "rat_of_int n / of_int latest"
  have q: "1 \<le> ?q" "?q \<le> of_int n" using assms by (simp_all add: divide_le_eq_1 le_divide_eq pos_divide_le_eq)
  have e0: "float_of_int n = Fin (of_int n)" "float_of_int latest = Fin (of_int latest)" "float_of_int o1 = Fin (of_int o1)"
    using assms by auto
  show "fdiv (float_of_int n) (float_of_int latest) = Fin y"
    using fl_bounded(1) [of ?q n] q assms by (simp add: e0 y_def)
  show y1: "1 \<le> y" using rnd_mono [of 1 ?q] q rnd_of_int [of 1] by (simp add: y_def)
  have "\<bar>y - ?q\<bar> \<le> ?q / 2 ^ 53" unfolding y_def by (rule rnd_relative [OF q(1)])
  then have yq: "y \<le> ?q * (1 + 1 / 2 ^ 53)" by (simp add: abs_le_iff algebra_simps)
  have "of_int o1 * y \<le> of_int latest * (?q * (1 + 1 / 2 ^ 53))"
    using assms y1 yq by (intro mult_mono) auto
  also have "\<dots> = of_int n + of_int n / 2 ^ 53" using assms by (simp add: field_simps)
  also have "\<dots> \<le> of_int n + 1 / 2"
  proof -
    have "rat_of_int n < of_int (2 ^ 52)" using assms(5) by (simp only: of_int_less_iff)
    then show ?thesis by (simp add: field_simps)
  qed
  finally have p: "of_int o1 * y \<le> of_int n + 1 / 2" .
  have p0: "0 \<le> of_int o1 * y" using assms y1 by simp
  have up: "rnd (of_int o1 * y) \<le> of_int n + 1 / 2"
  proof (cases "of_int o1 * y = 0")
    case True
    show ?thesis unfolding True rnd_0 using assms by simp
  next
    case False
    have n1: "rat_of_int n + 1 / 2 < 2 ^ 52"
    proof -
      have "rat_of_int n \<le> of_int (2 ^ 52 - 1)" using assms(5) by (simp only: of_int_le_iff)
      then show ?thesis by simp
    qed
    have g: "of_int (2 * n + 1) * pow2 (- 1) = rat_of_int n + 1 / 2" by (simp add: pow2_def field_simps)
    have "rnd (of_int o1 * y) \<le> of_int (2 * n + 1) * pow2 (- 1)"
    proof (rule rnd_le_grid)
      show "of_int o1 * y \<le> of_int (2 * n + 1) * pow2 (- 1)" using p by (simp only: g)
      have "0 < of_int o1 * y" using False p0 by linarith
      then show "fexp (of_int o1 * y) \<le> - 1" using p n1 by (intro fexp_below) linarith+
    qed
    then show ?thesis by (simp only: g)
  qed
  then show "rnd (of_int o1 * y) < of_int n + 1" by linarith
  show "0 \<le> rnd (of_int o1 * y)" by (rule rnd_nonneg [OF p0])
  show "of_int o1 * y < of_int n + 1" using p by simp
  then have "of_int o1 * y \<le> of_int (n + 1)" by simp
  then show "fmul (float_of_int o1) (Fin y) = Fin (rnd (of_int o1 * y))"
    using fl_bounded(1) [OF p0, of "n + 1"] assms by (simp add: e0)
qed

lemma stretch_map:
  assumes "list_all (\<lambda>s. 0 \<le> rp_Offset s \<and> rp_Offset s < dur) slots" and "0 < dur" and "dur \<le> 2 ^ 52"
  obtains y where "1 \<le> y"
    and "stretch dur slots = slots \<or>
      stretch dur slots = map (\<lambda>s. s\<lparr>rp_Offset := \<lfloor>rnd (of_int (rp_Offset s) * y)\<rfloor>\<rparr>) slots \<and>
      (\<forall>s \<in> set slots. of_int (rp_Offset s) * y < of_int dur \<and>
        0 \<le> rnd (of_int (rp_Offset s) * y) \<and> rnd (of_int (rp_Offset s) * y) < of_int dur)"
proof -
  let ?latest = "foldl max 0 (map rp_Offset slots)"
  have w: "wrap64 (dur - 1) = dur - 1" using assms(2,3) by (intro wrap64_id) (auto simp: in_int64_def)
  show ?thesis
  proof (cases "?latest > 0 \<and> dur - 1 > ?latest")
    case False
    then show ?thesis by (intro that [of 1]) (auto simp: stretch_def Let_def w)
  next
    case True
    define y where "y = rnd (of_int (dur - 1) / of_int ?latest)"
    have lt: "0 < ?latest" "?latest < dur - 1" "dur - 1 < 2 ^ 52" using True assms(3) by auto
    have b: "0 \<le> rp_Offset s" "rp_Offset s \<le> ?latest" if "s \<in> set slots" for s
      using assms(1) that foldl_max_upper [of "rp_Offset s" "map rp_Offset slots" 0] by (auto simp: list_all_iff)
    note sb = scaled_bound [OF _ _ lt, folded y_def]
    have scale: "fdiv (float_of_int (dur - 1)) (float_of_int ?latest) = Fin y" "1 \<le> y"
      using sb(1,2) [of 0] lt by simp_all
    have "scaled (Fin y) s = s\<lparr>rp_Offset := \<lfloor>rnd (of_int (rp_Offset s) * y)\<rfloor>\<rparr>" if "s \<in> set slots" for s
    proof -
      have r: "0 \<le> rnd (of_int (rp_Offset s) * y)" "rnd (of_int (rp_Offset s) * y) < of_int dur"
        using sb(4,5) [OF b [OF that]] by simp_all
      then have "0 \<le> \<lfloor>rnd (of_int (rp_Offset s) * y)\<rfloor>" "\<lfloor>rnd (of_int (rp_Offset s) * y)\<rfloor> < dur"
        by (simp_all add: floor_less_iff)
      moreover have "in_int64 k" if "0 \<le> k" "k < dur" for k using that assms(3) by (simp add: in_int64_def)
      ultimately have "in_int64 \<lfloor>rnd (of_int (rp_Offset s) * y)\<rfloor>" by blast
      then show ?thesis using r by (simp add: scaled_def sb(3) [OF b [OF that]] Let_def)
    qed
    then have "stretch dur slots = map (\<lambda>s. s\<lparr>rp_Offset := \<lfloor>rnd (of_int (rp_Offset s) * y)\<rfloor>\<rparr>) slots"
      using True scale(1) by (simp add: stretch_def Let_def w)
    moreover have "of_int (rp_Offset s) * y < of_int dur" if "s \<in> set slots" for s
      using sb(6) [OF b [OF that]] by simp
    ultimately show ?thesis using sb(4,5) b scale(2) by (intro that [of y]) auto
  qed
qed

section \<open>Schedules\<close>

definition replays_of :: "Design list \<Rightarrow> (string \<times> int) list" where
  "replays_of ds = concat (map (\<lambda>d. map (\<lambda>i. (de_ID d, int i)) [0..<nat (de_Replays d)]) ds)"

lemma replay_pairs_upt:
  "replay_pairs ds =
    concat (map (\<lambda>i. map (\<lambda>ri. \<lparr>pa_design = i, pa_replay = int ri\<rparr>) [0..<nat (de_Replays (ds ! i))]) [0..<length ds])"
  unfolding replay_pairs_def by (intro arg_cong [of _ _ concat] nth_equalityI) auto

lemma replay_pairs_replays:
  "map (\<lambda>p. (de_ID (ds ! pa_design p), pa_replay p)) (replay_pairs ds) = replays_of ds"
proof -
  have "replays_of ds = concat (map (\<lambda>i. map (\<lambda>ri. (de_ID (ds ! i), int ri)) [0..<nat (de_Replays (ds ! i))]) [0..<length ds])"
    unfolding replays_of_def by (intro arg_cong [of _ _ concat] nth_equalityI) auto
  then show ?thesis unfolding replay_pairs_upt map_concat by (simp add: comp_def)
qed

lemma slots_of_replays:
  assumes "slots_of ds pairs slots"
  shows "map (\<lambda>s. (rp_DesignID s, rp_Index s)) slots = map (\<lambda>p. (de_ID (ds ! pa_design p), pa_replay p)) pairs"
  using assms unfolding slots_of_def by (induction rule: list_all2_induct) auto

definition schedule_ok :: "Design list \<Rightarrow> duration \<Rightarrow> duration \<Rightarrow> ReplaySlot list \<Rightarrow> bool" where
  "schedule_ok ds dur cd slots \<longleftrightarrow>
    mset (map (\<lambda>s. (rp_DesignID s, rp_Index s)) slots) = mset (replays_of ds) \<and>
    sorted (map rp_Offset slots) \<and> list_all (\<lambda>s. 0 \<le> rp_Offset s \<and> rp_Offset s < dur) slots \<and>
    cooldown_respected ds cd slots"

lemma schedule_ok_sorted:
  assumes "slots_of ds pairs slots" and "mset pairs = mset (replay_pairs ds)"
    and "list_all (\<lambda>s. 0 \<le> rp_Offset s \<and> rp_Offset s < dur) slots" and "in_int64 dur" and "0 \<le> cd"
    and "distinct (map de_ID ds)"
    and "cd = 0 \<or> scheduleRespectsTargetCooldown (sort_key rp_Offset slots) (designsByID ds) cd"
  shows "schedule_ok ds dur cd (sort_key rp_Offset slots)"
proof -
  let ?sorted = "sort_key rp_Offset slots"
  have "mset (map (\<lambda>s. (rp_DesignID s, rp_Index s)) ?sorted) = mset (map (\<lambda>s. (rp_DesignID s, rp_Index s)) slots)"
    by (simp only: mset_map mset_sort)
  also have "\<dots> = mset (replays_of ds)"
    unfolding slots_of_replays [OF assms(1)] replay_pairs_replays [symmetric] by (simp only: mset_map assms(2))
  finally have m: "mset (map (\<lambda>s. (rp_DesignID s, rp_Index s)) ?sorted) = mset (replays_of ds)" .
  have r: "list_all (\<lambda>s. 0 \<le> rp_Offset s \<and> rp_Offset s < dur) ?sorted" using assms(3) by (simp add: list_all_iff)
  then have rng: "in_range ?sorted"
    using assms(4) by (fastforce simp: in_range_def list_all_iff in_int64_def)
  have "cooldown_respected ds cd ?sorted"
    using assms(7)
  proof
    assume "cd = 0"
    moreover have "sorted_wrt (\<lambda>a b. rp_Offset a \<le> rp_Offset b) ?sorted"
      using sorted_sort_key [of rp_Offset slots] by (simp add: sorted_map)
    ultimately show ?thesis
      unfolding cooldown_respected_def by (elim sorted_wrt_mono_rel [rotated]) (simp add: apart_def)
  next
    assume "scheduleRespectsTargetCooldown ?sorted (designsByID ds) cd"
    then show ?thesis
      using cooldown_loop_sound [OF assms(5,6) started_Nil rng] by (simp add: scheduleRespectsTargetCooldown_def)
  qed
  with m r show ?thesis by (simp add: schedule_ok_def)
qed

text \<open>Sums of the layout stay in the 64-bit range.\<close>

definition layout_fits :: "Design list \<Rightarrow> duration \<Rightarrow> bool" where
  "layout_fits ds cd \<longleftrightarrow> int (length (pair_targets ds (replay_pairs ds))) * cd < 2 ^ 63"

lemma pair_targets_mset:
  assumes "mset pairs = mset (replay_pairs ds)"
  shows "mset (pair_targets ds pairs) = mset (pair_targets ds (replay_pairs ds))"
proof -
  have "mset (pair_targets ds ps) = (\<Sum>p \<in># mset ps. mset (de_Targets (ds ! pa_design p)))" for ps
    by (induction ps) (auto simp: pair_targets_def)
  with assms show ?thesis by simp
qed

lemma fits_feasible:
  assumes "mset pairs = mset (replay_pairs ds)" and "layout_fits ds cd" and "0 \<le> cd"
    and "\<not> list_ex (\<lambda>t. wrap64 ((int (count_list (pair_targets ds pairs) t) - 1) * cd) \<ge> dur) (pair_targets ds pairs)"
  shows "fits dur cd (pair_targets ds pairs)"
  unfolding fits_def
proof
  fix t assume t: "t \<in> set (pair_targets ds pairs)"
  let ?n = "int (count_list (pair_targets ds pairs) t)"
  have "0 < count_list (pair_targets ds pairs) t" using t by (metis count_list_0_iff gr0I)
  then have lo: "0 \<le> (?n - 1) * cd" using assms(3) by simp
  have "?n \<le> int (length (pair_targets ds (replay_pairs ds)))"
    using count_le_length [of "pair_targets ds pairs" t] pair_targets_mset [OF assms(1)]
    by (metis mset_eq_length of_nat_le_iff)
  then have "(?n - 1) * cd \<le> int (length (pair_targets ds (replay_pairs ds))) * cd"
    using assms(3) by (intro mult_right_mono) auto
  with assms(2) have "(?n - 1) * cd < 2 ^ 63" unfolding layout_fits_def by linarith
  with lo have "wrap64 ((?n - 1) * cd) = (?n - 1) * cd" by (intro wrap64_id) (simp add: in_int64_def)
  with t assms(4) show "(?n - 1) * cd < dur" by (auto simp: list_ex_iff not_le)
qed

lemma stretch_slots:
  assumes "slots_of ds pairs slots" and "list_all (\<lambda>s. 0 \<le> rp_Offset s \<and> rp_Offset s < dur) slots"
    and "0 < dur" and "dur \<le> 2 ^ 52"
  shows "slots_of ds pairs (stretch dur slots)"
    and "list_all (\<lambda>s. 0 \<le> rp_Offset s \<and> rp_Offset s < dur) (stretch dur slots)"
proof -
  obtain y where "stretch dur slots = slots \<or>
      stretch dur slots = map (\<lambda>s. s\<lparr>rp_Offset := \<lfloor>rnd (of_int (rp_Offset s) * y)\<rfloor>\<rparr>) slots \<and>
      (\<forall>s \<in> set slots. of_int (rp_Offset s) * y < of_int dur \<and>
        0 \<le> rnd (of_int (rp_Offset s) * y) \<and> rnd (of_int (rp_Offset s) * y) < of_int dur)"
    using stretch_map [OF assms(2,3,4)] by blast
  then show "slots_of ds pairs (stretch dur slots)"
    and "list_all (\<lambda>s. 0 \<le> rp_Offset s \<and> rp_Offset s < dur) (stretch dur slots)"
    using assms(1,2) by (auto simp: slots_of_def list_all2_conv_all_nth list_all_iff floor_less_iff)
qed

lemma generateCooldownSchedule_ok:
  assumes "mset pairs = mset (replay_pairs ds)" and "distinct (map de_ID ds)" and "layout_fits ds cd"
    and "0 \<le> cd" and "0 < dur" and "dur \<le> 2 ^ 52"
  shows "case generateCooldownSchedule ds pairs dur cd of Inl e \<Rightarrow> e \<in> set design_errors | Inr slots \<Rightarrow> schedule_ok ds dur cd slots"
proof (cases "list_ex (\<lambda>t. wrap64 ((int (count_list (pair_targets ds pairs) t) - 1) * cd) \<ge> dur) (pair_targets ds pairs)")
  case True
  then show ?thesis by (simp add: generateCooldownSchedule_def design_errors_def)
next
  case False
  let ?slots = "cooldown_layout ds cd [] pairs"
  have dur: "in_int64 dur" using assms(5,6) by (simp add: in_int64_def)
  have "fits dur cd ([] @ pair_targets ds pairs)"
    using fits_feasible [OF assms(1,3,4) False] by simp
  note b = layout_bounds [OF assms(4,5) dur this]
  note st = stretch_slots [OF slots_of_layout b assms(5,6)]
  show ?thesis
    using schedule_ok_sorted [OF st(1) assms(1) st(2) dur assms(4,2)] False
    by (auto simp: generateCooldownSchedule_def Let_def design_errors_def)
qed

text \<open>
  The schedule is a jittered grid, or the layout under the cooldown, or too large to be allocated.
\<close>

lemma yields_grid: "random_ok rd \<Longrightarrow> yields (uniform_loop rd ds dur slot i pairs) (\<lambda>_. True)"
proof (induction pairs arbitrary: i)
  case Nil
  show ?case by (auto intro: yields_ret)
next
  case (Cons p ps)
  show ?case
    unfolding uniform_loop.simps
    by (rule yields_bind [OF yields_Float64 [OF Cons.prems]], rule yields_bind [OF Cons.IH [OF Cons.prems]], rule yields_ret) simp
qed

lemma generateSchedule_cases:
  assumes "random_ok rd" and "total_replays ds \<noteq> 0" and "ds \<noteq> []" and "\<forall>d \<in> set ds. 0 < de_Replays d"
  obtains (grid) pairs raw r1 r2 where "mset pairs = mset (replay_pairs ds)"
      and "uniform_loop rd ds dur (quot_trunc dur (int (length pairs))) 0 pairs r1 = Inr (raw, r2)"
      and "cd \<le> 0 \<or> scheduleRespectsTargetCooldown (sort_key rp_Offset raw) (designsByID ds) cd"
      and "generateSchedule rd sha ds dur cd seed = Inr (sort_key rp_Offset raw)" and "32 * replays_total ds \<le> 2 ^ 48"
    | (layout) pairs where "mset pairs = mset (replay_pairs ds)" and "0 < cd"
      and "generateSchedule rd sha ds dur cd seed = generateCooldownSchedule ds pairs dur cd" and "32 * replays_total ds \<le> 2 ^ 48"
    | (oversize) "2 ^ 48 < 32 * replays_total ds" and "generateSchedule rd sha ds dur cd seed = Inl makeslice_panic"
proof -
  let ?rng = "newRand sha (deriveSeed sha seed ''schedule'' 0)" and ?pairs0 = "replay_pairs ds"
  note len = pairs_of_positive [OF assms(4)]
  have ne: "?pairs0 \<noteq> []" using len replays_total_nonneg [OF assms(4)] assms(3) by auto
  obtain pairs r1 where pairs: "shuffle_loop rd (length ?pairs0 - 1) ?pairs0 ?rng = Inr (pairs, r1)" "mset pairs = mset ?pairs0"
    by (rule yieldsE [OF yields_shuffle [OF assms(1), of "length ?pairs0 - 1" ?pairs0]]) (use ne in auto)
  have len': "int (length pairs) = replays_total ds" using len mset_eq_length [OF pairs(2)] by simp
  have ne': "pairs \<noteq> []" using ne pairs(2) by auto
  obtain raw r2 where raw: "uniform_loop rd ds dur (quot_trunc dur (int (length pairs))) 0 pairs r1 = Inr (raw, r2)"
    by (rule yieldsE [OF yields_grid [OF assms(1)]])
  show thesis
  proof (cases "makeslice 16 (total_replays ds)")
    case (Inl e)
    then have e: "e = makeslice_panic" by (simp add: makeslice_def split: if_splits)
    have "2 ^ 48 < 32 * replays_total ds"
    proof (rule ccontr)
      assume fits: "\<not> 2 ^ 48 < 32 * replays_total ds"
      then have "total_replays ds = replays_total ds" by (intro total_replays_exact [OF assms(4)]) simp
      then show False using Inl fits replays_total_nonneg [OF assms(4)] by (simp add: makeslice_def split: if_splits)
    qed
    then show thesis using Inl e assms(2) by (intro oversize) (simp_all add: generateSchedule_def)
  next
    case (Inr u)
    show thesis
    proof (cases "2 ^ 48 < 32 * int (length pairs)")
      case True
      then have "generateUniformSchedule rd ds pairs dur r1 = Inl makeslice_panic"
        using ne' by (simp add: generateUniformSchedule_def gbind_def makeslice_gen_def makeslice_def)
      then show thesis using True len' Inr assms(2) pairs(1) by (intro oversize) (simp_all add: generateSchedule_def Let_def)
    next
      case False
      then have uniform: "generateUniformSchedule rd ds pairs dur r1 = Inr (sort_key rp_Offset raw, r2)"
        using ne' raw by (simp add: generateUniformSchedule_def gbind_def makeslice_gen_def makeslice_def gret_def)
      show thesis
      proof (cases "cd \<le> 0 \<or> scheduleRespectsTargetCooldown (sort_key rp_Offset raw) (designsByID ds) cd")
        case True
        then show thesis
          using assms(2) Inr pairs(1) uniform False len' by (intro grid [OF pairs(2) raw]) (simp_all add: generateSchedule_def Let_def)
      next
        case no: False
        then show thesis
          using assms(2) Inr pairs(1) uniform False len' by (intro layout [OF pairs(2)]) (simp_all add: generateSchedule_def Let_def)
      qed
    qed
  qed
qed

lemma generateSchedule_ok:
  assumes "random_ok rd" and "total_replays ds \<noteq> 0" and "ds \<noteq> []" and "\<forall>d \<in> set ds. 0 < de_Replays d"
    and "distinct (map de_ID ds)" and "layout_fits ds cd"
    and "0 \<le> cd" and "Millisecond \<le> dur" and "dur \<le> 2 ^ 52"
  shows "case generateSchedule rd sha ds dur cd seed of
    Inl e \<Rightarrow> e \<in> set design_errors \<and> 0 < cd \<or> e = makeslice_panic \<and> 2 ^ 48 < 32 * replays_total ds
  | Inr slots \<Rightarrow> schedule_ok ds dur cd slots"
proof -
  have dur: "in_int64 dur" "0 < dur" using assms(8,9) by (auto simp: in_int64_def)
  show ?thesis
  proof (cases rule: generateSchedule_cases [OF assms(1-4), of dur cd sha seed])
    case (1 pairs raw r1 r2)
    have "slots_of ds pairs raw" "list_all (\<lambda>s. 0 \<le> rp_Offset s \<and> rp_Offset s < dur) raw"
      using yields_uniform [OF assms(1,8) dur(1), of ds "quot_trunc dur (int (length pairs))" 0 pairs] 1(2)
      unfolding yields_or_def by (fastforce dest: spec [of _ r1])+
    from schedule_ok_sorted [OF this(1) 1(1) this(2) dur(1) assms(7,5)] show ?thesis
      using 1(3,4) assms(7) by auto
  next
    case (2 pairs)
    then show ?thesis
      using generateCooldownSchedule_ok [OF 2(1) assms(5,6,7) dur(2) assms(9)] by (auto split: sum.splits)
  next
    case 3
    then show ?thesis by simp
  qed
qed

end
