(* ===== verification/Campaign_Plans.thy ===== *)
theory Campaign_Plans
  imports Campaign_Slots
begin

text \<open>
  When the layout under a cooldown succeeds, and the properties of whole plans.
\<close>

section \<open>Scaling keeps slots apart\<close>

lemma even_le_rne:
  assumes "even n" and "of_int n - 1 / 2 \<le> q"
  shows "n \<le> rne q"
proof (cases "of_int n \<le> q")
  case True
  then show ?thesis by (rule int_le_rne)
next
  case False
  with assms(2) have f: "\<lfloor>q\<rfloor> = n - 1" by (simp add: floor_eq_iff)
  have "odd (n - 1)" using assms(1) by simp
  with f assms(2) show ?thesis by (auto simp: rne_def Let_def)
qed

lemma rnd_error: "\<bar>rnd x - x\<bar> \<le> pow2 (fexp x) / 2"
proof -
  have "rnd x - x = (of_int (rne (x / pow2 (fexp x))) - x / pow2 (fexp x)) * pow2 (fexp x)"
    by (simp add: rnd_def algebra_simps)
  then have "\<bar>rnd x - x\<bar> = \<bar>of_int (rne (x / pow2 (fexp x))) - x / pow2 (fexp x)\<bar> * pow2 (fexp x)"
    by (simp add: abs_mult)
  also have "\<dots> \<le> 1 / 2 * pow2 (fexp x)" by (rule mult_right_mono [OF rne_error]) simp
  finally show ?thesis by simp
qed

text \<open>
  Below $2^{52}$ the neighbours of an integer are at most a half away, and a tie between an
  integer and its lower neighbour goes to the integer, so the truncation of a rounded number moves
  with every integer shift.
\<close>

lemma floor_rnd_shift:
  assumes "0 \<le> x" and "0 \<le> d" and "x + of_int d \<le> z" and "z < 2 ^ 52"
  shows "\<lfloor>rnd x\<rfloor> + d \<le> \<lfloor>rnd z\<rfloor>"
proof (cases "z = 0")
  case True
  with assms have "x = 0" "d = 0" by simp_all
  then show ?thesis using True by simp
next
  case False
  let ?m = "\<lfloor>rnd x\<rfloor>"
  have dq: "0 \<le> rat_of_int d" using assms(2) by simp
  have z: "0 < z" using assms(1,3) False dq by linarith
  note fz = fexp_below [OF z assms(4)]
  have "of_int (?m + d) \<le> rnd z"
  proof (cases "of_int ?m \<le> x")
    case True
    then have "of_int (?m + d) * pow2 0 \<le> z" using assms(3) by (simp add: pow2_def)
    then have "of_int (?m + d) * pow2 0 \<le> rnd z" using fz by (intro grid_le_rnd) auto
    then show ?thesis by (simp add: pow2_def)
  next
    case less: False
    have x: "0 < x"
    proof (rule ccontr)
      assume "\<not> 0 < x"
      with assms(1) have "x = 0" by simp
      with less show False by simp
    qed
    have xz: "x \<le> z" using assms(3) dq by linarith
    note fx = fexp_mono [OF x xz]
    have "rnd x - x \<le> pow2 (fexp x) / 2" using rnd_error [of x] abs_ge_self [of "rnd x - x"] by linarith
    moreover have "pow2 (fexp x) \<le> pow2 (fexp z)" using fx by simp
    ultimately have gap: "of_int (?m + d) - pow2 (fexp z) / 2 \<le> z"
      unfolding of_int_add using assms(3) of_int_floor_le [of "rnd x"] by linarith
    define k where "k = (?m + d) * 2 ^ nat (- fexp z)"
    have k: "of_int k * pow2 (fexp z) = of_int (?m + d)"
    proof -
      have "of_int k = of_int (?m + d) * pow2 (- fexp z)" using fz by (simp add: k_def)
      moreover have "pow2 (- fexp z) * pow2 (fexp z) = 1"
        unfolding pow2_add [symmetric] by (simp add: pow2_def)
      ultimately show ?thesis by (simp add: mult.assoc)
    qed
    have "even k" using fz by (simp add: k_def)
    moreover have "of_int k - 1 / 2 \<le> z / pow2 (fexp z)"
    proof -
      have "(of_int k - 1 / 2) * pow2 (fexp z) \<le> z" using gap k by (simp add: left_diff_distrib)
      then show ?thesis by (simp add: pos_le_divide_eq)
    qed
    ultimately have "k \<le> rne (z / pow2 (fexp z))" by (rule even_le_rne)
    then have "of_int k * pow2 (fexp z) \<le> rnd z" unfolding rnd_def by (intro mult_right_mono) auto
    with k show ?thesis by simp
  qed
  then show ?thesis by (simp add: le_floor_iff)
qed

section \<open>The layout of single-target designs\<close>

lemma sorted_wrt_insort:
  assumes "\<And>a b. R a b \<Longrightarrow> R b a"
  shows "sorted_wrt R (insort_key f x xs) \<longleftrightarrow> (\<forall>y \<in> set xs. R x y) \<and> sorted_wrt R xs"
  by (induction xs) (auto simp: set_insort_key intro: assms)

lemma sorted_wrt_sort:
  assumes "\<And>a b. R a b \<Longrightarrow> R b a" and "sorted_wrt R xs"
  shows "sorted_wrt R (sort_key f xs)"
  using assms(2) by (induction xs) (simp_all add: sort_key_simps sorted_wrt_insort [OF assms(1)])

definition single_targets :: "Design list \<Rightarrow> bool" where
  "single_targets ds \<longleftrightarrow> list_all (\<lambda>d. length (de_Targets d) = 1) ds"

lemma single_target_nth:
  assumes "single_targets ds" and "i < length ds"
  shows "\<exists>t. de_Targets (ds ! i) = [t]"
proof -
  have "length (de_Targets (ds ! i)) = 1" using assms by (simp add: single_targets_def list_all_length)
  then show ?thesis by (cases "de_Targets (ds ! i)") auto
qed

definition pairs_in :: "Design list \<Rightarrow> replayPair list \<Rightarrow> bool" where
  "pairs_in ds pairs \<longleftrightarrow> list_all (\<lambda>p. pa_design p < length ds) pairs"

lemma targets_of_slot:
  assumes "distinct (map de_ID ds)" and "pa_design p < length ds"
  shows "targets_of ds (slot_of ds p o1) = de_Targets (ds ! pa_design p)"
proof -
  have "find (\<lambda>d. de_ID d = de_ID (ds ! pa_design p)) ds = Some (ds ! pa_design p)"
    unfolding find_Some_iff using assms by (intro exI [of _ "pa_design p"]) (auto simp: distinct_conv_nth)
  then show ?thesis by (simp add: targets_of_def slot_of_def)
qed

text \<open>The targets of a slot of the layout start no earlier than their counts say.\<close>

lemma cooldown_offset_single:
  assumes "0 \<le> cd" and "int (count_list seen t) * cd < 2 ^ 63"
  shows "cooldown_offset cd seen [t] = int (count_list seen t) * cd"
proof -
  have "0 \<le> int (count_list seen t) * cd" using assms(1) by simp
  then show ?thesis using assms(2) by (simp add: cooldown_offset_def wrap64_id in_int64_def Let_def)
qed

lemma count_bound: "0 \<le> cd \<Longrightarrow> int (length (xs @ ys)) * cd < 2 ^ 63 \<Longrightarrow> int (count_list xs t) * cd < 2 ^ 63"
proof -
  assume cd: "0 \<le> cd" and b: "int (length (xs @ ys)) * cd < 2 ^ 63"
  have "int (count_list xs t) \<le> int (length (xs @ ys))" using count_le_length [of xs t] by simp
  then have "int (count_list xs t) * cd \<le> int (length (xs @ ys)) * cd" using cd by (rule mult_right_mono)
  with b show ?thesis by linarith
qed

lemma layout_single:
  assumes "0 \<le> cd" and "distinct (map de_ID ds)" and "single_targets ds"
  shows "pairs_in ds pairs \<Longrightarrow> int (length (seen @ pair_targets ds pairs)) * cd < 2 ^ 63 \<Longrightarrow>
    cooldown_respected ds cd (cooldown_layout ds cd seen pairs) \<and>
    (\<forall>s \<in> set (cooldown_layout ds cd seen pairs). \<forall>t \<in> set (targets_of ds s). int (count_list seen t) * cd \<le> rp_Offset s)"
proof (induction pairs arbitrary: seen)
  case Nil
  show ?case by (simp add: cooldown_respected_def)
next
  case (Cons p pairs)
  let ?ts = "de_Targets (ds ! pa_design p)" and ?rest = "\<lambda>seen. cooldown_layout ds cd seen pairs"
  have p: "pa_design p < length ds" using Cons.prems(1) by (simp add: pairs_in_def)
  from single_target_nth [OF assms(3) this] obtain t where t: "?ts = [t]" by blast
  have all: "seen @ pair_targets ds (p # pairs) = (seen @ [t]) @ pair_targets ds pairs" by (simp add: pair_targets_def t)
  have fit: "int (count_list seen t) * cd < 2 ^ 63" by (rule count_bound [OF assms(1) Cons.prems(2)])
  have pin: "pairs_in ds pairs" using Cons.prems(1) by (simp add: pairs_in_def)
  have ih: "cooldown_respected ds cd (?rest (seen @ [t]))"
    "\<And>s u. s \<in> set (?rest (seen @ [t])) \<Longrightarrow> u \<in> set (targets_of ds s) \<Longrightarrow> int (count_list (seen @ [t]) u) * cd \<le> rp_Offset s"
    using Cons.IH [OF pin Cons.prems(2) [unfolded all]] by blast+
  let ?s = "slot_of ds p (int (count_list seen t) * cd)"
  have lay: "cooldown_layout ds cd seen (p # pairs) = ?s # ?rest (seen @ [t])"
    by (simp add: Let_def t cooldown_offset_single [OF assms(1) fit])
  have ts: "targets_of ds ?s = [t]" by (simp only: targets_of_slot [OF assms(2) p] t)
  have "apart ds cd ?s s" if "s \<in> set (?rest (seen @ [t]))" for s
  proof (cases "t \<in> set (targets_of ds s)")
    case True
    then show ?thesis using ih(2) [OF that True] by (simp add: apart_def slot_of_def algebra_simps)
  next
    case False
    then show ?thesis by (simp add: apart_def ts)
  qed
  moreover have "int (count_list seen u) * cd \<le> rp_Offset s"
    if "s \<in> set (?rest (seen @ [t]))" "u \<in> set (targets_of ds s)" for s u
    using ih(2) [OF that] assms(1) by (auto simp: algebra_simps split: if_splits)
  moreover have "rp_Offset ?s = int (count_list seen t) * cd" by (simp add: slot_of_def)
  ultimately show ?case
    unfolding lay using ih(1) by (auto simp: cooldown_respected_def ts)
qed

definition far :: "Design list \<Rightarrow> duration \<Rightarrow> ReplaySlot \<Rightarrow> ReplaySlot \<Rightarrow> bool" where
  "far ds cd a b \<longleftrightarrow> set (targets_of ds a) \<inter> set (targets_of ds b) = {} \<or> cd \<le> \<bar>rp_Offset b - rp_Offset a\<bar>"

lemma sorted_respects:
  assumes "cooldown_respected ds cd slots"
  shows "cooldown_respected ds cd (sort_key rp_Offset slots)"
proof -
  have "sorted_wrt (far ds cd) slots"
    using assms unfolding cooldown_respected_def by (elim sorted_wrt_mono_rel [rotated]) (auto simp: far_def apart_def)
  then have "sorted_wrt (far ds cd) (sort_key rp_Offset slots)"
    by (rule sorted_wrt_sort [rotated]) (auto simp: far_def)
  moreover have "sorted_wrt (\<lambda>a b. rp_Offset a \<le> rp_Offset b) (sort_key rp_Offset slots)"
    using sorted_sort_key [of rp_Offset slots] by (simp add: sorted_map)
  ultimately show ?thesis
    unfolding cooldown_respected_def sorted_wrt_iff_nth_less by (force simp: far_def apart_def)
qed

lemma stretch_respects:
  assumes "cooldown_respected ds cd slots" and "0 \<le> cd" and "0 < dur" and "dur \<le> 2 ^ 52"
    and "list_all (\<lambda>s. 0 \<le> rp_Offset s \<and> rp_Offset s < dur) slots"
  shows "cooldown_respected ds cd (stretch dur slots)"
proof -
  obtain y where y: "1 \<le> y" and s: "stretch dur slots = slots \<or>
      stretch dur slots = map (\<lambda>s. s\<lparr>rp_Offset := \<lfloor>rnd (of_int (rp_Offset s) * y)\<rfloor>\<rparr>) slots \<and>
      (\<forall>s \<in> set slots. of_int (rp_Offset s) * y < of_int dur \<and>
        0 \<le> rnd (of_int (rp_Offset s) * y) \<and> rnd (of_int (rp_Offset s) * y) < of_int dur)"
    by (rule stretch_map [OF assms(5,3,4)])
  let ?f = "\<lambda>s. s\<lparr>rp_Offset := \<lfloor>rnd (of_int (rp_Offset s) * y)\<rfloor>\<rparr>"
  have same: "targets_of ds (?f s) = targets_of ds s" for s by (simp add: targets_of_def)
  have "apart ds cd (?f a) (?f b)" if "apart ds cd a b" and ab: "a \<in> set slots" "b \<in> set slots"
    and lt: "of_int (rp_Offset b) * y < of_int dur" for a b
  proof (cases "set (targets_of ds a) \<inter> set (targets_of ds b) = {}")
    case True
    then show ?thesis by (simp add: apart_def same)
  next
    case False
    with that(1) have gap: "rp_Offset a + cd \<le> rp_Offset b" by (simp add: apart_def)
    have "of_int (rp_Offset a) * y + of_int cd \<le> of_int (rp_Offset a) * y + of_int cd * y"
      using y assms(2) by (simp add: mult_le_cancel_left1)
    also have "\<dots> = of_int (rp_Offset a + cd) * y" by (simp add: algebra_simps)
    also have "\<dots> \<le> of_int (rp_Offset b) * y" using gap y by (intro mult_right_mono) simp_all
    finally have le: "of_int (rp_Offset a) * y + of_int cd \<le> of_int (rp_Offset b) * y" .
    have "0 \<le> of_int (rp_Offset a) * y" using assms(5) ab(1) y by (auto simp: list_all_iff)
    moreover have "of_int (rp_Offset b) * y < 2 ^ 52"
    proof -
      have "rat_of_int dur \<le> of_int (2 ^ 52)" using assms(4) by (simp only: of_int_le_iff)
      with lt show ?thesis by simp
    qed
    ultimately have "\<lfloor>rnd (of_int (rp_Offset a) * y)\<rfloor> + cd \<le> \<lfloor>rnd (of_int (rp_Offset b) * y)\<rfloor>"
      by (rule floor_rnd_shift [OF _ assms(2) le])
    then show ?thesis by (simp add: apart_def)
  qed
  with assms(1) s show ?thesis
    unfolding cooldown_respected_def by (auto simp: sorted_wrt_map elim!: sorted_wrt_mono_rel [rotated])
qed

lemma pairs_in_replays:
  assumes "mset pairs = mset (replay_pairs ds)"
  shows "pairs_in ds pairs"
proof -
  have "set pairs = set (replay_pairs ds)" using assms by (metis set_mset_mset)
  moreover have "pa_design p < length ds" if "p \<in> set (replay_pairs ds)" for p
    using that by (auto simp: replay_pairs_def in_set_zip)
  ultimately show ?thesis by (simp add: pairs_in_def list_all_iff)
qed

lemma single_target_schedule:
  assumes "mset pairs = mset (replay_pairs ds)" and "distinct (map de_ID ds)" and "layout_fits ds cd"
    and "0 \<le> cd" and "0 < dur" and "dur \<le> 2 ^ 52" and "single_targets ds"
  shows "generateCooldownSchedule ds pairs dur cd \<noteq>
    Inl ''campaign: internal error: generated schedule violates per-target cooldown''"
proof (cases "list_ex (\<lambda>t. wrap64 ((int (count_list (pair_targets ds pairs) t) - 1) * cd) \<ge> dur) (pair_targets ds pairs)")
  case True
  then show ?thesis by (simp add: generateCooldownSchedule_def)
next
  case False
  let ?layout = "cooldown_layout ds cd [] pairs"
  have dur: "in_int64 dur" using assms(5,6) by (simp add: in_int64_def)
  have "fits dur cd ([] @ pair_targets ds pairs)"
    using fits_feasible [OF assms(1,3,4) False] by simp
  note b = layout_bounds [OF assms(4,5) dur this]
  note st = stretch_slots [OF slots_of_layout b assms(5,6)]
  have pin: "pairs_in ds pairs" by (rule pairs_in_replays [OF assms(1)])
  have len: "int (length ([] @ pair_targets ds pairs)) * cd < 2 ^ 63"
    using assms(3) mset_eq_length [OF pair_targets_mset [OF assms(1)]] by (simp add: layout_fits_def)
  have "cooldown_respected ds cd ?layout"
    using layout_single [OF assms(4,2,7) pin len] by simp
  then have resp: "cooldown_respected ds cd (sort_key rp_Offset (stretch dur ?layout))"
    by (intro sorted_respects stretch_respects assms b)
  have "in_range (sort_key rp_Offset (stretch dur ?layout))"
    using st(2) dur by (fastforce simp: in_range_def list_all_iff in_int64_def)
  moreover have "\<forall>d \<in> set ds. distinct (de_Targets d)"
    using assms(7) by (auto simp: single_targets_def list_all_iff length_Suc_conv)
  ultimately have "scheduleRespectsTargetCooldown (sort_key rp_Offset (stretch dur ?layout)) (designsByID ds) cd"
    using check_decides [OF assms(4,2)] resp by blast
  then show ?thesis by (simp add: generateCooldownSchedule_def Let_def)
qed

section \<open>When a schedule exists\<close>

lemma spaced_span:
  "sorted_wrt (\<lambda>a b. cd \<le> b - a) (x # xs) \<Longrightarrow> (\<forall>y \<in> set (x # xs). y < stop) \<Longrightarrow> x + int (length xs) * cd < stop"
proof (induction xs arbitrary: x)
  case Nil
  then show ?case by simp
next
  case (Cons y ys)
  then have "y + int (length ys) * cd < stop" "cd \<le> y - x" by simp_all
  then show ?case by (simp add: algebra_simps)
qed

definition slots_on :: "Design list \<Rightarrow> string \<Rightarrow> ReplaySlot list \<Rightarrow> ReplaySlot list" where
  "slots_on ds t slots = filter (\<lambda>s. t \<in> set (targets_of ds s)) slots"

lemma slots_on_span:
  assumes "cooldown_respected ds cd slots" and "list_all (\<lambda>s. 0 \<le> rp_Offset s \<and> rp_Offset s < dur) slots"
    and "slots_on ds t slots \<noteq> []"
  shows "(int (length (slots_on ds t slots)) - 1) * cd < dur"
proof -
  obtain s ss where s: "slots_on ds t slots = s # ss" using assms(3) by (cases "slots_on ds t slots") auto
  have "sorted_wrt (apart ds cd) (s # ss)"
    using assms(1) unfolding s [symmetric] slots_on_def cooldown_respected_def by (rule sorted_wrt_filter)
  moreover have on: "t \<in> set (targets_of ds u)" "u \<in> set slots" if "u \<in> set (s # ss)" for u
    using that unfolding s [symmetric] by (auto simp: slots_on_def)
  ultimately have "sorted_wrt (\<lambda>a b. cd \<le> rp_Offset b - rp_Offset a) (s # ss)"
    by (elim sorted_wrt_mono_rel [rotated]) (auto simp: apart_def)
  then have "sorted_wrt (\<lambda>a b. cd \<le> b - a) (rp_Offset s # map rp_Offset ss)"
    by (simp add: sorted_wrt_map)
  moreover have "\<forall>y \<in> set (rp_Offset s # map rp_Offset ss). y < dur" "0 \<le> rp_Offset s"
    using on(2) assms(2) by (auto simp: list_all_iff)
  ultimately show ?thesis using spaced_span [of cd "rp_Offset s" "map rp_Offset ss" dur] by (simp add: s)
qed

text \<open>The slots of a target are its replays.\<close>

lemma targets_of_ID: "rp_DesignID s = rp_DesignID s' \<Longrightarrow> targets_of ds s = targets_of ds s'"
  by (simp add: targets_of_def)

definition id_targets :: "Design list \<Rightarrow> string \<Rightarrow> string list" where
  "id_targets ds k = (case find (\<lambda>d. de_ID d = k) ds of None \<Rightarrow> [] | Some d \<Rightarrow> de_Targets d)"

lemma slots_on_count:
  assumes "mset (map (\<lambda>s. (rp_DesignID s, rp_Index s)) slots) = mset (replays_of ds)" and "distinct (map de_ID ds)"
    and "single_targets ds"
  shows "length (slots_on ds t slots) = count_list (pair_targets ds (replay_pairs ds)) t"
proof -
  have "length (slots_on ds t slots) = length (filter (\<lambda>(k, i). t \<in> set (id_targets ds k)) (map (\<lambda>s. (rp_DesignID s, rp_Index s)) slots))"
    by (simp add: slots_on_def targets_of_def id_targets_def filter_map comp_def)
  also have "\<dots> = size (filter_mset (\<lambda>(k, i). t \<in> set (id_targets ds k)) (mset (replays_of ds)))"
    unfolding assms(1) [symmetric] by (simp only: mset_filter [symmetric] size_mset)
  also have "\<dots> = length (filter (\<lambda>p. t \<in> set (de_Targets (ds ! pa_design p))) (replay_pairs ds))"
  proof -
    have "id_targets ds (de_ID (ds ! pa_design p)) = de_Targets (ds ! pa_design p)" if "p \<in> set (replay_pairs ds)" for p
    proof -
      have "pa_design p < length ds" using pairs_in_replays [OF refl, of ds] that by (simp add: pairs_in_def list_all_iff)
      from targets_of_slot [OF assms(2) this, of 0] show ?thesis by (simp add: targets_of_def id_targets_def slot_of_def)
    qed
    then have "filter ((\<lambda>(k, i). t \<in> set (id_targets ds k)) \<circ> (\<lambda>p. (de_ID (ds ! pa_design p), pa_replay p))) (replay_pairs ds) =
        filter (\<lambda>p. t \<in> set (de_Targets (ds ! pa_design p))) (replay_pairs ds)"
      by (intro filter_cong) simp_all
    then show ?thesis
      unfolding replay_pairs_replays [symmetric] mset_filter [symmetric] size_mset filter_map by simp
  qed
  also have "\<dots> = count_list (pair_targets ds (replay_pairs ds)) t"
  proof -
    have "length (filter (\<lambda>p. t \<in> set (de_Targets (ds ! pa_design p))) ps) = count_list (pair_targets ds ps) t"
      if "pairs_in ds ps" for ps
      using that
    proof (induction ps)
      case (Cons p ps)
      then have "pa_design p < length ds" by (simp add: pairs_in_def)
      from single_target_nth [OF assms(3) this] obtain u where "de_Targets (ds ! pa_design p) = [u]" by blast
      with Cons show ?case by (simp add: pair_targets_def pairs_in_def)
    qed (simp add: pair_targets_def)
    then show ?thesis using pairs_in_replays [OF refl] by blast
  qed
  finally show ?thesis .
qed

lemma schedule_feasible:
  assumes "schedule_ok ds dur cd slots" and "distinct (map de_ID ds)" and "single_targets ds"
  shows "fits dur cd (pair_targets ds (replay_pairs ds))"
  unfolding fits_def
proof
  fix t assume t: "t \<in> set (pair_targets ds (replay_pairs ds))"
  have s: "cooldown_respected ds cd slots" "list_all (\<lambda>s. 0 \<le> rp_Offset s \<and> rp_Offset s < dur) slots"
    "mset (map (\<lambda>s. (rp_DesignID s, rp_Index s)) slots) = mset (replays_of ds)"
    using assms(1) by (simp_all add: schedule_ok_def)
  note len = slots_on_count [OF s(3) assms(2,3), of t]
  have "0 < count_list (pair_targets ds (replay_pairs ds)) t" using t by (metis count_list_0_iff gr0I)
  then have "slots_on ds t slots \<noteq> []" using len by auto
  from slots_on_span [OF s(1,2) this] len
  show "(int (count_list (pair_targets ds (replay_pairs ds)) t) - 1) * cd < dur" by simp
qed

section \<open>Plans\<close>

lemma pair_targets_length:
  "length (pair_targets ds (replay_pairs ds)) = (\<Sum>d\<leftarrow>ds. nat (de_Replays d) * length (de_Targets d))"
proof -
  have flat: "length (pair_targets ds ps) = (\<Sum>p\<leftarrow>ps. length (de_Targets (ds ! pa_design p)))" for ps
    by (simp add: pair_targets_def length_concat comp_def)
  have nested: "sum_list (concat xss) = (\<Sum>xs\<leftarrow>xss. sum_list xs)" for xss :: "nat list list"
    by (induction xss) simp_all
  have "length (pair_targets ds (replay_pairs ds)) =
      (\<Sum>i\<leftarrow>[0..<length ds]. nat (de_Replays (ds ! i)) * length (de_Targets (ds ! i)))"
    unfolding flat replay_pairs_upt
    by (simp add: map_concat nested comp_def sum_list_triv)
  also have "\<dots> = (\<Sum>d\<leftarrow>map ((!) ds) [0..<length ds]. nat (de_Replays d) * length (de_Targets d))"
    by (simp only: map_map comp_def)
  finally show ?thesis by (simp only: map_nth)
qed

text \<open>The replays of a campaign, each on the whole pool at most, fit into the 64-bit range.\<close>

definition replays_fit :: "Campaign \<Rightarrow> bool" where
  "replays_fit c \<longleftrightarrow>
    int (\<Sum>cell\<leftarrow>enumerateCells c. nat (samples_for (ca_Sampling c) (cl_FailureType cell)) * length (ts_Pool (ca_Targets c)))
      * ca_Cooldown c < 2 ^ 63"

lemma targets_for_length:
  assumes "targets_for pool p ts" and "targets_ok tg" and "pool = ts_Pool tg" and "p \<in> set (ts_Patterns tg)"
  shows "length ts \<le> length pool"
proof -
  have "pool \<noteq> []" "p = ''two_random'' \<Longrightarrow> 2 \<le> length pool" using assms(2-4) by (auto simp: targets_ok_def)
  moreover from this(1) have "1 \<le> length pool" by (cases pool) auto
  ultimately show ?thesis using assms(1) by (auto simp: targets_for_def split: if_splits)
qed

lemma replays_fit_layout:
  assumes "campaign_ok c" and "designs_ok c ds" and "replays_fit c"
  shows "layout_fits ds (ca_Cooldown c)"
proof -
  let ?f = "\<lambda>cell. nat (samples_for (ca_Sampling c) (cl_FailureType cell)) * length (ts_Pool (ca_Targets c))"
  have len: "length ds = length (enumerateCells c)"
    and ok: "\<And>k. k < length ds \<Longrightarrow> design_ok c k (enumerateCells c ! k) (ds ! k)"
    using assms(2) by (auto simp: designs_ok_def list_all2_conv_all_nth nth_enumerate_eq)
  have "(\<Sum>d\<leftarrow>ds. nat (de_Replays d) * length (de_Targets d)) \<le> (\<Sum>cell\<leftarrow>enumerateCells c. ?f cell)"
    unfolding sum_list_sum_nth length_map len
  proof (rule sum_mono)
    fix k assume "k \<in> {0..<length (enumerateCells c)}"
    then have k: "k < length (enumerateCells c)" "k < length ds" using len by auto
    have "length (de_Targets (ds ! k)) \<le> length (ts_Pool (ca_Targets c))"
      using ok [OF k(2)] assms(1) cells_of_campaign(2) [OF nth_mem [OF k(1)]]
      by (intro targets_for_length [of _ "cl_HostPattern (enumerateCells c ! k)" _ "ca_Targets c"])
        (auto simp: design_ok_def campaign_ok_def)
    with ok [OF k(2)] k show "map (\<lambda>d. nat (de_Replays d) * length (de_Targets d)) ds ! k \<le> map ?f (enumerateCells c) ! k"
      by (simp add: design_ok_def)
  qed
  then have "int (length (pair_targets ds (replay_pairs ds))) * ca_Cooldown c \<le> int (\<Sum>cell\<leftarrow>enumerateCells c. ?f cell) * ca_Cooldown c"
    using assms(1) unfolding pair_targets_length by (intro mult_right_mono) (simp_all only: of_nat_le_iff campaign_ok_def)
  with assms(3) show ?thesis unfolding layout_fits_def replays_fit_def by linarith
qed

lemma plan_of_single_targets:
  assumes "random_ok rd" and "campaign_ok c" and "no_overflow c" and "replays_fit c"
    and "Millisecond \<le> ca_Duration c" and "ca_Duration c \<le> 2 ^ 52" and "set (ts_Patterns (ca_Targets c)) = {''single''}"
    and "sizes_fit c"
  shows "\<exists>ds. designs_ok c ds \<and>
    (if fits (ca_Duration c) (ca_Cooldown c) (pair_targets ds (replay_pairs ds))
     then \<exists>slots. Generate rd sha c seed = Inr \<lparr>pl_Designs = ds, pl_Schedule = slots\<rparr> \<and>
       schedule_ok ds (ca_Duration c) (ca_Cooldown c) slots
     else Generate rd sha c seed = Inl ''campaign: schedule infeasible'')"
proof -
  let ?dur = "ca_Duration c" and ?cd = "ca_Cooldown c"
  have dur: "0 < ?dur" "in_int64 ?dur" "0 \<le> ?cd" using assms(2) by (simp_all add: campaign_ok_def)
  obtain ds where ds: "designs_ok c ds" "ds \<noteq> []" "total_replays ds \<noteq> 0" and gen: "Generate rd sha c seed =
      rbind (generateSchedule rd sha ds ?dur ?cd seed) (\<lambda>schedule. Inr \<lparr>pl_Designs = ds, pl_Schedule = schedule\<rparr>)"
    using assms(8) by (rule_tac Generate_designs [OF assms(1,2,3), of sha seed]) blast+
  note reps = designs_replays(1) [OF ds(1)]
  have small: "\<not> 2 ^ 48 < 32 * replays_total ds"
    using assms(8) by (simp add: designs_replays(2) [OF ds(1)] sizes_fit_def)
  note dist = designs_ok_distinct [OF ds(1)] and lf = replays_fit_layout [OF assms(2) ds(1) assms(4)]
  have single: "single_targets ds"
    unfolding single_targets_def list_all_length
  proof (intro allI impI)
    fix k assume k: "k < length ds"
    then have "design_ok c k (enumerateCells c ! k) (ds ! k)" "k < length (enumerateCells c)"
      using ds(1) by (auto simp: designs_ok_nth)
    with cells_of_campaign(2) [OF nth_mem [OF this(2)]] assms(7) show "length (de_Targets (ds ! k)) = 1"
      by (simp add: design_ok_def targets_for_def)
  qed
  note ok = generateSchedule_ok [OF assms(1) ds(3,2) reps dist lf dur(3) assms(5,6), of sha seed]
  let ?fits = "fits ?dur ?cd (pair_targets ds (replay_pairs ds))"
  show ?thesis
  proof (cases rule: generateSchedule_cases [OF assms(1) ds(3,2) reps, of ?dur ?cd sha seed])
    case (1 pairs raw r1 r2)
    with ok have "schedule_ok ds ?dur ?cd (sort_key rp_Offset raw)" by simp
    with schedule_feasible [OF this dist single] ds(1) gen 1(4) show ?thesis by auto
  next
    case (2 pairs)
    note no_internal = single_target_schedule [OF 2(1) dist lf dur(3,1) assms(6) single]
    have same: "mset (pair_targets ds pairs) = mset (pair_targets ds (replay_pairs ds))" by (rule pair_targets_mset [OF 2(1)])
    show ?thesis
    proof (cases "generateCooldownSchedule ds pairs ?dur ?cd")
      case (Inr slots)
      with ok 2(3) have "schedule_ok ds ?dur ?cd slots" by simp
      with schedule_feasible [OF this dist single] ds(1) gen 2(3) Inr show ?thesis by auto
    next
      case (Inl e)
      with ok 2(3) no_internal small have e: "e = ''campaign: schedule infeasible''" by (auto simp: design_errors_def)
      have "\<not> ?fits"
      proof
        assume fits: ?fits
        have "\<not> list_ex (\<lambda>t. wrap64 ((int (count_list (pair_targets ds pairs) t) - 1) * ?cd) \<ge> ?dur) (pair_targets ds pairs)"
        proof -
          have "wrap64 ((int (count_list (pair_targets ds pairs) t) - 1) * ?cd) < ?dur" if t: "t \<in> set (pair_targets ds pairs)" for t
          proof -
            have "t \<in> set (pair_targets ds (replay_pairs ds))" using t same by (metis set_mset_mset)
            then have lt: "(int (count_list (pair_targets ds pairs) t) - 1) * ?cd < ?dur"
              using fits same by (simp add: fits_def flip: count_mset)
            have "0 < count_list (pair_targets ds pairs) t" using t by (metis count_list_0_iff gr0I)
            then have "0 \<le> (int (count_list (pair_targets ds pairs) t) - 1) * ?cd" using dur(3) by simp
            with lt dur(2) show ?thesis by (simp add: wrap64_id in_int64_def)
          qed
          then show ?thesis by (auto simp: list_ex_iff not_le)
        qed
        then show False using Inl e
          by (simp add: generateCooldownSchedule_def Let_def split: if_splits)
      qed
      with ds(1) gen 2(3) Inl e show ?thesis by auto
    qed
  next
    case 3
    with small show ?thesis by blast
  qed
qed

end
