(* ===== verification/Campaign_Properties.thy ===== *)
theory Campaign_Properties
  imports Campaign_Plans
begin

text \<open>
  The properties of campaigns: accepted files, generated designs, schedules and the feasibility of
  the cooldown, with one example campaign on which they are applied, and a campaign that is accepted
  although its samples are too many to be generated.
\<close>

section \<open>An example\<close>

definition ex_campaign_file :: craw where
  "ex_campaign_file =
    \<lparr>cr_ID = ''c1'', cr_Description = [], cr_Duration = ''2h'', cr_Seed = 7, cr_CheckFrequency = ''1m'', cr_GracePeriod = [],
     cr_Targets = \<lparr>rt_Pool = [''a.test'', ''b.test''], rt_Patterns = [''single'']\<rparr>,
     cr_DurationBuckets = [(''short'', \<lparr>rr_Min = ''1m'', rr_Max = ''2m''\<rparr>)],
     cr_Sampling = \<lparr>rs_Default = 2, rs_HighDiscrimination = []\<rparr>,
     cr_FailureTypes = [\<lparr>rft_Type = ''http_status'', rft_StatusCodeChoices = [500, 503], rft_MethodChoices = [], rft_PhaseChoices = [],
       rft_DelayRange = None, rft_ResponseTimeThreshold = [], rft_HeaderName = [], rft_HeaderValueChoices = [],
       rft_ContentChoices = [], rft_KeywordChoices = [], rft_DaysExpiredChoices = [], rft_DaysRemainingChoices = [],
       rft_VariantChoices = [], rft_ReasonChoices = []\<rparr>],
     cr_Escalation = Some \<lparr>re_Probability = Fin (1 / 2), re_StagesMin = 2, re_StagesMax = 3,
       re_InterStageRange = Some \<lparr>rr_Min = ''10s'', rr_Max = ''20s''\<rparr>, re_Patterns = []\<rparr>,
     cr_Budget = [], cr_Cooldown = ''10m''\<rparr>"

definition ex_campaign :: Campaign where
  "ex_campaign =
    \<lparr>ca_ID = ''c1'', ca_Description = [], ca_Duration = 7200000000000, ca_Seed = 7, ca_CheckFrequency = 60000000000,
     ca_GracePeriod = 180000000000, ca_Targets = \<lparr>ts_Pool = [''a.test'', ''b.test''], ts_Patterns = [''single'']\<rparr>,
     ca_DurationBuckets = [(''short'', \<lparr>dr_Min = 60000000000, dr_Max = 120000000000\<rparr>)],
     ca_Sampling = \<lparr>sm_Default = 2, sm_HighDiscrimination = []\<rparr>,
     ca_FailureTypes = [\<lparr>ft_Type = ''http_status'', ft_StatusCodeChoices = [500, 503], ft_MethodChoices = [], ft_PhaseChoices = [],
       ft_DelayRange = None, ft_Threshold = 0, ft_HeaderName = [], ft_HeaderValueChoices = [],
       ft_ContentChoices = [], ft_KeywordChoices = [], ft_DaysExpiredChoices = [], ft_DaysRemainingChoices = [],
       ft_VariantChoices = [], ft_ReasonChoices = []\<rparr>],
     ca_Escalation = Some \<lparr>es_Probability = Fin (1 / 2), es_StagesMin = 2, es_StagesMax = 3,
       es_InterStageRange = \<lparr>dr_Min = 10000000000, dr_Max = 20000000000\<rparr>, es_Patterns = [''layered'']\<rparr>,
     ca_Budget = [], ca_Cooldown = 600000000000\<rparr>"

definition first_choice :: random where
  "first_choice = \<lparr>rd_IntN = (\<lambda>r n. 0), rd_Int64N = (\<lambda>r n. 0), rd_Float64 = (\<lambda>r. 0)\<rparr>"

definition null_hash :: "string \<Rightarrow> byte list" where
  "null_hash s = replicate 32 0"

lemma ex_accepted: "validate_campaign ex_campaign_file = Inr ex_campaign"
  by code_simp

lemma first_choice_ok: "random_ok first_choice"
  by (simp add: random_ok_def first_choice_def)

lemma ex_no_overflow: "no_overflow ex_campaign"
  by (simp add: no_overflow_def ex_campaign_def in_int64_def)

lemma ex_replays_fit: "replays_fit ex_campaign"
  by code_simp

section \<open>Properties\<close>

text \<open>
  C35. A campaign file that passes validation gives a campaign that is well formed: positive
  durations, a pool for every pattern, ranges that are not empty, sampling that refers to declared
  types only, distinct failure types and an escalation with at least two stages.
\<close>

lemma accepted_campaign:
  assumes "validate_campaign r = Inr c"
  shows "campaign_ok c"
  using assms by (rule validate_campaign_ok)

lemma accepted_campaign_witness: "validate_campaign ex_campaign_file = Inr ex_campaign \<and> campaign_ok ex_campaign"
  using ex_accepted accepted_campaign [OF ex_accepted] by simp

text \<open>
  What the generator does with an accepted campaign. Counts whose slices cannot be allocated end in
  a panic of \<open>make\<close>, or, when their sum wraps to zero, in an error that says there are no samples.
\<close>

definition oversized :: "Campaign \<Rightarrow> string \<Rightarrow> bool" where
  "oversized c e \<longleftrightarrow> \<not> sizes_fit c \<and> e \<in> set oversize_errors"

lemma Generate_result:
  assumes "validate_campaign r = Inr c" and "random_ok rd" and "no_overflow c"
  shows "case Generate rd sha c seed of
      Inl e \<Rightarrow> e \<in> set design_errors \<and> 0 < ca_Cooldown c \<or> oversized c e
    | Inr plan \<Rightarrow> designs_ok c (pl_Designs plan) \<and> 32 * samples_total c \<le> 2 ^ 48"
proof -
  note ok = validate_campaign_ok [OF assms(1)]
  show ?thesis
  proof (cases rule: Generate_designs [OF assms(2) ok assms(3), of sha seed])
    case (1 ds)
    note reps = designs_replays [OF 1(1)]
    show ?thesis
    proof (cases rule: generateSchedule_cases [OF assms(2) 1(3,2) reps(1), of "ca_Duration c" "ca_Cooldown c" sha seed])
      case (1 pairs raw r1 r2)
      then show ?thesis using \<open>designs_ok c ds\<close> \<open>Generate rd sha c seed = _\<close> reps(2) by simp
    next
      case (2 pairs)
      then show ?thesis
        using \<open>designs_ok c ds\<close> \<open>Generate rd sha c seed = _\<close> reps(2)
        by (auto simp: generateCooldownSchedule_def Let_def design_errors_def)
    next
      case 3
      then show ?thesis
        using \<open>Generate rd sha c seed = _\<close> reps(2) by (simp add: oversized_def sizes_fit_def oversize_errors_def)
    qed
  next
    case (2 e)
    then show ?thesis by (simp add: oversized_def)
  qed
qed



text \<open>Validation accepts counts for which the generator cannot succeed.\<close>

definition huge_file :: craw where
  "huge_file = ex_campaign_file\<lparr>cr_Sampling := \<lparr>rs_Default = 10 ^ 15, rs_HighDiscrimination = []\<rparr>\<rparr>"

definition huge_campaign :: Campaign where
  "huge_campaign = ex_campaign\<lparr>ca_Sampling := \<lparr>sm_Default = 10 ^ 15, sm_HighDiscrimination = []\<rparr>\<rparr>"

lemma huge_accepted: "validate_campaign huge_file = Inr huge_campaign"
  by code_simp

lemma huge_campaign_fails:
  assumes "random_ok rd"
  shows "\<exists>e. Generate rd sha huge_campaign seed = Inl e \<and> (e \<in> set design_errors \<or> oversized huge_campaign e)"
proof -
  have "no_overflow huge_campaign" by (simp add: no_overflow_def huge_campaign_def ex_campaign_def in_int64_def)
  from Generate_result [OF huge_accepted assms this, of sha seed] show ?thesis
    by (cases "Generate rd sha huge_campaign seed")
      (auto simp: huge_campaign_def ex_campaign_def samples_total_def enumerateCells_def samples_for_def)
qed


lemma ex_duration: "Millisecond \<le> ca_Duration ex_campaign" "ca_Duration ex_campaign \<le> 2 ^ 52"
  by (simp_all add: ex_campaign_def)

lemma ex_sizes: "sizes_fit ex_campaign"
  by (simp add: sizes_fit_def samples_total_def ex_campaign_def enumerateCells_def samples_for_def)




section \<open>Designs with several targets\<close>

definition plain_design :: "nat \<Rightarrow> int \<Rightarrow> string list \<Rightarrow> Design" where
  "plain_design i n ts =
    \<lparr>de_ID = design_id i, de_Cell = \<lparr>cl_FailureType = ''http_status'', cl_DurationBucket = ''short'', cl_HostPattern = ''single''\<rparr>,
     de_Replays = n, de_Targets = ts, de_FailureType = ''http_status'', de_Duration = Minute, de_Params = [],
     de_Escalation = None, de_Seed = 0\<rparr>"

definition crossing :: "Design list" where
  "crossing = [plain_design 0 2 [''a''], plain_design 1 1 [''a'', ''b''], plain_design 2 2 [''b'']]"

definition crossing_slots :: "ReplaySlot list" where
  "crossing_slots =
    [\<lparr>rp_DesignID = design_id 0, rp_Index = 0, rp_Offset = 0\<rparr>, \<lparr>rp_DesignID = design_id 2, rp_Index = 0, rp_Offset = 0\<rparr>,
     \<lparr>rp_DesignID = design_id 1, rp_Index = 0, rp_Offset = Hour\<rparr>,
     \<lparr>rp_DesignID = design_id 0, rp_Index = 1, rp_Offset = 2 * Hour\<rparr>, \<lparr>rp_DesignID = design_id 2, rp_Index = 1, rp_Offset = 2 * Hour\<rparr>]"

lemma crossing_replays:
  "replays_of crossing = map (\<lambda>(i, k). (design_id i, k)) [(0, 0), (0, 1), (1, 0), (2, 0), (2, 1)]"
  by code_simp

lemma crossing_targets:
  "map (targets_of crossing) crossing_slots = [[''a''], [''b''], [''a'', ''b''], [''a''], [''b'']]"
  by code_simp

lemma crossing_schedule: "schedule_ok crossing (2 * Hour + 1) Hour crossing_slots"
proof -
  have "mset (map (\<lambda>s. (rp_DesignID s, rp_Index s)) crossing_slots) = mset (replays_of crossing)"
    unfolding crossing_replays crossing_slots_def by simp
  moreover have "sorted (map rp_Offset crossing_slots)"
    "list_all (\<lambda>s. 0 \<le> rp_Offset s \<and> rp_Offset s < 2 * Hour + 1) crossing_slots"
    by (simp_all add: crossing_slots_def)
  moreover have "cooldown_respected crossing Hour crossing_slots"
    using crossing_targets unfolding cooldown_respected_def crossing_slots_def by (simp add: apart_def)
  ultimately show ?thesis by (simp add: schedule_ok_def)
qed


end
