(* ===== verification/Campaign_Translate.thy ===== *)
theory Campaign_Translate
  imports Campaign_Properties
begin

text \<open>
  From a design to a scenario: \<open>src/internal/campaign/translate.go\<close>, and which failure types survive the
  way from a campaign file to a scenario. Values that errors only format are left out.
\<close>

section \<open>Parameters\<close>

definition prefix_error :: "string \<Rightarrow> 'a result \<Rightarrow> 'a result" where
  "prefix_error p r = (case r of Inl e \<Rightarrow> Inl (p @ '': '' @ e) | Inr x \<Rightarrow> Inr x)"

lemma prefix_error_Inr [simp]: "prefix_error p r = Inr x \<longleftrightarrow> r = Inr x"
  by (cases r) (simp_all add: prefix_error_def)

definition paramInt :: "params \<Rightarrow> string \<Rightarrow> int result" where
  "paramInt ps key =
    (case map_of ps key of
       None \<Rightarrow> Inl (''missing param '' @ key)
     | Some (VInt x) \<Rightarrow> Inr x
     | Some (VInt64 x) \<Rightarrow> Inr x
     | Some (VFloat x) \<Rightarrow> Inr (int64_of_float x)
     | Some _ \<Rightarrow> Inl (''param '' @ key @ '' has the wrong type, want int''))"

definition paramString :: "params \<Rightarrow> string \<Rightarrow> string result" where
  "paramString ps key =
    (case map_of ps key of
       None \<Rightarrow> Inl (''missing param '' @ key)
     | Some (VString s) \<Rightarrow> Inr s
     | Some _ \<Rightarrow> Inl (''param '' @ key @ '' has the wrong type, want string''))"

definition paramDuration :: "params \<Rightarrow> string \<Rightarrow> duration result" where
  "paramDuration ps key =
    (case map_of ps key of
       None \<Rightarrow> Inl (''missing param '' @ key)
     | Some (VDuration d) \<Rightarrow> Inr d
     | Some (VInt64 x) \<Rightarrow> Inr x
     | Some (VString s) \<Rightarrow> (case ParseDuration s of None \<Rightarrow> Inl (''param '' @ key @ '': invalid duration '' @ s) | Some d \<Rightarrow> Inr d)
     | Some _ \<Rightarrow> Inl (''param '' @ key @ '' has the wrong type, want time.Duration or string''))"

text \<open>An optional parameter: absent, or read like a required one.\<close>

definition optionalParam :: "(params \<Rightarrow> string \<Rightarrow> 'a result) \<Rightarrow> params \<Rightarrow> string \<Rightarrow> 'a option result" where
  "optionalParam get ps key = (case map_of ps key of None \<Rightarrow> Inr None | Some _ \<Rightarrow> rbind (get ps key) (\<lambda>x. Inr (Some x)))"

definition optionalParamInt :: "params \<Rightarrow> string \<Rightarrow> int option result" where
  "optionalParamInt = optionalParam paramInt"

definition optionalParamString :: "params \<Rightarrow> string \<Rightarrow> string option result" where
  "optionalParamString = optionalParam paramString"

definition optionalParamDuration :: "params \<Rightarrow> string \<Rightarrow> duration option result" where
  "optionalParamDuration = optionalParam paramDuration"

section \<open>Failures\<close>

definition empty_failure :: "string \<Rightarrow> duration \<Rightarrow> duration \<Rightarrow> Failure" where
  "empty_failure ty offset dur =
    \<lparr>f_Type = ty, f_Rate = Fin 1, f_Offset = offset, f_Duration = dur, f_StatusCode = 0, f_HeaderName = [], f_HeaderValue = [],
     f_Method = [], f_Phase = [], f_Delay = 0, f_TruncateAfterBytes = None, f_Variant = [], f_ChainLength = 0, f_Content = [],
     f_AddedLatency = 0, f_Mode = [], f_DaysExpired = 0, f_DaysRemaining = 0, f_Reason = [], f_Regions = []\<rparr>"

text \<open>\<open>if method, ok, err := optionalParamString(params, "method"); ...\<close>\<close>

definition with_optional :: "'a option result \<Rightarrow> ('a \<Rightarrow> Failure \<Rightarrow> Failure) \<Rightarrow> Failure \<Rightarrow> Failure result" where
  "with_optional r set_field f = rbind r (\<lambda>o1. case o1 of None \<Rightarrow> Inr f | Some x \<Rightarrow> Inr (set_field x f))"

definition with_method :: "params \<Rightarrow> Failure \<Rightarrow> Failure result" where
  "with_method ps f = with_optional (optionalParamString ps ''method'') (\<lambda>m f. f\<lparr>f_Method := m\<rparr>) f"

definition failure_params :: "string \<Rightarrow> params \<Rightarrow> Failure \<Rightarrow> Failure result" where
  "failure_params ty ps f =
    (if ty = ''http_status'' then rbind (paramInt ps ''status_code'') (\<lambda>code. Inr (f\<lparr>f_StatusCode := code\<rparr>))
     else if ty = ''http_method_status'' then
       rbind (paramInt ps ''status_code'') (\<lambda>code.
       rbind (paramString ps ''method'') (\<lambda>m. Inr (f\<lparr>f_StatusCode := code, f_Method := m\<rparr>)))
     else if ty = ''http_timeout'' then
       rbind (paramString ps ''phase'') (\<lambda>phase.
       rbind (paramDuration ps ''delay'') (\<lambda>delay. with_method ps (f\<lparr>f_Phase := phase, f_Delay := delay\<rparr>)))
     else if ty = ''http_latency'' then
       rbind (paramDuration ps ''delay'') (\<lambda>delay. with_method ps (f\<lparr>f_Delay := delay\<rparr>))
     else if ty = ''http_header_status'' then
       rbind (paramInt ps ''status_code'') (\<lambda>code.
       rbind (paramString ps ''header_name'') (\<lambda>name.
       rbind (with_optional (optionalParamString ps ''header_value'') (\<lambda>v f. f\<lparr>f_HeaderValue := v\<rparr>)
           (f\<lparr>f_StatusCode := code, f_HeaderName := name\<rparr>)) (\<lambda>f. with_method ps f)))
     else if ty = ''http_partial'' then with_method ps f
     else if ty = ''http_redirect'' then
       rbind (paramString ps ''variant'') (\<lambda>v.
       rbind (with_optional (optionalParamInt ps ''chain_length'') (\<lambda>n f. f\<lparr>f_ChainLength := n\<rparr>) (f\<lparr>f_Variant := v\<rparr>))
         (\<lambda>f. with_method ps f))
     else if ty = ''http_body'' then
       rbind (paramString ps ''content'') (\<lambda>c. with_method ps (f\<lparr>f_Content := c\<rparr>))
     else if ty \<in> {''tcp_refused'', ''tcp_timeout''} then Inr f
     else if ty \<in> {''dns_nxdomain'', ''dns_servfail'', ''dns_timeout'', ''dns_cname_nxdomain''} then Inr f
     else if ty = ''dns_latency'' then rbind (paramDuration ps ''added_latency'') (\<lambda>d. Inr (f\<lparr>f_AddedLatency := d\<rparr>))
     else if ty = ''dns_ns_unavailable'' then
       Inr (f\<lparr>f_Mode := (case paramString ps ''mode'' of Inl _ \<Rightarrow> [] | Inr m \<Rightarrow> m)\<rparr>)
     else if ty = ''tls_expired'' then with_optional (optionalParamInt ps ''days_expired'') (\<lambda>d f. f\<lparr>f_DaysExpired := d\<rparr>) f
     else if ty = ''tls_expiring'' then rbind (paramInt ps ''days_remaining'') (\<lambda>d. Inr (f\<lparr>f_DaysRemaining := d\<rparr>))
     else if ty = ''tls_invalid'' then with_optional (optionalParamString ps ''variant'') (\<lambda>v f. f\<lparr>f_Variant := v\<rparr>) f
     else if ty = ''tls_handshake'' then with_optional (optionalParamString ps ''reason'') (\<lambda>r f. f\<lparr>f_Reason := r\<rparr>) f
     else if ty = ''tls_deprecated'' then with_optional (optionalParamString ps ''variant'') (\<lambda>v f. f\<lparr>f_Variant := v\<rparr>) f
     else Inl ''unsupported failure_type'')"

definition failureFrom :: "string \<Rightarrow> params \<Rightarrow> duration \<Rightarrow> duration \<Rightarrow> Failure result" where
  "failureFrom ty ps offset dur =
    (if dur < 0 then Inl ''duration must be non-negative''
     else prefix_error ty (failure_params ty ps (empty_failure ty offset dur)))"

section \<open>Settings of the scenario\<close>

record translatedFailure =
  tf_Failure :: Failure
  tf_Params :: params

record body_state =
  bs_body :: bool
  bs_injected :: bool
  bs_keyword :: "string option"
  bs_check :: "string option"

definition take_keyword :: "translatedFailure \<Rightarrow> body_state \<Rightarrow> body_state result" where
  "take_keyword tf s =
    rbind (prefix_error ''http_body'' (optionalParamString (tf_Params tf) ''keyword'')) (\<lambda>kw.
      case kw of None \<Rightarrow> Inr s
      | Some kw \<Rightarrow>
          if kw = [] then Inl ''http_body: keyword must not be empty''
          else if bs_keyword s \<noteq> None \<and> bs_keyword s \<noteq> Some kw then Inl ''http_body: conflicting keyword params''
          else Inr (s\<lparr>bs_keyword := Some kw\<rparr>))"

definition take_check :: "translatedFailure \<Rightarrow> body_state \<Rightarrow> body_state result" where
  "take_check tf s =
    rbind (prefix_error ''http_body'' (optionalParamString (tf_Params tf) ''keyword_check'')) (\<lambda>check.
      case check of None \<Rightarrow> Inr s
      | Some check \<Rightarrow>
          if \<not> check_ok check then Inl ''http_body: keyword_check must be one of: present, absent''
          else if bs_check s \<noteq> None \<and> bs_check s \<noteq> Some check then Inl ''http_body: conflicting keyword_check params''
          else Inr (s\<lparr>bs_check := Some check\<rparr>))"

definition body_step :: "translatedFailure \<Rightarrow> body_state \<Rightarrow> body_state result" where
  "body_step tf s =
    (if f_Type (tf_Failure tf) \<noteq> ''http_body'' then Inr s
     else
       let s = s\<lparr>bs_body := True, bs_injected := bs_injected s \<or> f_Content (tf_Failure tf) = ''keyword_injected''\<rparr> in
       rbind (take_keyword tf s) (\<lambda>s. take_check tf s))"

fun body_loop :: "translatedFailure list \<Rightarrow> body_state \<Rightarrow> body_state result" where
  "body_loop [] s = Inr s"
| "body_loop (tf # tfs) s = rbind (body_step tf s) (\<lambda>s. body_loop tfs s)"

definition applyHTTPBodyDefaults :: "Scenario \<Rightarrow> translatedFailure list \<Rightarrow> Scenario result" where
  "applyHTTPBodyDefaults sc translated =
    rbind (body_loop translated \<lparr>bs_body = False, bs_injected = False, bs_keyword = None, bs_check = None\<rparr>) (\<lambda>s.
      if \<not> bs_body s then Inr sc
      else if bs_keyword s = None \<and> bs_injected s
      then Inl ''http_body: keyword is required when content is keyword_injected''
      else Inr (sc\<lparr>sc_Keyword := (case bs_keyword s of None \<Rightarrow> CanaryKeyword | Some kw \<Rightarrow> kw),
             sc_KeywordCheck := (case bs_check s of None \<Rightarrow> (if bs_injected s then ''absent'' else ''present'') | Some check \<Rightarrow> check)\<rparr>))"

definition fresh_host_types :: "string list" where
  "fresh_host_types = [''dns_nxdomain'', ''dns_servfail'', ''dns_timeout'', ''dns_cname_nxdomain'', ''dns_latency'', ''dns_ns_unavailable'']"

definition with_header :: "Failure \<Rightarrow> Scenario \<Rightarrow> Scenario" where
  "with_header f sc =
    (if f_Type f = ''http_header_status'' \<and> f_HeaderName f \<noteq> []
     then sc\<lparr>sc_RequestHeaders := AList.update (f_HeaderName f)
            (if f_HeaderValue f = [] then ''uptime-bench-campaign'' else f_HeaderValue f) (sc_RequestHeaders sc)\<rparr>
     else sc)"

definition scenario_params_step :: "translatedFailure \<Rightarrow> Scenario \<Rightarrow> Scenario result" where
  "scenario_params_step tf sc =
    (let f = tf_Failure tf;
         sc = (if f_Type f \<in> set fresh_host_types then sc\<lparr>sc_FreshHostname := True\<rparr> else sc) in
     rbind (prefix_error (f_Type f) (optionalParamDuration (tf_Params tf) ''response_time_threshold'')) (\<lambda>threshold.
       Inr (with_header f (case threshold of None \<Rightarrow> sc | Some t \<Rightarrow> sc\<lparr>sc_ResponseTimeThreshold := t\<rparr>))))"

fun applyScenarioLevelParams :: "Scenario \<Rightarrow> translatedFailure list \<Rightarrow> Scenario result" where
  "applyScenarioLevelParams sc [] = Inr sc"
| "applyScenarioLevelParams sc (tf # tfs) = rbind (scenario_params_step tf sc) (\<lambda>sc. applyScenarioLevelParams sc tfs)"

section \<open>Scenarios\<close>

definition translate_one :: "string \<Rightarrow> params \<Rightarrow> duration \<Rightarrow> duration \<Rightarrow> translatedFailure result" where
  "translate_one ty ps offset dur = rbind (failureFrom ty ps offset dur) (\<lambda>f. Inr \<lparr>tf_Failure = f, tf_Params = ps\<rparr>)"

fun translate_stages :: "string \<Rightarrow> nat \<Rightarrow> EscalationStage list \<Rightarrow> translatedFailure list result" where
  "translate_stages design i [] = Inr []"
| "translate_stages design i (st # sts) =
    rbind (prefix_error (''campaign: ToScenario: design '' @ design @ '' stage '' @ show_int (int i))
        (translate_one (st_FailureType st) (st_Params st) (st_Offset st) (st_Duration st))) (\<lambda>tf.
    rbind (translate_stages design (Suc i) sts) (\<lambda>tfs. Inr (tf # tfs)))"

definition design_description :: "Design \<Rightarrow> string" where
  "design_description d =
    ''auto-generated from campaign design '' @ de_ID d @ '' (cell '' @ cl_FailureType (de_Cell d) @ ''/'' @
    cl_DurationBucket (de_Cell d) @ ''/'' @ cl_HostPattern (de_Cell d) @ '')''"

definition ToScenario :: "Design \<Rightarrow> string \<Rightarrow> string list \<Rightarrow> duration \<Rightarrow> duration \<Rightarrow> Scenario result" where
  "ToScenario d scenarioID monitors checkFrequency gracePeriod =
    (case de_Targets d of
       [target] \<Rightarrow>
         let err = ''campaign: ToScenario: design '' @ de_ID d in
         rbind (case de_Escalation d of
                  None \<Rightarrow> rbind (translate_one (de_FailureType d) (de_Params d) 0 0) (\<lambda>tf. Inr [tf])
                | Some e \<Rightarrow> translate_stages (de_ID d) 0 (ed_Stages e)) (\<lambda>translated.
         rbind (prefix_error err (applyHTTPBodyDefaults
           \<lparr>sc_ID = scenarioID, sc_Version = ''1'', sc_Description = design_description d, sc_Target = target,
            sc_Monitors = monitors, sc_MonitorKind = [], sc_FreshHostname = False, sc_CheckFrequency = checkFrequency,
            sc_GracePeriod = gracePeriod, sc_Duration = de_Duration d, sc_Seed = Some (de_Seed d),
            sc_Failures = map tf_Failure translated, sc_Keyword = [], sc_KeywordCheck = [], sc_ResponseTimeThreshold = 0,
            sc_RequestHeaders = [], sc_Maintenance = None\<rparr> translated)) (\<lambda>sc.
         prefix_error err (applyScenarioLevelParams sc translated)))
     | _ \<Rightarrow> Inl (''campaign: ToScenario: design '' @ de_ID d @ '': multi-host scenarios are not yet supported by the scenario format''))"

section \<open>What the generator draws\<close>

definition chosen :: "float64 any option \<Rightarrow> ('a \<Rightarrow> float64 any) \<Rightarrow> 'a list \<Rightarrow> bool" where
  "chosen o1 f xs \<longleftrightarrow> (if xs = [] then o1 = None else \<exists>x \<in> set xs. o1 = Some (f x))"

definition params_for :: "FailureType \<Rightarrow> params \<Rightarrow> bool" where
  "params_for ft p \<longleftrightarrow>
    chosen (map_of p ''status_code'') VInt (ft_StatusCodeChoices ft) \<and>
    chosen (map_of p ''method'') VString (ft_MethodChoices ft) \<and>
    chosen (map_of p ''phase'') VString (ft_PhaseChoices ft) \<and>
    (case ft_DelayRange ft of None \<Rightarrow> map_of p ''delay'' = None
     | Some dr \<Rightarrow> \<exists>d. map_of p ''delay'' = Some (VDuration d) \<and> dr_Min dr \<le> d \<and> d \<le> dr_Max dr) \<and>
    map_of p ''response_time_threshold'' = (if ft_Threshold ft > 0 then Some (VDuration (ft_Threshold ft)) else None) \<and>
    map_of p ''header_name'' = (if ft_HeaderName ft \<noteq> [] then Some (VString (ft_HeaderName ft)) else None) \<and>
    chosen (map_of p ''header_value'') VString (ft_HeaderValueChoices ft) \<and>
    chosen (map_of p ''content'') VString (ft_ContentChoices ft) \<and>
    (if map_of p ''content'' = Some (VString ''keyword_injected'')
     then chosen (map_of p ''keyword'') VString (ft_KeywordChoices ft) else map_of p ''keyword'' = None) \<and>
    chosen (map_of p ''days_expired'') VInt (ft_DaysExpiredChoices ft) \<and>
    chosen (map_of p ''days_remaining'') VInt (ft_DaysRemainingChoices ft) \<and>
    chosen (map_of p ''variant'') VString (ft_VariantChoices ft) \<and>
    chosen (map_of p ''reason'') VString (ft_ReasonChoices ft) \<and>
    map_of p ''chain_length'' = None \<and> map_of p ''added_latency'' = None \<and> map_of p ''mode'' = None \<and>
    map_of p ''keyword_check'' = None"

text \<open>A draw adds one entry, or nothing.\<close>

definition extends :: "params \<Rightarrow> string \<Rightarrow> float64 any option \<Rightarrow> params \<Rightarrow> bool" where
  "extends p k o1 p' \<longleftrightarrow> map_of p' = (case o1 of None \<Rightarrow> map_of p | Some v \<Rightarrow> (map_of p)(k \<mapsto> v))"

definition or_else :: "'a option \<Rightarrow> 'a option \<Rightarrow> 'a option" where
  "or_else x y = (if x = None then y else x)"

lemma or_else_None [simp]: "or_else x None = x"
  by (simp add: or_else_def)

lemma extends_lookup:
  assumes "extends p k o1 p'"
  shows "map_of p' k' = (if k' = k then or_else o1 (map_of p k) else map_of p k')"
  using assms by (auto simp: extends_def or_else_def split: option.splits)

lemma yields_choice:
  assumes "random_ok rd"
  shows "yields (put_choice rd k f xs p) (\<lambda>p'. \<exists>o1. chosen o1 f xs \<and> extends p k o1 p')"
proof (cases "xs = []")
  case True
  then show ?thesis by (auto simp: put_choice_def chosen_def extends_def intro!: yields_ret)
next
  case False
  show ?thesis
    unfolding put_choice_def if_not_P [OF False]
  proof (rule yields_bind [OF yields_pick [OF assms False]])
    fix x assume "x \<in> set xs"
    with False show "yields (gret (AList.update k (f x) p)) (\<lambda>p'. \<exists>o1. chosen o1 f xs \<and> extends p k o1 p')"
      by (intro yields_ret exI [of _ "Some (f x)"]) (auto simp: chosen_def extends_def)
  qed
qed

definition delayed :: "DurationRange option \<Rightarrow> float64 any option \<Rightarrow> bool" where
  "delayed dro o1 \<longleftrightarrow> (case dro of None \<Rightarrow> o1 = None
     | Some dr \<Rightarrow> \<exists>d. o1 = Some (VDuration d) \<and> dr_Min dr \<le> d \<and> d \<le> dr_Max dr)"

lemma yields_delay:
  assumes "random_ok rd" and "case dro of None \<Rightarrow> True | Some dr \<Rightarrow> range_ok dr"
  shows "yields (case dro of None \<Rightarrow> gret p
      | Some dr \<Rightarrow> gbind (durationIn rd (dr_Min dr) (dr_Max dr)) (\<lambda>d. gret (AList.update ''delay'' (VDuration d) p)))
    (\<lambda>p'. \<exists>o1. delayed dro o1 \<and> extends p ''delay'' o1 p')"
proof (cases dro)
  case None
  then show ?thesis by (auto simp: delayed_def extends_def intro!: yields_ret)
next
  case (Some dr)
  with assms(2) have rng: "range_ok dr" by simp
  show ?thesis
    unfolding Some option.case
  proof (rule yields_bind [OF yields_durationIn [OF assms(1) rng]])
    fix d assume "dr_Min dr \<le> d \<and> d \<le> dr_Max dr"
    then show "yields (gret (AList.update ''delay'' (VDuration d) p)) (\<lambda>p'. \<exists>o1. delayed (Some dr) o1 \<and> extends p ''delay'' o1 p')"
      by (intro yields_ret exI [of _ "Some (VDuration d)"]) (auto simp: delayed_def extends_def)
  qed
qed

lemma extends_put: "extends p k (if b then Some v else None) (put b k v p)"
  by (simp add: extends_def put_def)

lemma yields_params:
  assumes "random_ok rd" and "failure_type_ok ft"
  shows "yields (pickFailureParams rd (Some ft)) (params_for ft)"
proof -
  note choice = yields_choice [OF assms(1)]
  have delay: "case ft_DelayRange ft of None \<Rightarrow> True | Some dr \<Rightarrow> range_ok dr"
    using assms(2) by (simp add: failure_type_ok_def)
  have keyword: "yields (if as_string (dget p ''content'') = ''keyword_injected''
        then put_choice rd ''keyword'' VString (ft_KeywordChoices ft) p else gret p)
      (\<lambda>p'. \<exists>o1. (if as_string (dget p ''content'') = ''keyword_injected'' then chosen o1 VString (ft_KeywordChoices ft) else o1 = None) \<and>
        extends p ''keyword'' o1 p')" for p
    using choice [of "''keyword''" VString "ft_KeywordChoices ft" p] by (auto intro!: yields_ret simp: extends_def)
  show ?thesis
    unfolding pickFailureParams_def option.case Let_def
  proof (rule yields_bind [OF choice], elim exE conjE)
    fix p1 o1 assume 1: "chosen o1 VInt (ft_StatusCodeChoices ft)" "extends [] ''status_code'' o1 p1"
    show "yields (gbind (put_choice rd ''method'' VString (ft_MethodChoices ft) p1) (\<lambda>p.
         gbind (put_choice rd ''phase'' VString (ft_PhaseChoices ft) p) (\<lambda>p.
         gbind (case ft_DelayRange ft of None \<Rightarrow> gret p
                | Some dr \<Rightarrow> gbind (durationIn rd (dr_Min dr) (dr_Max dr)) (\<lambda>d. gret (AList.update ''delay'' (VDuration d) p))) (\<lambda>p.
         gbind (put_choice rd ''header_value'' VString (ft_HeaderValueChoices ft)
             (put (ft_HeaderName ft \<noteq> []) ''header_name'' (VString (ft_HeaderName ft))
               (put (ft_Threshold ft > 0) ''response_time_threshold'' (VDuration (ft_Threshold ft)) p))) (\<lambda>p.
         gbind (put_choice rd ''content'' VString (ft_ContentChoices ft) p) (\<lambda>p.
         gbind (if as_string (dget p ''content'') = ''keyword_injected''
                then put_choice rd ''keyword'' VString (ft_KeywordChoices ft) p else gret p) (\<lambda>p.
         gbind (put_choice rd ''days_expired'' VInt (ft_DaysExpiredChoices ft) p) (\<lambda>p.
         gbind (put_choice rd ''days_remaining'' VInt (ft_DaysRemainingChoices ft) p) (\<lambda>p.
         gbind (put_choice rd ''variant'' VString (ft_VariantChoices ft) p) (\<lambda>p.
           put_choice rd ''reason'' VString (ft_ReasonChoices ft) p))))))))))
       (params_for ft)"
    proof (rule yields_bind [OF choice], elim exE conjE, rule yields_bind [OF choice], elim exE conjE,
        rule yields_bind [OF yields_delay [OF assms(1) delay]], elim exE conjE,
        rule yields_bind [OF choice], elim exE conjE, rule yields_bind [OF choice], elim exE conjE,
        rule yields_bind [OF keyword], elim exE conjE, rule yields_bind [OF choice], elim exE conjE,
        rule yields_bind [OF choice], elim exE conjE, rule yields_bind [OF choice], elim exE conjE,
        rule yields_weaken [OF choice], elim exE conjE)
      fix p2 p3 p4 p5 p6 p7 p8 p9 p10 p11 o2 o3 o4 o5 o6 o7 o8 o9 o10 o11
      assume c: "chosen o2 VString (ft_MethodChoices ft)" "chosen o3 VString (ft_PhaseChoices ft)" "delayed (ft_DelayRange ft) o4"
          "chosen o5 VString (ft_HeaderValueChoices ft)" "chosen o6 VString (ft_ContentChoices ft)"
          "if as_string (dget p6 ''content'') = ''keyword_injected'' then chosen o7 VString (ft_KeywordChoices ft) else o7 = None"
          "chosen o8 VInt (ft_DaysExpiredChoices ft)" "chosen o9 VInt (ft_DaysRemainingChoices ft)"
          "chosen o10 VString (ft_VariantChoices ft)" "chosen o11 VString (ft_ReasonChoices ft)"
        and e: "extends p1 ''method'' o2 p2" "extends p2 ''phase'' o3 p3" "extends p3 ''delay'' o4 p4"
          "extends (put (ft_HeaderName ft \<noteq> []) ''header_name'' (VString (ft_HeaderName ft))
               (put (ft_Threshold ft > 0) ''response_time_threshold'' (VDuration (ft_Threshold ft)) p4)) ''header_value'' o5 p5"
          "extends p5 ''content'' o6 p6" "extends p6 ''keyword'' o7 p7" "extends p7 ''days_expired'' o8 p8"
          "extends p8 ''days_remaining'' o9 p9" "extends p9 ''variant'' o10 p10" "extends p10 ''reason'' o11 p11"
      note look = extends_lookup [OF 1(2)] e [THEN extends_lookup] extends_put [THEN extends_lookup]
      have at: "map_of p11 ''status_code'' = o1" "map_of p11 ''method'' = o2" "map_of p11 ''phase'' = o3"
        "map_of p11 ''delay'' = o4" "map_of p11 ''header_value'' = o5" "map_of p11 ''content'' = o6"
        "map_of p11 ''keyword'' = o7" "map_of p11 ''days_expired'' = o8" "map_of p11 ''days_remaining'' = o9"
        "map_of p11 ''variant'' = o10" "map_of p11 ''reason'' = o11"
        "map_of p11 ''response_time_threshold'' = (if ft_Threshold ft > 0 then Some (VDuration (ft_Threshold ft)) else None)"
        "map_of p11 ''header_name'' = (if ft_HeaderName ft \<noteq> [] then Some (VString (ft_HeaderName ft)) else None)"
        "map_of p11 ''chain_length'' = None" "map_of p11 ''added_latency'' = None" "map_of p11 ''mode'' = None"
        "map_of p11 ''keyword_check'' = None" "map_of p6 ''content'' = o6"
        by (simp_all add: look)
      have "as_string (dget p6 ''content'') = ''keyword_injected'' \<longleftrightarrow> o6 = Some (VString ''keyword_injected'')"
        using c(5) by (auto simp: dget_def at(18) chosen_def as_string_def split: if_splits)
      then have kw: "if o6 = Some (VString ''keyword_injected'') then chosen o7 VString (ft_KeywordChoices ft) else o7 = None"
        using c(6) by (simp only:)
      show "params_for ft p11"
        unfolding params_for_def at using 1(1) c(1-5,7-10) kw by (simp add: delayed_def)
    qed
  qed
qed

section \<open>Which failure types can be translated\<close>

definition translatable :: "FailureType \<Rightarrow> bool" where
  "translatable ft \<longleftrightarrow> ft_Type ft \<in> set failure_types \<and> ft_Type ft \<noteq> ''dns_latency'' \<and>
    (ft_Type ft = ''http_status'' \<longrightarrow> ft_StatusCodeChoices ft \<noteq> []) \<and>
    (ft_Type ft = ''http_body'' \<longrightarrow> ft_ContentChoices ft \<noteq> []) \<and>
    (ft_Type ft = ''tls_expiring'' \<longrightarrow> ft_DaysRemainingChoices ft \<noteq> [])"

lemma isl_rbind: "isl (rbind m f) \<longleftrightarrow> isl m \<or> isl (f (projr m))"
  by (cases m) (simp_all add: rbind_def)

lemma isl_prefix_error [simp]: "isl (prefix_error s r) \<longleftrightarrow> isl r"
  by (cases r) (simp_all add: prefix_error_def)

lemma paramInt_chosen: "chosen (map_of p k) VInt xs \<Longrightarrow> isl (paramInt p k) \<longleftrightarrow> xs = []"
  by (auto simp: chosen_def paramInt_def split: if_splits)

lemma paramString_chosen: "chosen (map_of p k) VString xs \<Longrightarrow> isl (paramString p k) \<longleftrightarrow> xs = []"
  by (auto simp: chosen_def paramString_def split: if_splits)

lemma optionalString_chosen: "chosen (map_of p k) VString xs \<Longrightarrow> \<not> isl (optionalParamString p k)"
  by (auto simp: chosen_def optionalParamString_def optionalParam_def paramString_def split: if_splits)

lemma optionalInt_chosen: "chosen (map_of p k) VInt xs \<Longrightarrow> \<not> isl (optionalParamInt p k)"
  by (auto simp: chosen_def optionalParamInt_def optionalParam_def paramInt_def split: if_splits)

lemma isl_with_optional: "isl (with_optional r g f) \<longleftrightarrow> isl r"
  by (auto simp: with_optional_def isl_rbind split: sum.splits option.splits)

lemma failure_params_translatable:
  assumes "params_for ft p" and "validate_needs j ft = Inr ()"
  shows "isl (failure_params (ft_Type ft) p f) \<longleftrightarrow> \<not> translatable ft"
proof -
  note c = assms(1) [unfolded params_for_def]
  have code: "isl (paramInt p ''status_code'') \<longleftrightarrow> ft_StatusCodeChoices ft = []"
    and meth: "isl (paramString p ''method'') \<longleftrightarrow> ft_MethodChoices ft = []" and phase: "isl (paramString p ''phase'') \<longleftrightarrow> ft_PhaseChoices ft = []"
    and content: "isl (paramString p ''content'') \<longleftrightarrow> ft_ContentChoices ft = []"
    and days: "isl (paramInt p ''days_remaining'') \<longleftrightarrow> ft_DaysRemainingChoices ft = []"
    and var: "isl (paramString p ''variant'') \<longleftrightarrow> ft_VariantChoices ft = []"
    and opt: "\<not> isl (optionalParamString p ''method'')" "\<not> isl (optionalParamString p ''header_value'')"
      "\<not> isl (optionalParamString p ''variant'')" "\<not> isl (optionalParamString p ''reason'')"
      "\<not> isl (optionalParamInt p ''days_expired'')"
    using c by (auto intro!: paramInt_chosen paramString_chosen dest: optionalString_chosen optionalInt_chosen)
  have delay: "isl (paramDuration p ''delay'') \<longleftrightarrow> ft_DelayRange ft = None"
    using c by (cases "ft_DelayRange ft") (auto simp: paramDuration_def)
  have latency: "isl (paramDuration p ''added_latency'')" and chain: "\<not> isl (optionalParamInt p ''chain_length'')"
    using c by (simp_all add: paramDuration_def optionalParamInt_def optionalParam_def)
  have name: "isl (paramString p ''header_name'') \<longleftrightarrow> ft_HeaderName ft = []"
    using c by (auto simp: paramString_def split: if_splits)
  note eval = failure_params_def isl_rbind isl_with_optional with_method_def code meth phase content days var opt
    delay latency chain name translatable_def
  show ?thesis
  proof (cases "ft_Type ft \<in> set failure_types")
    case False
    then show ?thesis by (simp add: failure_params_def translatable_def failure_types_def)
  next
    case True
    then show ?thesis
      using assms(2) unfolding failure_types_def list.set insert_iff empty_iff
      by (elim disjE) (simp_all add: eval validate_needs_def Let_def failure_types_def guard_Inr_iff)
  qed
qed

lemma campaign_needs:
  assumes "validate_campaign r = Inr c" and "ft \<in> set (ca_FailureTypes c)"
  shows "\<exists>j. validate_needs j ft = Inr ()"
proof -
  have "validateFailureTypes (cr_FailureTypes r) = Inr (ca_FailureTypes c)"
    using assms(1) unfolding validate_campaign_def guard_Inr_iff rbind_Inr_iff by (elim exE conjE) auto
  then have "list_all (\<lambda>ft. \<exists>j. validate_needs j ft = Inr ()) (ca_FailureTypes c)"
    using failure_types_loop_ok by (fastforce simp: validateFailureTypes_def guard_Inr_iff)
  with assms(2) show ?thesis by (auto simp: list_all_iff)
qed

lemma not_isl_Inr: "\<not> isl r \<longleftrightarrow> (\<exists>x. r = Inr x)"
  by (cases r) auto

lemma draws_translate:
  assumes "validate_campaign r = Inr c" and "random_ok rd" and "ft \<in> set (ca_FailureTypes c)" and "0 \<le> dur"
  shows "yields (pickFailureParams rd (Some ft)) (\<lambda>ps. params_for ft ps \<and>
    ((\<exists>f. failureFrom (ft_Type ft) ps offset dur = Inr f) \<longleftrightarrow> translatable ft))"
proof -
  have ok: "failure_type_ok ft"
    using validate_campaign_ok [OF assms(1)] assms(3) by (auto simp: campaign_ok_def list_all_iff)
  obtain j where j: "validate_needs j ft = Inr ()" using campaign_needs [OF assms(1,3)] by blast
  have "(\<exists>f. failureFrom (ft_Type ft) ps offset dur = Inr f) \<longleftrightarrow> translatable ft" if "params_for ft ps" for ps
    using failure_params_translatable [OF that j] assms(4)
    by (simp add: failureFrom_def not_isl_Inr [symmetric])
  then show ?thesis by (intro yields_weaken [OF yields_params [OF assms(2) ok]]) blast
qed

section \<open>Scenarios without escalation\<close>

definition keeps :: "Failure \<Rightarrow> Failure \<Rightarrow> bool" where
  "keeps f g \<longleftrightarrow> f_Type g = f_Type f \<and> f_Offset g = f_Offset f \<and> f_Duration g = f_Duration f \<and> f_Rate g = f_Rate f"

lemma with_optional_iff:
  "with_optional r h f = Inr g \<longleftrightarrow> (\<exists>o1. r = Inr o1 \<and> g = (case o1 of None \<Rightarrow> f | Some x \<Rightarrow> h x f))"
  by (auto simp: with_optional_def split: option.splits)

lemma with_method_keeps: "with_method ps f = Inr g \<Longrightarrow> keeps f g \<and> f_Content g = f_Content f"
  by (auto simp: with_method_def with_optional_iff keeps_def split: option.splits)

lemma failure_params_keeps:
  assumes "failure_params ty ps f = Inr g"
  shows "keeps f g \<and> (ty = ''http_body'' \<longrightarrow> paramString ps ''content'' = Inr (f_Content g))"
proof -
  have "ty \<in> set failure_types"
    using assms by (rule contrapos_pp) (simp add: failure_params_def failure_types_def)
  then show ?thesis
    using assms unfolding failure_types_def list.set insert_iff empty_iff
    by (elim disjE) (auto simp: failure_params_def with_optional_iff keeps_def split: option.splits dest!: with_method_keeps)
qed

lemma failureFrom_fields:
  assumes "failureFrom ty ps offset dur = Inr f"
  shows "f_Type f = ty \<and> f_Offset f = offset \<and> f_Duration f = dur \<and> f_Rate f = Fin 1 \<and>
    (ty = ''http_body'' \<longrightarrow> paramString ps ''content'' = Inr (f_Content f))"
proof -
  have "failure_params ty ps (empty_failure ty offset dur) = Inr f" using assms by (simp add: failureFrom_def split: if_splits)
  from failure_params_keeps [OF this] show ?thesis by (simp add: keeps_def empty_failure_def)
qed

lemma settings_of_single:
  assumes "params_for ft ps" and "failure_type_ok ft" and "failureFrom (ft_Type ft) ps 0 0 = Inr f"
  shows "\<exists>sc'. applyHTTPBodyDefaults sc [\<lparr>tf_Failure = f, tf_Params = ps\<rparr>] = Inr sc'"
proof (cases "ft_Type ft = ''http_body''")
  case False
  then show ?thesis
    using failureFrom_fields [OF assms(3)] by (simp add: applyHTTPBodyDefaults_def body_step_def take_keyword_def take_check_def)
next
  case True
  note fields = failureFrom_fields [OF assms(3)] and c = assms(1) [unfolded params_for_def]
  have check: "optionalParamString ps ''keyword_check'' = Inr None"
    using c by (simp add: optionalParamString_def optionalParam_def)
  have content: "paramString ps ''content'' = Inr (f_Content f)" using fields True by simp
  then have at: "map_of ps ''content'' = Some (VString (f_Content f))"
    by (auto simp: paramString_def split: option.splits any.splits)
  show ?thesis
  proof (cases "f_Content f = ''keyword_injected''")
    case False
    then have "map_of ps ''keyword'' = None" using c at by simp
    then have "optionalParamString ps ''keyword'' = Inr None" by (simp add: optionalParamString_def optionalParam_def)
    then show ?thesis
      using fields True False check by (simp add: applyHTTPBodyDefaults_def body_step_def take_keyword_def take_check_def prefix_error_def)
  next
    case injected: True
    have "f_Content f \<in> set (ft_ContentChoices ft)" using c at by (auto simp: chosen_def split: if_splits)
    then have "ft_KeywordChoices ft \<noteq> []" using assms(2) True injected by (auto simp: failure_type_ok_def)
    moreover have "chosen (map_of ps ''keyword'') VString (ft_KeywordChoices ft)" using c at injected by simp
    ultimately obtain kw where kw: "map_of ps ''keyword'' = Some (VString kw)" "kw \<in> set (ft_KeywordChoices ft)"
      by (auto simp: chosen_def)
    moreover have "kw \<noteq> []" using assms(2) kw(2) by (auto simp: failure_type_ok_def list_all_iff)
    ultimately show ?thesis
      using fields True check
      by (simp add: applyHTTPBodyDefaults_def body_step_def take_keyword_def take_check_def prefix_error_def optionalParamString_def optionalParam_def paramString_def)
  qed
qed

lemma level_of_single:
  assumes "params_for ft ps"
  shows "\<exists>sc'. applyScenarioLevelParams sc [\<lparr>tf_Failure = f, tf_Params = ps\<rparr>] = Inr sc'"
proof -
  have "\<exists>o1. optionalParamDuration ps ''response_time_threshold'' = Inr o1"
    using assms by (auto simp: params_for_def optionalParamDuration_def optionalParam_def paramDuration_def)
  then have "\<not> isl (optionalParamDuration ps ''response_time_threshold'')" by auto
  then show ?thesis
    unfolding not_isl_Inr [symmetric] by (simp add: scenario_params_step_def Let_def isl_rbind)
qed

lemma single_ToScenario:
  assumes "params_for ft (de_Params d)" and "failure_type_ok ft" and "de_FailureType d = ft_Type ft"
    and "length (de_Targets d) = 1" and "de_Escalation d = None"
  shows "(\<exists>sc. ToScenario d sid monitors cf gp = Inr sc) \<longleftrightarrow> (\<exists>f. failureFrom (ft_Type ft) (de_Params d) 0 0 = Inr f)"
proof -
  obtain t where t: "de_Targets d = [t]" using assms(4) by (cases "de_Targets d") auto
  show ?thesis
  proof (cases "failureFrom (ft_Type ft) (de_Params d) 0 0")
    case (Inl e)
    then show ?thesis by (simp add: ToScenario_def t assms(3,5) translate_one_def Let_def)
  next
    case (Inr f)
    let ?tf = "\<lparr>tf_Failure = f, tf_Params = de_Params d\<rparr>"
    have "\<exists>sc2. rbind (prefix_error e1 (applyHTTPBodyDefaults sc [?tf])) (\<lambda>sc. prefix_error e2 (applyScenarioLevelParams sc [?tf])) = Inr sc2" for e1 e2 sc
    proof -
      obtain sc1 where 1: "applyHTTPBodyDefaults sc [?tf] = Inr sc1"
        using settings_of_single [OF assms(1,2) Inr] by blast
      obtain sc2 where "applyScenarioLevelParams sc1 [?tf] = Inr sc2" using level_of_single [OF assms(1)] by blast
      with 1 show ?thesis by simp
    qed
    then show ?thesis
      using Inr unfolding ToScenario_def t list.case assms(3,5) option.case translate_one_def Let_def by simp
  qed
qed

lemma design_translates:
  assumes "validate_campaign r = Inr c" and "random_ok rd" and "ca_Escalation c = None"
    and "cell \<in> set (enumerateCells c)" and "cl_HostPattern cell = ''single''"
    and "failureTypeByName c (cl_FailureType cell) = Some ft"
  shows "\<exists>d. generateDesign rd sha c cell samples (Some ft) seed idx = Inr d \<and>
    ((\<exists>sc. ToScenario d sid monitors cf gp = Inr sc) \<longleftrightarrow> translatable ft)"
proof -
  note ok = validate_campaign_ok [OF assms(1)]
  have ft: "ft \<in> set (ca_FailureTypes c)" "ft_Type ft = cl_FailureType cell"
    using assms(6) by (auto simp: failureTypeByName_def find_Some_iff)
  have ftok: "failure_type_ok ft" using ok ft(1) by (auto simp: campaign_ok_def list_all_iff)
  let ?b = "bucket_of c (cl_DurationBucket cell)"
  obtain n where "(n, ?b) \<in> set (ca_DurationBuckets c)"
    using bucket_of_declared [OF cells_of_campaign(1) [OF assms(4)]] by blast
  then have rng: "range_ok ?b" using ok by (auto simp: campaign_ok_def list_all_iff)
  have tg: "targets_ok (ca_Targets c)" using ok by (simp add: campaign_ok_def)
  have none: "add_escalation rd c d = gret d" for d by (simp add: add_escalation_def assms(3))
  have result: "(\<exists>sc. ToScenario \<lparr>de_ID = design_id idx, de_Cell = cell, de_Replays = samples, de_Targets = targets,
            de_FailureType = cl_FailureType cell, de_Duration = dur, de_Params = ps, de_Escalation = None, de_Seed = seed\<rparr>
            sid monitors cf gp = Inr sc) \<longleftrightarrow> translatable ft"
    if "targets_for (ts_Pool (ca_Targets c)) (cl_HostPattern cell) targets"
      "params_for ft ps \<and> ((\<exists>f. failureFrom (ft_Type ft) ps 0 0 = Inr f) \<longleftrightarrow> translatable ft)" for targets dur ps
    using that ft(2) assms(5) by (subst single_ToScenario [where ft = ft]) (simp_all add: ftok targets_for_def)
  show ?thesis
    unfolding generateDesign_def Let_def none
    by (rule gen_runs,
        rule yields_bind [OF yields_durationIn [OF assms(2) rng]],
        rule yields_bind [OF yields_pickTargets [OF assms(2) tg cells_of_campaign(2) [OF assms(4)]]],
        rule yields_bind [OF draws_translate [OF assms(1,2) ft(1) order_refl]],
        rule yields_ret, rule result) auto
qed

section \<open>What a translated scenario carries\<close>

text \<open>The stages of a design, or its only failure: type, offset and duration.\<close>

definition stage_list :: "Design \<Rightarrow> (string \<times> duration \<times> duration) list" where
  "stage_list d = (case de_Escalation d of None \<Rightarrow> [(de_FailureType d, 0, 0)]
     | Some e \<Rightarrow> map (\<lambda>st. (st_FailureType st, st_Offset st, st_Duration st)) (ed_Stages e))"

definition carries :: "Failure list \<Rightarrow> (string \<times> duration \<times> duration) list \<Rightarrow> bool" where
  "carries fs sts \<longleftrightarrow> list_all2 (\<lambda>f (ty, offset, dur). f_Type f = ty \<and> f_Offset f = offset \<and> f_Duration f = dur \<and> f_Rate f = Fin 1) fs sts"

lemma translate_stages_carries:
  "translate_stages did i sts = Inr tfs \<Longrightarrow>
    carries (map tf_Failure tfs) (map (\<lambda>st. (st_FailureType st, st_Offset st, st_Duration st)) sts)"
proof (induction sts arbitrary: i tfs)
  case Nil
  then show ?case by (simp add: carries_def)
next
  case (Cons st sts)
  then obtain f rest where f: "failureFrom (st_FailureType st) (st_Params st) (st_Offset st) (st_Duration st) = Inr f"
    and rest: "translate_stages did (Suc i) sts = Inr rest" and tfs: "tfs = \<lparr>tf_Failure = f, tf_Params = st_Params st\<rparr> # rest"
    by (auto simp: translate_one_def)
  show ?case using failureFrom_fields [OF f] Cons.IH [OF rest] by (simp add: carries_def tfs)
qed

text \<open>The settings of the scenario that the two last steps leave alone.\<close>

definition same_run :: "Scenario \<Rightarrow> Scenario \<Rightarrow> bool" where
  "same_run sc sc' \<longleftrightarrow> sc_ID sc' = sc_ID sc \<and> sc_Target sc' = sc_Target sc \<and> sc_Monitors sc' = sc_Monitors sc \<and>
    sc_CheckFrequency sc' = sc_CheckFrequency sc \<and> sc_GracePeriod sc' = sc_GracePeriod sc \<and>
    sc_Duration sc' = sc_Duration sc \<and> sc_Seed sc' = sc_Seed sc \<and> sc_Failures sc' = sc_Failures sc \<and>
    sc_Maintenance sc' = sc_Maintenance sc"

lemma same_run_trans: "same_run a b \<Longrightarrow> same_run b c \<Longrightarrow> same_run a c"
  by (simp add: same_run_def)

lemma take_keyword_flags: "take_keyword tf s = Inr s' \<Longrightarrow> bs_body s' = bs_body s \<and> bs_injected s' = bs_injected s"
  by (cases "optionalParamString (tf_Params tf) ''keyword''")
    (auto simp: take_keyword_def prefix_error_def split: option.splits if_splits)

lemma take_check_flags: "take_check tf s = Inr s' \<Longrightarrow> bs_body s' = bs_body s \<and> bs_injected s' = bs_injected s"
  by (cases "optionalParamString (tf_Params tf) ''keyword_check''")
    (auto simp: take_check_def prefix_error_def split: option.splits if_splits)

lemma body_loop_flags:
  "body_loop tfs s = Inr s' \<Longrightarrow> bs_body s' = (bs_body s \<or> has_content (map tf_Failure tfs)) \<and>
    bs_injected s' = (bs_injected s \<or> has_injected (map tf_Failure tfs))"
proof (induction tfs arbitrary: s)
  case Nil
  then show ?case by (simp add: has_content_def has_injected_def)
next
  case (Cons tf tfs)
  then obtain s1 where s1: "body_step tf s = Inr s1" "body_loop tfs s1 = Inr s'" by auto
  have "bs_body s1 = (bs_body s \<or> f_Type (tf_Failure tf) = ''http_body'') \<and>
      bs_injected s1 = (bs_injected s \<or> f_Type (tf_Failure tf) = ''http_body'' \<and> f_Content (tf_Failure tf) = ''keyword_injected'')"
    using s1(1) by (auto simp: body_step_def Let_def split: if_splits dest!: take_keyword_flags take_check_flags)
  with Cons.IH [OF s1(2)] show ?case by (auto simp: has_content_def has_injected_def)
qed

lemma body_defaults_spec:
  assumes "applyHTTPBodyDefaults sc tfs = Inr sc'"
  shows "same_run sc sc' \<and> sc_FreshHostname sc' = sc_FreshHostname sc \<and>
    (if has_content (map tf_Failure tfs) then True else sc_Keyword sc' = sc_Keyword sc \<and> sc_KeywordCheck sc' = sc_KeywordCheck sc)"
proof -
  obtain s where "body_loop tfs \<lparr>bs_body = False, bs_injected = False, bs_keyword = None, bs_check = None\<rparr> = Inr s"
    and "(if \<not> bs_body s then Inr sc
      else if bs_keyword s = None \<and> bs_injected s
      then Inl ''http_body: keyword is required when content is keyword_injected''
      else Inr (sc\<lparr>sc_Keyword := (case bs_keyword s of None \<Rightarrow> CanaryKeyword | Some kw \<Rightarrow> kw),
             sc_KeywordCheck := (case bs_check s of None \<Rightarrow> (if bs_injected s then ''absent'' else ''present'') | Some check \<Rightarrow> check)\<rparr>)) = Inr sc'"
    using assms unfolding applyHTTPBodyDefaults_def rbind_Inr_iff by blast
  with body_loop_flags [OF this(1)] show ?thesis by (auto simp: same_run_def split: if_splits)
qed

definition same_keyword :: "Scenario \<Rightarrow> Scenario \<Rightarrow> bool" where
  "same_keyword sc sc' \<longleftrightarrow> same_run sc sc' \<and> sc_Keyword sc' = sc_Keyword sc \<and> sc_KeywordCheck sc' = sc_KeywordCheck sc"

lemma same_keyword_with_header: "same_keyword sc (with_header f sc) \<and> sc_FreshHostname (with_header f sc) = sc_FreshHostname sc"
  by (simp add: same_keyword_def same_run_def with_header_def)

lemma level_step_spec:
  assumes "scenario_params_step tf sc = Inr sc'"
  shows "same_keyword sc sc' \<and>
    sc_FreshHostname sc' = (sc_FreshHostname sc \<or> f_Type (tf_Failure tf) \<in> set fresh_host_types)"
proof -
  let ?dns = "f_Type (tf_Failure tf) \<in> set fresh_host_types"
  obtain o1 where "sc' = with_header (tf_Failure tf)
      (case o1 of None \<Rightarrow> (if ?dns then sc\<lparr>sc_FreshHostname := True\<rparr> else sc)
       | Some t \<Rightarrow> (if ?dns then sc\<lparr>sc_FreshHostname := True\<rparr> else sc)\<lparr>sc_ResponseTimeThreshold := t\<rparr>)"
    using assms unfolding scenario_params_step_def Let_def rbind_Inr_iff by blast
  then obtain sc2 where sc': "sc' = with_header (tf_Failure tf) sc2"
    and sc2: "sc2 = (case o1 of None \<Rightarrow> (if ?dns then sc\<lparr>sc_FreshHostname := True\<rparr> else sc)
       | Some t \<Rightarrow> (if ?dns then sc\<lparr>sc_FreshHostname := True\<rparr> else sc)\<lparr>sc_ResponseTimeThreshold := t\<rparr>)" by blast
  have "same_keyword sc sc2 \<and> sc_FreshHostname sc2 = (sc_FreshHostname sc \<or> ?dns)"
    unfolding sc2 by (cases o1) (simp_all add: same_keyword_def same_run_def)
  then show ?thesis
    using same_keyword_with_header [of sc2 "tf_Failure tf"] unfolding sc'
    by (simp add: same_keyword_def same_run_def)
qed

lemma level_spec:
  "applyScenarioLevelParams sc tfs = Inr sc' \<Longrightarrow>
    same_keyword sc sc' \<and>
    sc_FreshHostname sc' = (sc_FreshHostname sc \<or> list_ex (\<lambda>f. f_Type f \<in> set fresh_host_types) (map tf_Failure tfs))"
proof (induction tfs arbitrary: sc)
  case Nil
  then show ?case by (simp add: same_keyword_def same_run_def)
next
  case (Cons tf tfs)
  then obtain sc1 where "scenario_params_step tf sc = Inr sc1" "applyScenarioLevelParams sc1 tfs = Inr sc'" by auto
  with level_step_spec [OF this(1)] Cons.IH [OF this(2)] show ?case
    by (auto simp: same_keyword_def intro: same_run_trans)
qed

lemma ToScenario_spec:
  assumes "ToScenario d sid monitors cf gp = Inr sc"
  shows "de_Targets d = [sc_Target sc] \<and> sc_ID sc = sid \<and> sc_Monitors sc = monitors \<and> sc_CheckFrequency sc = cf \<and>
    sc_GracePeriod sc = gp \<and> sc_Duration sc = de_Duration d \<and> sc_Seed sc = Some (de_Seed d) \<and>
    carries (sc_Failures sc) (stage_list d) \<and>
    sc_FreshHostname sc = list_ex (\<lambda>f. f_Type f \<in> set fresh_host_types) (sc_Failures sc) \<and>
    (has_content (sc_Failures sc) \<or> sc_Keyword sc = [] \<and> sc_KeywordCheck sc = [])"
proof -
  obtain t where t: "de_Targets d = [t]" using assms by (auto simp: ToScenario_def split: list.splits)
  let ?sc0 = "\<lambda>tfs. \<lparr>sc_ID = sid, sc_Version = ''1'', sc_Description = design_description d, sc_Target = t,
            sc_Monitors = monitors, sc_MonitorKind = [], sc_FreshHostname = False, sc_CheckFrequency = cf,
            sc_GracePeriod = gp, sc_Duration = de_Duration d, sc_Seed = Some (de_Seed d),
            sc_Failures = map tf_Failure tfs, sc_Keyword = [], sc_KeywordCheck = [], sc_ResponseTimeThreshold = 0,
            sc_RequestHeaders = [], sc_Maintenance = None\<rparr>"
  obtain tfs sc1 where tfs: "(case de_Escalation d of
                  None \<Rightarrow> rbind (translate_one (de_FailureType d) (de_Params d) 0 0) (\<lambda>tf. Inr [tf])
                | Some e \<Rightarrow> translate_stages (de_ID d) 0 (ed_Stages e)) = Inr tfs"
    and 1: "applyHTTPBodyDefaults (?sc0 tfs) tfs = Inr sc1" and 2: "applyScenarioLevelParams sc1 tfs = Inr sc"
    using assms unfolding ToScenario_def t list.case Let_def rbind_Inr_iff prefix_error_Inr by blast
  have "carries (map tf_Failure tfs) (stage_list d)"
  proof (cases "de_Escalation d")
    case None
    then obtain f where "failureFrom (de_FailureType d) (de_Params d) 0 0 = Inr f" "tfs = [\<lparr>tf_Failure = f, tf_Params = de_Params d\<rparr>]"
      using tfs by (auto simp: translate_one_def)
    with failureFrom_fields [OF this(1)] None show ?thesis by (simp add: carries_def stage_list_def)
  next
    case (Some e)
    then show ?thesis using translate_stages_carries tfs by (simp add: stage_list_def)
  qed
  with body_defaults_spec [OF 1] level_spec [OF 2] t show ?thesis
    by (auto simp: same_keyword_def same_run_def split: if_splits)
qed

section \<open>Differences to scenario files\<close>

lemma chain_length_unset:
  assumes "params_for ft ps" and "failureFrom ''http_redirect'' ps offset dur = Inr f"
  shows "f_ChainLength f = 0"
proof -
  have "optionalParamInt ps ''chain_length'' = Inr None"
    using assms(1) by (simp add: params_for_def optionalParamInt_def optionalParam_def)
  moreover have "failure_params ''http_redirect'' ps (empty_failure ''http_redirect'' offset dur) = Inr f"
    using assms(2) by (simp add: failureFrom_def split: if_splits)
  ultimately obtain v where "with_method ps ((empty_failure ''http_redirect'' offset dur)\<lparr>f_Variant := v\<rparr>) = Inr f"
    by (simp add: failure_params_def with_optional_def) blast
  then have "f_ChainLength f = f_ChainLength (empty_failure ''http_redirect'' offset dur)"
    unfolding with_method_def with_optional_iff by (auto split: option.splits)
  then show ?thesis by (simp add: empty_failure_def)
qed

lemma campaign_methods_differ:
  "validHTTPMethod ''POST'' \<and> validateMethod ''POST'' True = Inl ''method must be one of: GET, HEAD''"
  by (simp add: validHTTPMethod_def validateMethod_def)

section \<open>Properties\<close>

definition plain_file :: craw where
  "plain_file = ex_campaign_file\<lparr>cr_Escalation := None\<rparr>"

definition plain_campaign :: Campaign where
  "plain_campaign = ex_campaign\<lparr>ca_Escalation := None\<rparr>"

lemma plain_accepted: "validate_campaign plain_file = Inr plain_campaign"
  by code_simp

definition plain_type :: FailureType where
  "plain_type = hd (ca_FailureTypes ex_campaign)"

definition plain_cell :: Cell where
  "plain_cell = \<lparr>cl_FailureType = ''http_status'', cl_DurationBucket = ''short'', cl_HostPattern = ''single''\<rparr>"

text \<open>
  C15. A scenario translated from a design is that design: its only target, its duration and seed,
  the timing of the campaign, and one failure per stage in the order of the stages, with the type,
  offset and duration of the stage and every request affected. Hostnames are fresh exactly when a
  failure concerns the DNS, and without an altered body no keyword is set.
\<close>

lemma faithful_translation:
  assumes "ToScenario d sid monitors cf gp = Inr sc"
  shows "de_Targets d = [sc_Target sc] \<and> sc_ID sc = sid \<and> sc_Monitors sc = monitors \<and> sc_CheckFrequency sc = cf \<and>
    sc_GracePeriod sc = gp \<and> sc_Duration sc = de_Duration d \<and> sc_Seed sc = Some (de_Seed d) \<and>
    carries (sc_Failures sc) (stage_list d) \<and>
    sc_FreshHostname sc = list_ex (\<lambda>f. f_Type f \<in> set fresh_host_types) (sc_Failures sc) \<and>
    (has_content (sc_Failures sc) \<or> sc_Keyword sc = [] \<and> sc_KeywordCheck sc = [])"
  by (rule ToScenario_spec [OF assms])

definition staged_design :: Design where
  "staged_design = (plain_design 3 1 [''a.test''])\<lparr>de_Escalation := Some \<lparr>ed_Pattern = ''layered'', ed_Stages =
    [\<lparr>st_FailureType = ''dns_nxdomain'', st_Params = [], st_Offset = 0, st_Duration = Minute\<rparr>,
     \<lparr>st_FailureType = ''http_body'', st_Params = [(''content'', VString ''ransomware'')], st_Offset = Second, st_Duration = Minute - Second\<rparr>]\<rparr>\<rparr>"

definition staged_scenario :: Scenario where
  "staged_scenario = projr (ToScenario staged_design ''c1-d-0003-r0'' [''m''] Minute 0)"

lemma staged_translates: "ToScenario staged_design ''c1-d-0003-r0'' [''m''] Minute 0 = Inr staged_scenario"
  by code_simp

lemma faithful_translation_witness:
  "ToScenario staged_design ''c1-d-0003-r0'' [''m''] Minute 0 = Inr staged_scenario \<and>
   de_Targets staged_design = [sc_Target staged_scenario] \<and> carries (sc_Failures staged_scenario) (stage_list staged_design) \<and>
   sc_FreshHostname staged_scenario"
proof -
  note all = faithful_translation [OF staged_translates]
  have "sc_FreshHostname staged_scenario" by code_simp
  with all staged_translates show ?thesis by blast
qed

text \<open>A campaign file with one failure type and nothing said about it.\<close>

definition bare_raw :: "string \<Rightarrow> rawFailureType" where
  "bare_raw ty =
    \<lparr>rft_Type = ty, rft_StatusCodeChoices = [], rft_MethodChoices = [], rft_PhaseChoices = [], rft_DelayRange = None,
     rft_ResponseTimeThreshold = [], rft_HeaderName = [], rft_HeaderValueChoices = [], rft_ContentChoices = [],
     rft_KeywordChoices = [], rft_DaysExpiredChoices = [], rft_DaysRemainingChoices = [], rft_VariantChoices = [],
     rft_ReasonChoices = []\<rparr>"

definition bare_type :: "string \<Rightarrow> FailureType" where
  "bare_type ty = failure_type_of (bare_raw ty) None 0"

definition bare_file :: "string \<Rightarrow> craw" where
  "bare_file ty = plain_file\<lparr>cr_FailureTypes := [bare_raw ty]\<rparr>"

definition bare_campaign :: "string \<Rightarrow> Campaign" where
  "bare_campaign ty = plain_campaign\<lparr>ca_FailureTypes := [bare_type ty]\<rparr>"

definition needy_types :: "string list" where
  "needy_types = [''http_latency'', ''http_method_status'', ''http_timeout'', ''http_redirect'', ''http_header_status'']"

lemma bare_types:
  assumes "ty \<noteq> []" and "ty \<notin> set needy_types"
  shows "validateFailureTypes [bare_raw ty] = Inr [bare_type ty]"
proof -
  have "validate_choices 0 (bare_raw ty) = Inr ()" by (simp add: validate_choices_def bare_raw_def normalizeMethodChoices_def)
  moreover have "validate_needs 0 (bare_type ty) = Inr ()"
    using assms(2) by (simp add: validate_needs_def bare_type_def bare_raw_def failure_type_of_def needy_types_def Let_def)
  ultimately have "validateFailureTypeConfig 0 (bare_raw ty) = Inr (bare_type ty)"
    by (simp add: validateFailureTypeConfig_def Let_def bare_type_def) (simp add: bare_raw_def)
  then show ?thesis using assms(1) by (simp add: validateFailureTypes_def Let_def) (simp add: bare_raw_def)
qed

lemma bare_accepted:
  assumes "ty \<noteq> []" and "ty \<notin> set needy_types"
  shows "validate_campaign (bare_file ty) = Inr (bare_campaign ty)"
proof -
  have sampling: "validateSampling (cr_Sampling plain_file) fts = Inr \<lparr>sm_Default = 2, sm_HighDiscrimination = []\<rparr>" for fts
    by (simp add: validateSampling_def plain_file_def ex_campaign_file_def)
  have keep: "cr_Sampling (bare_file ty) = cr_Sampling plain_file" "cr_ID (bare_file ty) = cr_ID plain_file"
    "cr_Duration (bare_file ty) = cr_Duration plain_file" "cr_CheckFrequency (bare_file ty) = cr_CheckFrequency plain_file"
    "cr_GracePeriod (bare_file ty) = cr_GracePeriod plain_file" "cr_Targets (bare_file ty) = cr_Targets plain_file"
    "cr_DurationBuckets (bare_file ty) = cr_DurationBuckets plain_file" "cr_Escalation (bare_file ty) = cr_Escalation plain_file"
    "cr_Budget (bare_file ty) = cr_Budget plain_file" "cr_Cooldown (bare_file ty) = cr_Cooldown plain_file"
    "cr_Description (bare_file ty) = cr_Description plain_file" "cr_Seed (bare_file ty) = cr_Seed plain_file"
    "cr_FailureTypes (bare_file ty) = [bare_raw ty]"
    by (simp_all add: bare_file_def)
  have "cr_ID plain_file \<noteq> []" by (simp add: plain_file_def ex_campaign_file_def)
  then have "validate_campaign (bare_file ty) = Inr (p\<lparr>ca_FailureTypes := [bare_type ty]\<rparr>)"
    if "validate_campaign plain_file = Inr p" for p
    using that unfolding validate_campaign_def keep sampling bare_types [OF assms] by (auto simp: rbind_Inr_iff)
  from this [OF plain_accepted] show ?thesis by (simp only: bare_campaign_def)
qed

lemma bare_untranslatable:
  "ty \<notin> set failure_types \<or> ty \<in> {''http_status'', ''http_body'', ''tls_expiring'', ''dns_latency''} \<Longrightarrow> \<not> translatable (bare_type ty)"
  by (auto simp: translatable_def bare_type_def bare_raw_def failure_type_of_def)

lemma not_needy:
  "ty \<notin> set failure_types \<or> ty \<in> {''http_status'', ''http_body'', ''tls_expiring'', ''dns_latency''} \<Longrightarrow> ty \<notin> set needy_types"
  by (auto simp: failure_types_def needy_types_def)



end
