(* ===== verification/Runplan.thy ===== *)
theory Runplan
  imports Campaign_Properties
begin

text \<open>
  Estimates of a campaign from its plan: \<open>src/internal/runplan/runplan.go\<close>. The two sweeps (starts in a
  rolling window, samples at the same time) are proved to count what they promise.
\<close>

section \<open>Definitions\<close>

definition failures_end :: "duration \<Rightarrow> Failure list \<Rightarrow> duration" where
  "failures_end defaultDuration fs =
    (if fs = [] then defaultDuration
     else foldl (\<lambda>latest f. let stop = wrap64 (f_Offset f + (if f_Duration f > 0 then f_Duration f else defaultDuration))
       in if stop > latest then stop else latest) 0 fs)"

definition ScenarioRuntime :: "Scenario option \<Rightarrow> duration" where
  "ScenarioRuntime osc = (case osc of None \<Rightarrow> 0
     | Some sc \<Rightarrow> wrap64 (failures_end (sc_Duration sc) (sc_Failures sc) + sc_GracePeriod sc))"

text \<open>The end of the window that begins at \<open>offset\<close>, searched from index \<open>e\<close> on.\<close>

function advance :: "duration list \<Rightarrow> duration \<Rightarrow> duration \<Rightarrow> nat \<Rightarrow> nat" where
  "advance offsets offset window e =
    (if e < length offsets \<and> wrap64 (offsets ! e - offset) < window then advance offsets offset window (Suc e) else e)"
  by pat_completeness auto
termination
  by (relation "measure (\<lambda>(offsets, offset, window, e). length offsets - e)") auto

declare advance.simps [simp del]

fun starts_loop :: "duration list \<Rightarrow> duration \<Rightarrow> nat list \<Rightarrow> nat \<Rightarrow> nat \<Rightarrow> nat" where
  "starts_loop offsets window [] e best = best"
| "starts_loop offsets window (s # ss) e best =
    (let e = advance offsets (offsets ! s) window (max e s)
     in starts_loop offsets window ss e (max best (e - s)))"

definition maxStartsInWindow :: "ReplaySlot list \<Rightarrow> duration \<Rightarrow> nat" where
  "maxStartsInWindow slots window =
    (if slots = [] then 0
     else let offsets = sort (map rp_Offset slots) in starts_loop offsets window [0..<length offsets] 0 0)"

text \<open>Starts and ends of samples; at the same time ends come first.\<close>

datatype point = Point (pt_t: duration) (pt_delta: int)

instantiation point :: linorder
begin

definition less_eq_point :: "point \<Rightarrow> point \<Rightarrow> bool" where
  "less_eq_point p q \<longleftrightarrow> pt_t p < pt_t q \<or> pt_t p = pt_t q \<and> pt_delta p \<le> pt_delta q"

definition less_point :: "point \<Rightarrow> point \<Rightarrow> bool" where
  "less_point p q \<longleftrightarrow> pt_t p < pt_t q \<or> pt_t p = pt_t q \<and> pt_delta p < pt_delta q"

instance
  by standard (auto simp: less_eq_point_def less_point_def intro: point.expand)

end

record interval =
  iv_start :: duration
  iv_end :: duration

definition points :: "interval list \<Rightarrow> point list" where
  "points ivs = concat (map (\<lambda>iv. [Point (iv_start iv) 1, Point (iv_end iv) (- 1)]) ivs)"

fun active_loop :: "point list \<Rightarrow> int \<Rightarrow> int \<Rightarrow> int" where
  "active_loop [] active best = best"
| "active_loop (p # ps) active best =
    (let active = active + pt_delta p in active_loop ps active (if active > best then active else best))"

definition maxConcurrent :: "interval list \<Rightarrow> int" where
  "maxConcurrent ivs = active_loop (sort (points ivs)) 0 0"

record CampaignEstimate =
  ce_Designs :: nat
  ce_Replays :: nat
  ce_ConfiguredDuration :: duration
  ce_ScheduledSpan :: duration
  ce_SerialRuntime :: duration
  ce_MaxScenarioRuntime :: duration
  ce_MaxStartsInHour :: nat
  ce_MaxConcurrentSamples :: int

record spans =
  sp_scheduled :: duration
  sp_serial :: duration
  sp_longest :: duration
  sp_intervals :: "interval list"

definition span_step :: "(string \<times> Design) list \<Rightarrow> duration \<Rightarrow> spans \<Rightarrow> ReplaySlot \<Rightarrow> spans" where
  "span_step byDesign grace s slot =
    (case map_of byDesign (rp_DesignID slot) of
       None \<Rightarrow> s
     | Some d \<Rightarrow>
         let runtime = wrap64 (de_Duration d + grace); stop = wrap64 (rp_Offset slot + runtime) in
         \<lparr>sp_scheduled = (if stop > sp_scheduled s then stop else sp_scheduled s),
          sp_serial = wrap64 ((if sp_serial s > rp_Offset slot then sp_serial s else rp_Offset slot) + runtime),
          sp_longest = (if runtime > sp_longest s then runtime else sp_longest s),
          sp_intervals = sp_intervals s @ [\<lparr>iv_start = rp_Offset slot, iv_end = stop\<rparr>]\<rparr>)"

definition EstimateCampaign :: "Campaign \<Rightarrow> Plan \<Rightarrow> CampaignEstimate" where
  "EstimateCampaign c plan =
    (let slots = sort_key rp_Offset (pl_Schedule plan);
         s = foldl (span_step (designsByID (pl_Designs plan)) (ca_GracePeriod c))
               \<lparr>sp_scheduled = 0, sp_serial = 0, sp_longest = 0, sp_intervals = []\<rparr> slots
     in \<lparr>ce_Designs = length (pl_Designs plan), ce_Replays = length (pl_Schedule plan),
         ce_ConfiguredDuration = ca_Duration c, ce_ScheduledSpan = sp_scheduled s, ce_SerialRuntime = sp_serial s,
         ce_MaxScenarioRuntime = sp_longest s, ce_MaxStartsInHour = maxStartsInWindow slots Hour,
         ce_MaxConcurrentSamples = maxConcurrent (sp_intervals s)\<rparr>)"

section \<open>Starts in a rolling window\<close>

lemma sorted_filter_prefix:
  assumes "sorted xs" and "\<And>x y. x \<le> y \<Longrightarrow> P y \<Longrightarrow> P x"
  shows "filter P xs = takeWhile P xs"
  using assms(1)
proof (induction xs)
  case (Cons x xs)
  show ?case
  proof (cases "P x")
    case False
    have "\<not> P y" if "y \<in> set xs" for y using assms(2) [of x y] False Cons.prems that by auto
    then show ?thesis using False by (simp add: filter_empty_conv)
  qed (use Cons in simp)
qed simp

lemma prefix_index:
  assumes "sorted xs" and "\<And>x y. x \<le> y \<Longrightarrow> P y \<Longrightarrow> P x" and "i < length xs"
  shows "i < length (filter P xs) \<longleftrightarrow> P (xs ! i)"
proof
  assume "i < length (filter P xs)"
  then have i: "i < length (takeWhile P xs)" using sorted_filter_prefix [OF assms(1,2)] by simp
  from nth_mem [OF this] have "P (takeWhile P xs ! i)" by (rule set_takeWhileD [THEN conjunct2])
  then show "P (xs ! i)" using takeWhile_nth [OF i] by simp
next
  assume "P (xs ! i)"
  then have "\<forall>j \<le> i. P (xs ! j)" using assms by (meson order_le_less_trans sorted_nth_mono)
  then have "i < length (takeWhile P xs)" using assms(3)
    by (metis leI nth_length_takeWhile order_le_less_trans)
  then show "i < length (filter P xs)" using sorted_filter_prefix [OF assms(1,2)] by simp
qed

definition before :: "duration list \<Rightarrow> duration \<Rightarrow> duration \<Rightarrow> nat" where
  "before xs w t = length (filter (\<lambda>x. x - t < w) xs)"

definition count_in :: "duration list \<Rightarrow> duration \<Rightarrow> duration \<Rightarrow> nat" where
  "count_in xs w t = length (filter (\<lambda>x. t \<le> x \<and> x < t + w) xs)"

lemma before_split: "0 < w \<Longrightarrow> before xs w t = length (filter (\<lambda>x. x < t) xs) + count_in xs w t"
  by (induction xs) (auto simp: before_def count_in_def)

lemma before_index:
  assumes "sorted xs" and "i < length xs"
  shows "i < before xs w t \<longleftrightarrow> xs ! i - t < w"
  unfolding before_def using assms by (intro prefix_index) auto

lemma before_le_length: "before xs w t \<le> length xs"
  by (simp add: before_def)

lemma advance_end:
  assumes "sorted xs" and "\<forall>x \<in> set xs. wrap64 (x - t) = x - t"
  shows "e \<le> before xs w t \<Longrightarrow> advance xs t w e = before xs w t"
proof (induction "length xs - e" arbitrary: e)
  case 0
  then have "e = before xs w t" "\<not> e < length xs" using before_le_length [of xs w t] by auto
  from this(2) have "advance xs t w e = e" by (simp add: advance.simps [of xs t w e])
  with \<open>e = before xs w t\<close> show ?case by simp
next
  case (Suc n)
  then have e: "e < length xs" by simp
  then have "e < before xs w t \<longleftrightarrow> wrap64 (xs ! e - t) < w"
    using before_index [OF assms(1) e] assms(2) by simp
  moreover have "advance xs t w (Suc e) = before xs w t" if "e < before xs w t"
    using Suc that by (intro Suc.hyps(1)) auto
  ultimately show ?case using Suc.prems e by (auto simp: advance.simps [of xs t w e])
qed

text \<open>The sweep: what the window of each start holds behind it.\<close>

lemma starts_loop_max:
  assumes "sorted xs" and "0 < w" and "\<forall>x \<in> set xs. \<forall>t \<in> set xs. wrap64 (x - t) = x - t"
  shows "sorted ss \<Longrightarrow> \<forall>s \<in> set ss. s < length xs \<and> e \<le> before xs w (xs ! s) \<Longrightarrow>
    starts_loop xs w ss e best = foldl max best (map (\<lambda>s. before xs w (xs ! s) - s) ss)"
proof (induction ss arbitrary: e best)
  case Nil
  then show ?case by simp
next
  case (Cons s ss)
  have s: "s < length xs" "e \<le> before xs w (xs ! s)" using Cons.prems(2) by auto
  have "s < before xs w (xs ! s)" using before_index [OF assms(1) s(1)] assms(2) by simp
  then have adv: "advance xs (xs ! s) w (max e s) = before xs w (xs ! s)"
    using s assms(3) by (intro advance_end [OF assms(1)]) auto
  have "before xs w (xs ! s) \<le> before xs w (xs ! s')" if "s' \<in> set ss" for s'
  proof -
    have "s' < length xs" "s \<le> s'" using Cons.prems that by auto
    then have "xs ! s \<le> xs ! s'" using assms(1) by (simp add: sorted_nth_mono)
    then have "length (filter (\<lambda>x. x - xs ! s < w) ys) \<le> length (filter (\<lambda>x. x - xs ! s' < w) ys)" for ys
      by (induction ys) auto
    then show ?thesis by (simp add: before_def)
  qed
  then have "starts_loop xs w ss (before xs w (xs ! s)) (max best (before xs w (xs ! s) - s)) =
      foldl max (max best (before xs w (xs ! s) - s)) (map (\<lambda>s. before xs w (xs ! s) - s) ss)"
    using Cons.prems by (intro Cons.IH) auto
  then show ?case by (simp add: Let_def adv)
qed

lemma count_in_mset: "mset xs = mset ys \<Longrightarrow> count_in xs w t = count_in ys w t"
  unfolding count_in_def by (metis mset_filter size_mset)

lemma starts_loop_counts:
  assumes "sorted xs" and "0 < w" and "\<forall>x \<in> set xs. \<forall>t \<in> set xs. wrap64 (x - t) = x - t"
  defines "m \<equiv> starts_loop xs w [0..<length xs] 0 0"
  shows "count_in xs w t \<le> m" and "\<exists>t. m = count_in xs w t"
proof -
  have m: "m = foldl max 0 (map (\<lambda>s. before xs w (xs ! s) - s) [0..<length xs])"
    unfolding m_def by (rule starts_loop_max [OF assms(1-3)]) auto
  have index: "s < length (filter (\<lambda>x. x < t) xs) \<longleftrightarrow> xs ! s < t" if "s < length xs" for s t
    using assms(1) that by (intro prefix_index) auto
  show le: "count_in xs w t \<le> m" for t
  proof (cases "count_in xs w t = 0")
    case False
    let ?l = "length (filter (\<lambda>x. x < t) xs)"
    have split: "before xs w t = ?l + count_in xs w t" by (rule before_split [OF assms(2)])
    then have l: "?l < length xs" using False before_le_length [of xs w t] by linarith
    then have "t \<le> xs ! ?l" using index [OF l, of t] by simp
    then have "length (filter (\<lambda>x. x - t < w) ys) \<le> length (filter (\<lambda>x. x - xs ! ?l < w) ys)" for ys
      by (induction ys) auto
    from this [of xs] have "before xs w t \<le> before xs w (xs ! ?l)" by (simp only: before_def)
    with split have "count_in xs w t \<le> before xs w (xs ! ?l) - ?l" by linarith
    also have "\<dots> \<le> m" unfolding m using l by (intro foldl_max_upper) auto
    finally show ?thesis .
  qed simp
  have "m = 0 \<or> (\<exists>s < length xs. m = before xs w (xs ! s) - s)"
    using foldl_max_attained [of 0 "map (\<lambda>s. before xs w (xs ! s) - s) [0..<length xs]"] by (auto simp: m)
  then show "\<exists>t. m = count_in xs w t"
  proof
    assume "m = 0"
    moreover have "\<forall>x \<in> set xs. x < foldl max 0 xs + 1"
      using foldl_max_upper [of _ xs 0] by (simp add: zless_add1_eq order_le_less [symmetric])
    ultimately show ?thesis
      by (intro exI [of _ "foldl max 0 xs + 1"]) (auto simp: count_in_def filter_empty_conv not_le)
  next
    assume "\<exists>s < length xs. m = before xs w (xs ! s) - s"
    then obtain s where s: "s < length xs" "m = before xs w (xs ! s) - s" by blast
    have "length (filter (\<lambda>x. x < xs ! s) xs) \<le> s" using index [OF s(1), of "xs ! s"] by (simp add: not_less)
    then have "m \<le> count_in xs w (xs ! s)" using before_split [OF assms(2), of xs "xs ! s"] s(2) by simp
    with le show ?thesis by (meson antisym)
  qed
qed

lemma maxStartsInWindow_counts:
  assumes "0 < w" and "list_all (\<lambda>s. 0 \<le> rp_Offset s \<and> in_int64 (rp_Offset s)) slots"
  shows "count_in (map rp_Offset slots) w t \<le> maxStartsInWindow slots w"
    and "\<exists>t. maxStartsInWindow slots w = count_in (map rp_Offset slots) w t"
proof -
  let ?xs = "sort (map rp_Offset slots)"
  have same: "count_in (map rp_Offset slots) w t = count_in ?xs w t" for t by (rule count_in_mset) simp
  have gap: "\<forall>x \<in> set ?xs. \<forall>t \<in> set ?xs. wrap64 (x - t) = x - t"
  proof (intro ballI wrap64_id)
    fix x t assume "x \<in> set ?xs" "t \<in> set ?xs"
    then have "0 \<le> x" "in_int64 x" "0 \<le> t" "in_int64 t" using assms(2) by (auto simp: list_all_iff)
    then show "in_int64 (x - t)" by (simp add: in_int64_def)
  qed
  have "maxStartsInWindow slots w = starts_loop ?xs w [0..<length ?xs] 0 0" by (simp add: maxStartsInWindow_def)
  with starts_loop_counts [OF _ assms(1) gap] same
  show "count_in (map rp_Offset slots) w t \<le> maxStartsInWindow slots w"
    and "\<exists>t. maxStartsInWindow slots w = count_in (map rp_Offset slots) w t" by auto
qed

section \<open>Samples at the same time\<close>

definition active_at :: "interval list \<Rightarrow> duration \<Rightarrow> nat" where
  "active_at ivs t = length (filter (\<lambda>iv. iv_start iv \<le> t \<and> t < iv_end iv) ivs)"

text \<open>The sum of the deltas of the points up to a time is the number of active intervals.\<close>

definition level :: "point list \<Rightarrow> duration \<Rightarrow> int" where
  "level ps t = sum_list (map pt_delta (filter (\<lambda>p. pt_t p \<le> t) ps))"

lemma level_points:
  assumes "list_all (\<lambda>iv. iv_start iv \<le> iv_end iv) ivs"
  shows "level (points ivs) t = int (active_at ivs t)"
  using assms by (induction ivs) (auto simp: level_def points_def active_at_def)

lemma level_mset:
  assumes "mset ps = mset qs"
  shows "level ps t = level qs t"
proof -
  have "level rs t = sum_mset (image_mset pt_delta (filter_mset (\<lambda>p. pt_t p \<le> t) (mset rs)))" for rs
    by (simp only: level_def mset_filter [symmetric] mset_map [symmetric] sum_mset_sum_list)
  with assms show ?thesis by simp
qed

lemma active_loop_sums:
  "best \<le> active_loop ps a best \<and> (\<forall>k. 0 < k \<and> k \<le> length ps \<longrightarrow> a + sum_list (map pt_delta (take k ps)) \<le> active_loop ps a best) \<and>
   (active_loop ps a best = best \<or>
    (\<exists>k. 0 < k \<and> k \<le> length ps \<and> active_loop ps a best = a + sum_list (map pt_delta (take k ps))))"
proof (induction ps arbitrary: a best)
  case Nil
  then show ?case by simp
next
  case (Cons p ps)
  let ?a = "a + pt_delta p" and ?best = "if a + pt_delta p > best then a + pt_delta p else best"
  let ?r = "active_loop ps ?a ?best"
  have r: "active_loop (p # ps) a best = ?r" by (simp add: Let_def)
  have ih: "?best \<le> ?r" "\<And>k. 0 < k \<Longrightarrow> k \<le> length ps \<Longrightarrow> ?a + sum_list (map pt_delta (take k ps)) \<le> ?r"
    "?r = ?best \<or> (\<exists>k. 0 < k \<and> k \<le> length ps \<and> ?r = ?a + sum_list (map pt_delta (take k ps)))"
    using Cons.IH [where a = ?a and best = ?best] by auto
  have "a + sum_list (map pt_delta (take k (p # ps))) \<le> ?r" if k: "0 < k" "k \<le> Suc (length ps)" for k
  proof (cases "k = 1")
    case True
    then show ?thesis using ih(1) by (simp split: if_splits)
  next
    case False
    then obtain j where j: "k = Suc j" "0 < j" "j \<le> length ps" using k by (cases k) auto
    show ?thesis using ih(2) [OF j(2,3)] unfolding j(1) by (simp only: take_Suc_Cons list.map sum_list.Cons add.assoc)
  qed
  moreover have "?r = best \<or> (\<exists>k. 0 < k \<and> k \<le> Suc (length ps) \<and> ?r = a + sum_list (map pt_delta (take k (p # ps))))"
    using ih(3)
  proof
    assume "?r = ?best"
    then show ?thesis by (cases "?best = best") (auto intro!: exI [of _ 1] split: if_splits)
  next
    assume "\<exists>k. 0 < k \<and> k \<le> length ps \<and> ?r = ?a + sum_list (map pt_delta (take k ps))"
    then obtain k where "0 < k" "k \<le> length ps" "?r = ?a + sum_list (map pt_delta (take k ps))" by blast
    then show ?thesis by (intro disjI2 exI [of _ "Suc k"]) simp
  qed
  moreover have "best \<le> ?r" using ih(1) by (simp split: if_splits)
  ultimately show ?case unfolding r by simp
qed

definition unit_steps :: "point list \<Rightarrow> bool" where
  "unit_steps ps \<longleftrightarrow> list_all (\<lambda>p. pt_delta p = 1 \<or> pt_delta p = - 1) ps"

lemma sum_list_le_0: "\<forall>x \<in> set xs. (x :: int) \<le> 0 \<Longrightarrow> sum_list xs \<le> 0"
  by (induction xs) (auto intro: add_nonpos_nonpos)

lemma sum_list_ge_0: "\<forall>x \<in> set xs. (0 :: int) \<le> x \<Longrightarrow> 0 \<le> sum_list xs"
  by (induction xs) auto

text \<open>In the sorted list every partial sum lies below the level at its time or just before it.\<close>

lemma partial_sum_level:
  assumes "sorted ps" and "unit_steps ps" and "0 < k" and "k \<le> length ps"
  shows "\<exists>t. sum_list (map pt_delta (take k ps)) \<le> level ps t"
proof -
  define p where "p = ps ! (k - 1)"
  have p: "p \<in> set ps" using assms(3,4) by (simp add: p_def)
  have early: "q \<le> p" if q: "q \<in> set (take k ps)" for q
  proof -
    obtain i where "i < k" "q = ps ! i" using q assms(4) by (auto simp: in_set_conv_nth)
    then show ?thesis using assms unfolding p_def by (simp add: sorted_nth_mono)
  qed
  have late: "p \<le> q" if q: "q \<in> set (drop k ps)" for q
  proof -
    obtain i where "i < length ps - k" "q = ps ! (k + i)" using q by (auto simp: in_set_conv_nth)
    then show ?thesis using assms unfolding p_def by (simp add: sorted_nth_mono)
  qed
  have early_t: "pt_t q \<le> pt_t p" if "q \<in> set (take k ps)" for q
    using early [OF that] by (auto simp: less_eq_point_def)
  have late_t: "pt_t p \<le> pt_t q" if "q \<in> set (drop k ps)" for q
    using late [OF that] by (auto simp: less_eq_point_def)
  have delta: "pt_delta p = 1 \<or> pt_delta p = - 1" using assms(2) p by (simp add: unit_steps_def list_all_iff)
  have parts: "level ps t = level (take k ps) t + level (drop k ps) t" for t
    unfolding level_def by (metis append_take_drop_id filter_append map_append sum_list_append)
  show ?thesis
  proof (cases "pt_delta p = 1")
    case True
    have "level (take k ps) (pt_t p) = sum_list (map pt_delta (take k ps))"
      unfolding level_def by (subst filter_True) (simp_all add: early_t)
    moreover have "0 \<le> level (drop k ps) (pt_t p)"
      unfolding level_def
    proof (rule sum_list_ge_0, clarsimp)
      fix q assume q: "q \<in> set (drop k ps)" "pt_t q \<le> pt_t p"
      with late [OF q(1)] True show "0 \<le> pt_delta q" by (auto simp: less_eq_point_def)
    qed
    ultimately show ?thesis using parts [of "pt_t p"] by (intro exI [of _ "pt_t p"]) simp
  next
    case False
    with delta have m: "pt_delta p = - 1" by simp
    have "level (drop k ps) (pt_t p - 1) = 0"
      unfolding level_def by (subst filter_False) (auto dest: late_t)
    moreover have "sum_list (map pt_delta (take k ps)) \<le> level (take k ps) (pt_t p - 1)"
    proof -
      have split: "sum_list (map pt_delta qs) = sum_list (map pt_delta (filter P qs)) + sum_list (map pt_delta (filter (\<lambda>q. \<not> P q) qs))"
        for qs P by (induction qs) auto
      have "sum_list (map pt_delta (filter (\<lambda>q. \<not> pt_t q \<le> pt_t p - 1) (take k ps))) \<le> 0"
      proof (rule sum_list_le_0)
        have "pt_delta q \<le> 0" if "q \<in> set (take k ps)" "\<not> pt_t q \<le> pt_t p - 1" for q
          using early [OF that(1)] that(2) m by (auto simp: less_eq_point_def)
        then show "\<forall>x \<in> set (map pt_delta (filter (\<lambda>q. \<not> pt_t q \<le> pt_t p - 1) (take k ps))). x \<le> 0" by auto
      qed
      then show ?thesis unfolding level_def by (subst split [of _ "\<lambda>q. pt_t q \<le> pt_t p - 1"]) simp
    qed
    ultimately show ?thesis using parts [of "pt_t p - 1"] by (intro exI [of _ "pt_t p - 1"]) simp
  qed
qed

text \<open>Every level is a partial sum.\<close>

lemma level_partial_sum:
  assumes "sorted ps"
  shows "\<exists>k \<le> length ps. level ps t = sum_list (map pt_delta (take k ps))"
proof -
  have eq: "filter (\<lambda>p. pt_t p \<le> t) ps = takeWhile (\<lambda>p. pt_t p \<le> t) ps"
    using assms by (rule sorted_filter_prefix) (auto simp: less_eq_point_def)
  have "takeWhile (\<lambda>p. pt_t p \<le> t) ps = take (length (takeWhile (\<lambda>p. pt_t p \<le> t) ps)) ps"
    by (rule takeWhile_eq_take)
  with eq show ?thesis unfolding level_def by (metis length_takeWhile_le)
qed

lemma maxConcurrent_counts:
  assumes "list_all (\<lambda>iv. iv_start iv \<le> iv_end iv) ivs"
  shows "int (active_at ivs t) \<le> maxConcurrent ivs" and "maxConcurrent ivs = 0 \<or> (\<exists>t. maxConcurrent ivs = int (active_at ivs t))"
proof -
  let ?ps = "sort (points ivs)"
  have unit: "unit_steps ?ps" by (auto simp: unit_steps_def points_def list_all_iff)
  have lev: "level ?ps t = int (active_at ivs t)" for t
    using level_points [OF assms] level_mset [of ?ps "points ivs"] by simp
  note sums = active_loop_sums [of 0 ?ps 0, folded maxConcurrent_def]
  show le: "int (active_at ivs t) \<le> maxConcurrent ivs" for t
  proof -
    obtain k where k: "k \<le> length ?ps" "level ?ps t = sum_list (map pt_delta (take k ?ps))"
      using level_partial_sum [of ?ps t] by auto
    show ?thesis
    proof (cases "k = 0")
      case True
      then show ?thesis using k(2) lev [of t] sums by simp
    next
      case False
      then show ?thesis using k lev [of t] sums by auto
    qed
  qed
  show "maxConcurrent ivs = 0 \<or> (\<exists>t. maxConcurrent ivs = int (active_at ivs t))"
  proof (rule disjCI)
    assume none: "\<not> (\<exists>t. maxConcurrent ivs = int (active_at ivs t))"
    have "maxConcurrent ivs \<noteq> 0 + sum_list (map pt_delta (take k ?ps))" if k: "0 < k" "k \<le> length ?ps" for k
    proof
      assume eq: "maxConcurrent ivs = 0 + sum_list (map pt_delta (take k ?ps))"
      obtain t where "sum_list (map pt_delta (take k ?ps)) \<le> level ?ps t"
        using partial_sum_level [OF _ unit k] by auto
      with eq lev [of t] le [of t] none show False by auto
    qed
    with sums show "maxConcurrent ivs = 0" by blast
  qed
qed

section \<open>Estimates\<close>

definition sample_end :: "Campaign \<Rightarrow> Design \<Rightarrow> ReplaySlot \<Rightarrow> duration" where
  "sample_end c d s = rp_Offset s + (de_Duration d + ca_GracePeriod c)"

text \<open>The replays of a plan that run at a time, if each starts at its offset.\<close>

definition running_at :: "Campaign \<Rightarrow> Plan \<Rightarrow> duration \<Rightarrow> nat" where
  "running_at c plan t = length (filter (\<lambda>s. case find (\<lambda>d. de_ID d = rp_DesignID s) (pl_Designs plan) of
       None \<Rightarrow> False | Some d \<Rightarrow> rp_Offset s \<le> t \<and> t < sample_end c d s) (pl_Schedule plan))"

definition ends_fit :: "Campaign \<Rightarrow> Plan \<Rightarrow> bool" where
  "ends_fit c plan \<longleftrightarrow> list_all (\<lambda>s. 0 \<le> rp_Offset s \<and> rp_Offset s < 2 ^ 63 \<and>
     list_all (\<lambda>d. 0 \<le> de_Duration d + ca_GracePeriod c \<and> sample_end c d s < 2 ^ 63) (pl_Designs plan)) (pl_Schedule plan)"

definition slot_interval :: "Campaign \<Rightarrow> Plan \<Rightarrow> ReplaySlot \<Rightarrow> interval list" where
  "slot_interval c plan s = (case find (\<lambda>d. de_ID d = rp_DesignID s) (pl_Designs plan) of
       None \<Rightarrow> [] | Some d \<Rightarrow> [\<lparr>iv_start = rp_Offset s, iv_end = sample_end c d s\<rparr>])"

lemma span_intervals:
  assumes "distinct (map de_ID (pl_Designs plan))" and "ends_fit c plan"
  shows "set slots \<subseteq> set (pl_Schedule plan) \<Longrightarrow>
    sp_intervals (foldl (span_step (designsByID (pl_Designs plan)) (ca_GracePeriod c)) s slots) =
    sp_intervals s @ concat (map (slot_interval c plan) slots)"
proof (induction slots arbitrary: s)
  case Nil
  then show ?case by simp
next
  case (Cons slot slots)
  have step: "sp_intervals (span_step (designsByID (pl_Designs plan)) (ca_GracePeriod c) s slot) =
      sp_intervals s @ slot_interval c plan slot"
  proof (cases "find (\<lambda>d. de_ID d = rp_DesignID slot) (pl_Designs plan)")
    case None
    then show ?thesis by (simp add: span_step_def slot_interval_def designsByID_find [OF assms(1)])
  next
    case (Some d)
    then have "d \<in> set (pl_Designs plan)" by (auto simp: find_Some_iff)
    then have r: "0 \<le> rp_Offset slot" "0 \<le> de_Duration d + ca_GracePeriod c" "sample_end c d slot < 2 ^ 63"
      using assms(2) Cons.prems by (auto simp: ends_fit_def list_all_iff)
    then have "wrap64 (de_Duration d + ca_GracePeriod c) = de_Duration d + ca_GracePeriod c"
      "wrap64 (sample_end c d slot) = sample_end c d slot"
      by (auto intro!: wrap64_id simp: in_int64_def sample_end_def)
    then show ?thesis
      using Some by (simp add: span_step_def slot_interval_def designsByID_find [OF assms(1)] Let_def sample_end_def)
  qed
  show ?case using Cons by (simp add: step)
qed

lemma active_running:
  "active_at (concat (map (slot_interval c plan) slots)) t =
    length (filter (\<lambda>s. case find (\<lambda>d. de_ID d = rp_DesignID s) (pl_Designs plan) of
       None \<Rightarrow> False | Some d \<Rightarrow> rp_Offset s \<le> t \<and> t < sample_end c d s) slots)"
  by (induction slots) (auto simp: active_at_def slot_interval_def split: option.splits)

lemma estimate_concurrency:
  assumes "distinct (map de_ID (pl_Designs plan))" and "ends_fit c plan"
  shows "int (running_at c plan t) \<le> ce_MaxConcurrentSamples (EstimateCampaign c plan)"
    and "ce_MaxConcurrentSamples (EstimateCampaign c plan) = 0 \<or>
      (\<exists>t. ce_MaxConcurrentSamples (EstimateCampaign c plan) = int (running_at c plan t))"
proof -
  let ?slots = "sort_key rp_Offset (pl_Schedule plan)"
  let ?ivs = "concat (map (slot_interval c plan) ?slots)"
  have e: "ce_MaxConcurrentSamples (EstimateCampaign c plan) = maxConcurrent ?ivs"
    by (simp add: EstimateCampaign_def Let_def span_intervals [OF assms])
  have "iv_start iv \<le> iv_end iv" if iv: "iv \<in> set ?ivs" for iv
  proof -
    obtain s where s: "s \<in> set (pl_Schedule plan)" "iv \<in> set (slot_interval c plan s)" using iv by auto
    then obtain d where "find (\<lambda>d. de_ID d = rp_DesignID s) (pl_Designs plan) = Some d" "iv = \<lparr>iv_start = rp_Offset s, iv_end = sample_end c d s\<rparr>"
      by (cases "find (\<lambda>d. de_ID d = rp_DesignID s) (pl_Designs plan)") (auto simp: slot_interval_def)
    moreover from this(1) have "d \<in> set (pl_Designs plan)" by (auto simp: find_Some_iff)
    ultimately show ?thesis using s(1) assms(2) by (auto simp: ends_fit_def list_all_iff sample_end_def)
  qed
  then have ok: "list_all (\<lambda>iv. iv_start iv \<le> iv_end iv) ?ivs" by (simp add: list_all_iff)
  have perm: "length (filter P ?slots) = length (filter P (pl_Schedule plan))" for P
  proof -
    have "size (filter_mset P (mset ?slots)) = size (filter_mset P (mset (pl_Schedule plan)))" by simp
    then show ?thesis by (simp only: mset_filter [symmetric] size_mset)
  qed
  have run: "active_at ?ivs t = running_at c plan t" for t
    unfolding active_running running_at_def by (rule perm)
  show "int (running_at c plan t) \<le> ce_MaxConcurrentSamples (EstimateCampaign c plan)"
    and "ce_MaxConcurrentSamples (EstimateCampaign c plan) = 0 \<or>
      (\<exists>t. ce_MaxConcurrentSamples (EstimateCampaign c plan) = int (running_at c plan t))"
    using maxConcurrent_counts [OF ok] unfolding e run by auto
qed

lemma estimate_starts:
  assumes "ends_fit c plan"
  shows "count_in (map rp_Offset (pl_Schedule plan)) Hour t \<le> ce_MaxStartsInHour (EstimateCampaign c plan)"
    and "\<exists>t. ce_MaxStartsInHour (EstimateCampaign c plan) = count_in (map rp_Offset (pl_Schedule plan)) Hour t"
proof -
  have "list_all (\<lambda>s. 0 \<le> rp_Offset s \<and> in_int64 (rp_Offset s)) (sort_key rp_Offset (pl_Schedule plan))"
    using assms by (auto simp: ends_fit_def list_all_iff in_int64_def)
  note counts = maxStartsInWindow_counts [OF _ this, of Hour]
  have "count_in (map rp_Offset (sort_key rp_Offset (pl_Schedule plan))) Hour t = count_in (map rp_Offset (pl_Schedule plan)) Hour t" for t
    by (rule count_in_mset) simp
  then show "count_in (map rp_Offset (pl_Schedule plan)) Hour t \<le> ce_MaxStartsInHour (EstimateCampaign c plan)"
    and "\<exists>t. ce_MaxStartsInHour (EstimateCampaign c plan) = count_in (map rp_Offset (pl_Schedule plan)) Hour t"
    using counts by (auto simp: EstimateCampaign_def Let_def)
qed

text \<open>
  C34. The estimates of a plan are what they are called: the starts in an hour are the largest number
  of replays that begin within one hour, wherever the hour begins, and the concurrent samples are
  the largest number of replays that run at one time, both attained at some time.
\<close>

lemma estimates_exact:
  assumes "distinct (map de_ID (pl_Designs plan))" and "ends_fit c plan"
  shows "(\<forall>t. count_in (map rp_Offset (pl_Schedule plan)) Hour t \<le> ce_MaxStartsInHour (EstimateCampaign c plan)) \<and>
    (\<exists>t. ce_MaxStartsInHour (EstimateCampaign c plan) = count_in (map rp_Offset (pl_Schedule plan)) Hour t) \<and>
    (\<forall>t. int (running_at c plan t) \<le> ce_MaxConcurrentSamples (EstimateCampaign c plan)) \<and>
    (ce_MaxConcurrentSamples (EstimateCampaign c plan) = 0 \<or>
     (\<exists>t. ce_MaxConcurrentSamples (EstimateCampaign c plan) = int (running_at c plan t)))"
  using estimate_starts [OF assms(2)] estimate_concurrency [OF assms] by simp

definition crossing_plan :: Plan where
  "crossing_plan = \<lparr>pl_Designs = crossing, pl_Schedule = crossing_slots\<rparr>"

lemma estimates_exact_witness:
  "(\<forall>t. count_in (map rp_Offset crossing_slots) Hour t \<le> 2) \<and> (\<forall>t. int (running_at ex_campaign crossing_plan t) \<le> 2)"
proof -
  have d: "distinct (map de_ID (pl_Designs crossing_plan))" by code_simp
  have f: "ends_fit ex_campaign crossing_plan" by code_simp
  have e: "ce_MaxStartsInHour (EstimateCampaign ex_campaign crossing_plan) = 2 \<and>
      ce_MaxConcurrentSamples (EstimateCampaign ex_campaign crossing_plan) = 2" by code_simp
  show ?thesis using estimates_exact [OF d f] e by (simp add: crossing_plan_def)
qed

end
