(* ===== verification/Campaign_Run.thy ===== *)
theory Campaign_Run
  imports Campaign_Translate Runplan Run_Liveness
begin

text \<open>
  The execution of a campaign: \<open>src/internal/runner/campaign.go\<close>. The replays are runs of the runner
  theory. As there, the clock, the waits, the database and the run identifiers are answers of a
  world that depend on everything done before, and each of them is a step of a trace. Log lines
  are left out.
\<close>

section \<open>Checks before the start\<close>

definition maxReplayStartsInWindow :: "ReplaySlot list \<Rightarrow> duration \<Rightarrow> nat" where
  "maxReplayStartsInWindow slots window =
    (if slots = [] then 0
     else let offsets = sort (map rp_Offset slots) in starts_loop offsets window [0..<length offsets] 0 0)"

definition validateCampaignRunnerScope :: "Campaign \<Rightarrow> unit result" where
  "validateCampaignRunnerScope c =
    check_each (\<lambda>p. require (p = ''single'')
      (''runner: RunCampaign: host pattern '' @ p @ '' requires multi-host scenario support'')) (ts_Patterns (ca_Targets c))"

definition budget_check :: "Campaign \<Rightarrow> nat \<Rightarrow> adapter \<Rightarrow> unit result" where
  "budget_check c maxStarts a =
    (case map_of (ca_Budget c) (ad_ServiceID a) of
       None \<Rightarrow> Inr ()
     | Some n \<Rightarrow> require (n = 0 \<or> int maxStarts \<le> n)
         (''runner: RunCampaign: budget for '' @ ad_ServiceID a @ '' exceeded by generated schedule''))"

definition validateCampaignBudgets :: "Campaign \<Rightarrow> Plan \<Rightarrow> adapter list \<Rightarrow> unit result" where
  "validateCampaignBudgets c plan as =
    (if ca_Budget c = [] then Inr ()
     else if pl_Schedule plan = [] then Inr ()
     else check_each (budget_check c (maxReplayStartsInWindow (pl_Schedule plan) Hour)) as)"

definition mixedContentEscalationCount :: "Design list \<Rightarrow> nat" where
  "mixedContentEscalationCount ds = foldl (\<lambda>n d. if HasMixedContentEscalation d then Suc n else n) 0 ds"

definition campaignRunParameters :: "Design \<Rightarrow> ReplaySlot \<Rightarrow> params" where
  "campaignRunParameters d slot =
    [(''campaign_design_id'', VString (de_ID d)),
     (''campaign_replay_index'', VInt (rp_Index slot)),
     (''campaign_cell_failure_type'', VString (cl_FailureType (de_Cell d))),
     (''campaign_duration_bucket'', VString (cl_DurationBucket (de_Cell d))),
     (''campaign_host_pattern'', VString (cl_HostPattern (de_Cell d))),
     (''campaign_failure_label'', VString (ReportLabel d)),
     (''campaign_mixed_content_escalation'', VBool (HasMixedContentEscalation d))] @
    (case de_Escalation d of None \<Rightarrow> []
     | Some e \<Rightarrow>
        [(''campaign_escalation_pattern'', VString (ed_Pattern e)),
         (''campaign_escalation_stages'', VInt (int (length (ed_Stages e)))),
         (''campaign_escalation_stage_types'', VList (map (VString \<circ> st_FailureType) (ed_Stages e)))])"

section \<open>Steps\<close>

record CampaignRunRecord =
  cn_ID :: string
  cn_CampaignID :: string
  cn_ConfigTOML :: string
  cn_MasterSeed :: int
  cn_StartedAt :: instant
  cn_AdapterVersions :: "(string \<times> string) list"
  cn_TargetFleetVersion :: string

record RunCampaignOptions =
  co_ConfigTOML :: string
  co_AdapterVersions :: "(string \<times> string) list"
  co_TargetFleetVersion :: string

datatype cstep =
    Looked_at_clock instant
  | Inserted_campaign CampaignRunRecord "string option"
  | Slept duration bool
  | Replayed ReplaySlot Scenario "string \<times> string option" trace
  | Closed_campaign string instant string "string option"

type_synonym ctrace = "cstep list"

record cworld =
  cw_now :: "ctrace \<Rightarrow> instant"
  cw_wait :: "ctrace \<Rightarrow> duration \<Rightarrow> bool"
  cw_ctx_err :: "ctrace \<Rightarrow> string"
  cw_new_id :: "ctrace \<Rightarrow> string"
  cw_insert :: "ctrace \<Rightarrow> CampaignRunRecord \<Rightarrow> string option"
  cw_close :: "ctrace \<Rightarrow> string option"
  cw_run :: "ctrace \<Rightarrow> world"
  cw_rand :: random
  cw_sha :: hash

section \<open>The walk over the schedule\<close>

record campaign_env =
  cv_campaign :: Campaign
  cv_fleet :: Config
  cv_adapters :: "adapter list"
  cv_services :: "Service list option"
  cv_designs :: "Design list"
  cv_runID :: string
  cv_startedAt :: instant

definition replay_scenario :: "campaign_env \<Rightarrow> Design \<Rightarrow> ReplaySlot \<Rightarrow> Scenario result" where
  "replay_scenario v d slot =
    ToScenario d (ca_ID (cv_campaign v) @ ''-'' @ de_ID d @ ''-r'' @ show_int (rp_Index slot))
      (map ad_ServiceID (cv_adapters v)) (ca_CheckFrequency (cv_campaign v)) (ca_GracePeriod (cv_campaign v))"

text \<open>One slot once its time has come: an unknown design or one that is no scenario is skipped, and
  the error of a run is only logged.\<close>

definition replay :: "cworld \<Rightarrow> campaign_env \<Rightarrow> ReplaySlot \<Rightarrow> ctrace \<Rightarrow> ctrace" where
  "replay cw v slot tr =
    (case map_of (designsByID (cv_designs v)) (rp_DesignID slot) of
       None \<Rightarrow> tr
     | Some d \<Rightarrow> (case replay_scenario v d slot of
         Inl _ \<Rightarrow> tr
       | Inr sc \<Rightarrow>
           let (res, rtr) = Run (cw_run cw tr) (cw_new_id cw tr) sc (cv_fleet v) (cv_adapters v) (cv_services v)
                 \<lparr>op_campaignRunID = cv_runID v, op_requireCooldownReset = True,
                  op_parameters = campaignRunParameters d slot\<rparr>
           in tr @ [Replayed slot sc res rtr]))"

text \<open>The result is the resolution reason and the error returned.\<close>

fun walk :: "cworld \<Rightarrow> campaign_env \<Rightarrow> ReplaySlot list \<Rightarrow> ctrace \<Rightarrow> (string \<times> string option) \<times> ctrace" where
  "walk cw v [] tr = ((''planned_completion'', None), tr)"
| "walk cw v (slot # slots) tr =
    (let now = cw_now cw tr; tr = tr @ [Looked_at_clock now];
         waitFor = time_Sub (time_Add (cv_startedAt v) (rp_Offset slot)) now
     in if waitFor > 0 then
          let ok = cw_wait cw tr waitFor; tr = tr @ [Slept waitFor ok]
          in if ok then walk cw v slots (replay cw v slot tr) else ((''aborted'', Some (cw_ctx_err cw tr)), tr)
        else walk cw v slots (replay cw v slot tr))"

text \<open>The part of \<open>RunCampaign\<close> after its checks, on the generated plan.\<close>

definition execute_plan ::
  "cworld \<Rightarrow> Campaign \<Rightarrow> int \<Rightarrow> Config \<Rightarrow> adapter list \<Rightarrow> Service list option \<Rightarrow> RunCampaignOptions \<Rightarrow> Plan \<Rightarrow>
   (string \<times> string option) \<times> ctrace" where
  "execute_plan cw c masterSeed fc as svcCfg opts plan =
    (let runID = cw_new_id cw []; startedAt = cw_now cw []; tr = [Looked_at_clock startedAt];
         rec = \<lparr>cn_ID = runID, cn_CampaignID = ca_ID c, cn_ConfigTOML = co_ConfigTOML opts, cn_MasterSeed = masterSeed,
           cn_StartedAt = startedAt, cn_AdapterVersions = co_AdapterVersions opts,
           cn_TargetFleetVersion = co_TargetFleetVersion opts\<rparr>;
         err = cw_insert cw tr rec; tr = tr @ [Inserted_campaign rec err];
         v = \<lparr>cv_campaign = c, cv_fleet = fc, cv_adapters = as, cv_services = svcCfg, cv_designs = pl_Designs plan,
           cv_runID = runID, cv_startedAt = startedAt\<rparr>
     in case err of
          Some e \<Rightarrow> (([], Some (''runner: RunCampaign: insert campaign row: '' @ e)), tr)
        | None \<Rightarrow>
            let ((reason, err), tr) = walk cw v (pl_Schedule plan) tr; now = cw_now cw tr; tr = tr @ [Looked_at_clock now]
            in ((runID, err), tr @ [Closed_campaign runID now reason (cw_close cw tr)]))"

definition RunCampaign ::
  "cworld \<Rightarrow> Campaign option \<Rightarrow> int \<Rightarrow> Config \<Rightarrow> adapter list \<Rightarrow> Service list option \<Rightarrow> RunCampaignOptions \<Rightarrow>
   (string \<times> string option) \<times> ctrace" where
  "RunCampaign cw oc masterSeed fc as svcCfg opts =
    (case oc of
       None \<Rightarrow> (([], Some ''runner: RunCampaign: nil campaign''), [])
     | Some c \<Rightarrow>
     (case validateCampaignRunnerScope c of
       Inl e \<Rightarrow> (([], Some e), [])
     | Inr _ \<Rightarrow>
     (case Generate (cw_rand cw) (cw_sha cw) c masterSeed of
       Inl e \<Rightarrow> (([], Some (''runner: RunCampaign: '' @ e)), [])
     | Inr plan \<Rightarrow>
     (case validateCampaignBudgets c plan as of
       Inl e \<Rightarrow> (([], Some e), [])
     | Inr _ \<Rightarrow> execute_plan cw c masterSeed fc as svcCfg opts plan))))"

section \<open>What the walk does\<close>

text \<open>The replays of a trace, and those a schedule plans: the slots whose design is a scenario.\<close>

fun replay_of :: "cstep \<Rightarrow> (ReplaySlot \<times> Scenario) option" where
  "replay_of (Replayed slot sc res tr) = Some (slot, sc)"
| "replay_of _ = None"

definition replayed :: "ctrace \<Rightarrow> (ReplaySlot \<times> Scenario) list" where
  "replayed tr = List.map_filter replay_of tr"

definition planned_replay :: "campaign_env \<Rightarrow> ReplaySlot \<Rightarrow> (ReplaySlot \<times> Scenario) option" where
  "planned_replay v slot =
    (case map_of (designsByID (cv_designs v)) (rp_DesignID slot) of
       None \<Rightarrow> None
     | Some d \<Rightarrow> (case replay_scenario v d slot of Inl _ \<Rightarrow> None | Inr sc \<Rightarrow> Some (slot, sc)))"

definition planned_replays :: "campaign_env \<Rightarrow> ReplaySlot list \<Rightarrow> (ReplaySlot \<times> Scenario) list" where
  "planned_replays v slots = List.map_filter (planned_replay v) slots"

fun is_row :: "cstep \<Rightarrow> bool" where
  "is_row (Inserted_campaign r e) = True"
| "is_row (Closed_campaign i t r e) = True"
| "is_row _ = False"

fun cut_wait :: "cstep \<Rightarrow> bool" where
  "cut_wait (Slept d ok) = (\<not> ok)"
| "cut_wait _ = False"

lemma replayed_append [simp]: "replayed (a @ b) = replayed a @ replayed b"
  by (induction a) (auto simp: replayed_def List.map_filter_simps split: option.splits)

lemma replayed_Nil [simp]: "replayed [] = []"
  by (simp add: replayed_def List.map_filter_simps)

lemma planned_Cons: "planned_replays v (s # ss) = (case planned_replay v s of None \<Rightarrow> [] | Some x \<Rightarrow> [x]) @ planned_replays v ss"
  by (simp add: planned_replays_def List.map_filter_simps split: option.splits)

lemma replay_adds:
  obtains new where "replay cw v slot tr = tr @ new"
    and "replayed new = (case planned_replay v slot of None \<Rightarrow> [] | Some x \<Rightarrow> [x])"
    and "\<not> list_ex is_row new" and "\<not> list_ex cut_wait new"
proof (cases "planned_replay v slot")
  case None
  then have "replay cw v slot tr = tr"
    by (auto simp: replay_def planned_replay_def split: option.splits sum.splits)
  then show ?thesis using None by (intro that [of "[]"]) simp_all
next
  case (Some x)
  then obtain d sc where d: "map_of (designsByID (cv_designs v)) (rp_DesignID slot) = Some d" "replay_scenario v d slot = Inr sc" "x = (slot, sc)"
    by (auto simp: planned_replay_def split: option.splits sum.splits)
  obtain res rtr where r: "Run (cw_run cw tr) (cw_new_id cw tr) sc (cv_fleet v) (cv_adapters v) (cv_services v)
      \<lparr>op_campaignRunID = cv_runID v, op_requireCooldownReset = True, op_parameters = campaignRunParameters d slot\<rparr> = (res, rtr)"
    by (cases "Run (cw_run cw tr) (cw_new_id cw tr) sc (cv_fleet v) (cv_adapters v) (cv_services v)
      \<lparr>op_campaignRunID = cv_runID v, op_requireCooldownReset = True, op_parameters = campaignRunParameters d slot\<rparr>")
  then have "replay cw v slot tr = tr @ [Replayed slot sc res rtr]" by (simp add: replay_def d)
  then show ?thesis using Some d(3) by (intro that [of "[Replayed slot sc res rtr]"]) (simp_all add: replayed_def List.map_filter_simps)
qed

text \<open>Either every planned replay ran, in order, or a wait was cut short and the rest did not run.\<close>

definition walked :: "campaign_env \<Rightarrow> ReplaySlot list \<Rightarrow> string \<times> string option \<Rightarrow> ctrace \<Rightarrow> bool" where
  "walked v slots res new \<longleftrightarrow> \<not> list_ex is_row new \<and>
    (if list_ex cut_wait new
     then fst res = ''aborted'' \<and> snd res \<noteq> None \<and> (\<exists>rest. planned_replays v slots = replayed new @ rest)
     else fst res = ''planned_completion'' \<and> snd res = None \<and> replayed new = planned_replays v slots)"

lemma walk_walked: "\<exists>res new. walk cw v slots tr = (res, tr @ new) \<and> walked v slots res new"
proof (induction slots arbitrary: tr)
  case Nil
  show ?case by (simp add: walked_def planned_replays_def List.map_filter_simps)
next
  case (Cons slot slots)
  have step: "\<exists>res new. walk cw v slots (replay cw v slot tr') = (res, tr' @ new) \<and> walked v (slot # slots) res new" for tr'
  proof -
    obtain add where add: "replay cw v slot tr' = tr' @ add" "replayed add = (case planned_replay v slot of None \<Rightarrow> [] | Some x \<Rightarrow> [x])"
      "\<not> list_ex is_row add" "\<not> list_ex cut_wait add" by (rule replay_adds)
    obtain res new where "walk cw v slots (replay cw v slot tr') = (res, replay cw v slot tr' @ new)" "walked v slots res new"
      using Cons.IH by blast
    then show ?thesis
      using add by (intro exI [of _ res] exI [of _ "add @ new"]) (auto simp: walked_def planned_Cons split: if_splits)
  qed
  have lift: "walked v slots' res (pre @ new)" if "walked v slots' res new" "\<not> list_ex is_row pre" "\<not> list_ex cut_wait pre" "replayed pre = []"
    for res new pre slots' using that by (simp add: walked_def)
  let ?now = "cw_now cw tr"
  let ?tr1 = "tr @ [Looked_at_clock ?now]" and ?wait = "time_Sub (time_Add (cv_startedAt v) (rp_Offset slot)) ?now"
  show ?case
  proof (cases "?wait > 0")
    case False
    obtain res new where "walk cw v slots (replay cw v slot ?tr1) = (res, ?tr1 @ new)" "walked v (slot # slots) res new"
      using step by blast
    moreover from lift [OF this(2), of "[Looked_at_clock ?now]"] have "walked v (slot # slots) res (Looked_at_clock ?now # new)"
      by (simp add: replayed_def List.map_filter_simps)
    ultimately show ?thesis using False by (auto simp: Let_def)
  next
    case True
    let ?ok = "cw_wait cw ?tr1 ?wait"
    let ?tr2 = "?tr1 @ [Slept ?wait ?ok]"
    show ?thesis
    proof (cases ?ok)
      case ok: True
      obtain res new where "walk cw v slots (replay cw v slot ?tr2) = (res, ?tr2 @ new)" "walked v (slot # slots) res new"
        using step by blast
      moreover from lift [OF this(2), of "[Looked_at_clock ?now, Slept ?wait ?ok]"] ok
      have "walked v (slot # slots) res (Looked_at_clock ?now # Slept ?wait ?ok # new)"
        by (simp add: replayed_def List.map_filter_simps)
      ultimately show ?thesis using True ok by (auto simp: Let_def)
    next
      case cut: False
      then have "walk cw v (slot # slots) tr = ((''aborted'', Some (cw_ctx_err cw ?tr2)), ?tr2)" using True by (simp add: Let_def)
      moreover have "walked v (slot # slots) (''aborted'', Some (cw_ctx_err cw ?tr2)) [Looked_at_clock ?now, Slept ?wait ?ok]"
        using cut by (simp add: walked_def replayed_def List.map_filter_simps)
      ultimately show ?thesis by auto
    qed
  qed
qed

section \<open>Properties\<close>

definition env_for :: "cworld \<Rightarrow> Campaign \<Rightarrow> Config \<Rightarrow> adapter list \<Rightarrow> Service list option \<Rightarrow> Plan \<Rightarrow> campaign_env" where
  "env_for cw c fc as svc plan =
    \<lparr>cv_campaign = c, cv_fleet = fc, cv_adapters = as, cv_services = svc, cv_designs = pl_Designs plan,
     cv_runID = cw_new_id cw [], cv_startedAt = cw_now cw []\<rparr>"

fun row_inserted :: "cstep \<Rightarrow> bool" where
  "row_inserted (Inserted_campaign r None) = True"
| "row_inserted _ = False"

text \<open>The trace of a campaign that started: its row, the walk, and the close with the reason of the walk.\<close>

definition campaign_trace :: "cworld \<Rightarrow> Campaign \<Rightarrow> Config \<Rightarrow> adapter list \<Rightarrow> Service list option \<Rightarrow> Plan \<Rightarrow> string \<times> string option \<Rightarrow> ctrace \<Rightarrow> bool" where
  "campaign_trace cw c fc as svc plan res tr \<longleftrightarrow>
    (\<exists>row new now reason e. tr = [Looked_at_clock (cw_now cw []), Inserted_campaign row None] @ new @
        [Looked_at_clock now, Closed_campaign (fst res) now reason e] \<and>
      cn_CampaignID row = ca_ID c \<and> fst res = cn_ID row \<and>
      walked (env_for cw c fc as svc plan) (pl_Schedule plan) (reason, snd res) new)"

lemma execute_plan_cases:
  assumes x: "execute_plan cw c seed fc as svc opts plan = (res, tr)"
  obtains (refused) "replayed tr = []" "\<not> list_ex row_inserted tr" "snd res \<noteq> None"
  | (ran) "campaign_trace cw c fc as svc plan res tr" "list_ex row_inserted tr"
proof -
  define row where "row = \<lparr>cn_ID = cw_new_id cw [], cn_CampaignID = ca_ID c, cn_ConfigTOML = co_ConfigTOML opts,
       cn_MasterSeed = seed, cn_StartedAt = cw_now cw [], cn_AdapterVersions = co_AdapterVersions opts,
       cn_TargetFleetVersion = co_TargetFleetVersion opts\<rparr>"
  define v where "v = env_for cw c fc as svc plan"
  let ?tr0 = "[Looked_at_clock (cw_now cw [])]"
  let ?e = "cw_insert cw ?tr0 row"
  let ?tr1 = "?tr0 @ [Inserted_campaign row ?e]"
  obtain wres new where walk: "walk cw v (pl_Schedule plan) ?tr1 = (wres, ?tr1 @ new)"
    and ok: "walked v (pl_Schedule plan) wres new" using walk_walked by blast
  obtain reason err where wr: "wres = (reason, err)" by (cases wres)
  note body = execute_plan_def [of cw c seed fc as svc opts plan, folded row_def env_for_def, folded v_def, unfolded Let_def,
      folded row_def env_for_def, folded v_def, unfolded walk wr prod.case]
  show thesis
  proof (cases ?e)
    case (Some y)
    then show thesis using x refused unfolding body by (auto simp: replayed_def List.map_filter_simps)
  next
    case None
    let ?now = "cw_now cw (?tr1 @ new)"
    have "(res, tr) = ((cw_new_id cw [], err), (?tr1 @ new) @ [Looked_at_clock ?now] @
        [Closed_campaign (cw_new_id cw []) ?now reason (cw_close cw ((?tr1 @ new) @ [Looked_at_clock ?now]))])"
      using x None unfolding body by simp
    then have res: "res = (cw_new_id cw [], err)"
      and tr: "tr = (?tr1 @ new) @ [Looked_at_clock ?now] @
        [Closed_campaign (cw_new_id cw []) ?now reason (cw_close cw ((?tr1 @ new) @ [Looked_at_clock ?now]))]" by simp_all
    have "campaign_trace cw c fc as svc plan res tr"
      unfolding campaign_trace_def v_def [symmetric] using ok None
      by (intro exI [of _ row] exI [of _ new] exI [of _ ?now] exI [of _ reason]
          exI [of _ "cw_close cw ((?tr1 @ new) @ [Looked_at_clock ?now])"]) (simp add: tr res row_def wr)
    moreover have "list_ex row_inserted tr" using None by (simp add: tr)
    ultimately show thesis by (rule ran)
  qed
qed

lemma RunCampaign_cases:
  assumes "RunCampaign cw (Some c) seed fc as svc opts = (res, tr)"
  obtains (refused) "replayed tr = []" "\<not> list_ex row_inserted tr" "snd res \<noteq> None"
  | (ran) plan where "validateCampaignRunnerScope c = Inr ()" "Generate (cw_rand cw) (cw_sha cw) c seed = Inr plan"
      "validateCampaignBudgets c plan as = Inr ()" "campaign_trace cw c fc as svc plan res tr" "list_ex row_inserted tr"
proof (cases "\<exists>plan. validateCampaignRunnerScope c = Inr () \<and> Generate (cw_rand cw) (cw_sha cw) c seed = Inr plan \<and>
    validateCampaignBudgets c plan as = Inr ()")
  case True
  then obtain plan where p: "validateCampaignRunnerScope c = Inr ()" "Generate (cw_rand cw) (cw_sha cw) c seed = Inr plan"
    "validateCampaignBudgets c plan as = Inr ()" by blast
  then have "execute_plan cw c seed fc as svc opts plan = (res, tr)" using assms by (simp add: RunCampaign_def)
  then show thesis by (rule execute_plan_cases) (use refused ran p in blast)+
next
  case False
  then have "\<exists>e. (res, tr) = (([], Some e), [])"
    using assms by (auto simp: RunCampaign_def split: sum.splits)
  then show thesis using refused by auto
qed

text \<open>
  C9. A campaign either is refused with an error before anything is recorded, or writes its row
  once, walks the generated schedule and closes the row once, at the end, with the reason of the
  walk. The walk runs every replay whose design is a scenario exactly once, in the order of the
  schedule, whatever the outcome of the runs before; only a wait that is cut short ends it early,
  and then, and only then, the reason is \<open>aborted\<close> and an error is returned.
\<close>

lemma campaign_runs_plan:
  "case RunCampaign cw (Some c) seed fc as svc opts of (res, tr) \<Rightarrow>
    (if list_ex row_inserted tr
     then \<exists>plan. Generate (cw_rand cw) (cw_sha cw) c seed = Inr plan \<and> campaign_trace cw c fc as svc plan res tr
     else replayed tr = [] \<and> snd res \<noteq> None)"
proof -
  obtain res tr where r: "RunCampaign cw (Some c) seed fc as svc opts = (res, tr)" by (cases "RunCampaign cw (Some c) seed fc as svc opts")
  show ?thesis unfolding r by (cases rule: RunCampaign_cases [OF r]) simp_all
qed

definition budgets_kept :: "Campaign \<Rightarrow> Plan \<Rightarrow> adapter list \<Rightarrow> bool" where
  "budgets_kept c plan as \<longleftrightarrow> list_all (\<lambda>a. case map_of (ca_Budget c) (ad_ServiceID a) of
       None \<Rightarrow> True | Some n \<Rightarrow> n = 0 \<or> (\<forall>t. int (count_in (map rp_Offset (pl_Schedule plan)) Hour t) \<le> n)) as"

lemma budgets_sound:
  assumes "validateCampaignBudgets c plan as = Inr ()" and "in_range (pl_Schedule plan)"
    and "list_all (\<lambda>(k, n). 0 \<le> n) (ca_Budget c)"
  shows "budgets_kept c plan as"
proof (cases "ca_Budget c = []")
  case True
  then show ?thesis by (simp add: budgets_kept_def list_all_iff)
next
  case budget: False
  show ?thesis
  proof (cases "pl_Schedule plan = []")
    case True
    have "0 \<le> n" if "map_of (ca_Budget c) k = Some n" for k n
      using map_of_SomeD [OF that] assms(3) by (auto simp: list_all_iff)
    then show ?thesis using True by (auto simp: budgets_kept_def count_in_def list_all_iff split: option.splits)
  next
    case False
    have same: "maxReplayStartsInWindow (pl_Schedule plan) Hour = maxStartsInWindow (pl_Schedule plan) Hour"
      by (simp add: maxReplayStartsInWindow_def maxStartsInWindow_def)
    have range: "list_all (\<lambda>s. 0 \<le> rp_Offset s \<and> in_int64 (rp_Offset s)) (pl_Schedule plan)"
      using assms(2) by (simp add: in_range_def)
    have count: "int (count_in (map rp_Offset (pl_Schedule plan)) Hour t) \<le> int (maxStartsInWindow (pl_Schedule plan) Hour)" for t
      using maxStartsInWindow_counts(1) [OF _ range, of Hour t] by simp
    have "budget_check c (maxStartsInWindow (pl_Schedule plan) Hour) a = Inr ()" if "a \<in> set as" for a
      using assms(1) budget False that by (simp add: validateCampaignBudgets_def same)
    moreover have "n = 0 \<or> int (maxStartsInWindow (pl_Schedule plan) Hour) \<le> n"
      if "budget_check c (maxStartsInWindow (pl_Schedule plan) Hour) a = Inr ()" "map_of (ca_Budget c) (ad_ServiceID a) = Some n" for a n
      using that by (simp add: budget_check_def)
    ultimately have "n = 0 \<or> (\<forall>t. int (count_in (map rp_Offset (pl_Schedule plan)) Hour t) \<le> n)"
      if "a \<in> set as" "map_of (ca_Budget c) (ad_ServiceID a) = Some n" for a n
      using that count order_trans by blast
    then show ?thesis unfolding budgets_kept_def list_all_iff by (auto split: option.splits)
  qed
qed

lemma campaign_budget_nonneg:
  assumes "validate_campaign r = Inr c"
  shows "list_all (\<lambda>(k, n). 0 \<le> n) (ca_Budget c)"
proof -
  have "validateBudget (cr_Budget r) = Inr (ca_Budget c)"
    using assms unfolding validate_campaign_def guard_Inr_iff rbind_Inr_iff by (elim exE conjE) auto
  then show ?thesis
    unfolding validateBudget_def by (rule rmap_Inr_all) (auto split: if_splits)
qed

text \<open>
  C10. No replay of a campaign starts unless the campaign is of single targets and its schedule
  keeps every budget: for each service with a limit no hour, wherever it begins, holds more planned
  starts than the limit.
\<close>

lemma campaign_within_budgets:
  assumes "validate_campaign r = Inr c" and "random_ok (cw_rand cw)" and "no_overflow c" and "replays_fit c"
    and "Millisecond \<le> ca_Duration c" and "ca_Duration c \<le> 2 ^ 52"
  shows "case RunCampaign cw (Some c) seed fc as svc opts of (res, tr) \<Rightarrow>
    (if list_ex row_inserted tr
     then set (ts_Patterns (ca_Targets c)) = {''single''} \<and>
       (\<exists>plan. Generate (cw_rand cw) (cw_sha cw) c seed = Inr plan \<and> budgets_kept c plan as)
     else replayed tr = [])"
proof -
  note ok = validate_campaign_ok [OF assms(1)]
  obtain res tr where r: "RunCampaign cw (Some c) seed fc as svc opts = (res, tr)" by (cases "RunCampaign cw (Some c) seed fc as svc opts")
  from r show ?thesis
  proof (cases rule: RunCampaign_cases)
    case refused
    then show ?thesis by (simp add: r)
  next
    case (ran plan)
    have "set (ts_Patterns (ca_Targets c)) \<subseteq> {''single''}"
      using ran(1) by (auto simp: validateCampaignRunnerScope_def)
    moreover have "ts_Patterns (ca_Targets c) \<noteq> []" using ok by (simp add: campaign_ok_def targets_ok_def)
    ultimately have single: "set (ts_Patterns (ca_Targets c)) = {''single''}" by (metis set_empty subset_singletonD)
    have cd: "0 \<le> ca_Cooldown c" using ok by (simp add: campaign_ok_def)
    have "schedule_ok (pl_Designs plan) (ca_Duration c) (ca_Cooldown c) (pl_Schedule plan)"
    proof (cases rule: Generate_designs [OF assms(2) ok assms(3), of "cw_sha cw" seed])
      case (1 ds)
      note reps = designs_replays(1) [OF 1(1)]
      from generateSchedule_ok [OF assms(2) 1(3,2) reps designs_ok_distinct [OF 1(1)] replays_fit_layout [OF ok 1(1) assms(4)]
          cd assms(5,6), of "cw_sha cw" seed] ran(2) 1(4)
      show ?thesis by auto
    next
      case (2 e)
      with ran(2) show ?thesis by simp
    qed
    then have "in_range (pl_Schedule plan)"
      using assms(6) by (auto simp: schedule_ok_def in_range_def list_all_iff in_int64_def)
    from budgets_sound [OF ran(3) this campaign_budget_nonneg [OF assms(1)]] show ?thesis
      using ran(2,5) single by (simp add: r)
  qed
qed

definition budget_file :: craw where
  "budget_file = ex_campaign_file \<lparr>cr_Budget := [(''a'', 3), (''b'', 0)]\<rparr>"

definition budget_campaign :: Campaign where
  "budget_campaign = ex_campaign \<lparr>ca_Budget := [(''a'', 3), (''b'', 0)]\<rparr>"

lemma budget_accepted: "validate_campaign budget_file = Inr budget_campaign"
  by code_simp

lemma budget_replays_fit: "replays_fit budget_campaign"
  by code_simp

lemma budget_bounds: "no_overflow budget_campaign" "Millisecond \<le> ca_Duration budget_campaign" "ca_Duration budget_campaign \<le> 2 ^ 52"
  by (simp_all add: budget_campaign_def ex_campaign_def no_overflow_def in_int64_def)

definition demo_cworld :: cworld where
  "demo_cworld = \<lparr>cw_now = (\<lambda>tr. int (length tr)), cw_wait = (\<lambda>tr d. length tr < 9), cw_ctx_err = (\<lambda>tr. ''context canceled''),
    cw_new_id = (\<lambda>tr. ''c''), cw_insert = (\<lambda>tr row. None), cw_close = (\<lambda>tr. None),
    cw_run = (\<lambda>tr. demo_world), cw_rand = first_choice, cw_sha = null_hash\<rparr>"

lemma demo_cworld_random: "random_ok (cw_rand demo_cworld)"
  using first_choice_ok by (simp add: demo_cworld_def)

lemma campaign_within_budgets_witness:
  "case RunCampaign demo_cworld (Some budget_campaign) 7 run_fleet [demo_adapter ''a'', demo_adapter ''b''] None
      \<lparr>co_ConfigTOML = [], co_AdapterVersions = [], co_TargetFleetVersion = []\<rparr> of
    (res, tr) \<Rightarrow>
    (if list_ex row_inserted tr
     then set (ts_Patterns (ca_Targets budget_campaign)) = {''single''} \<and>
       (\<exists>plan. Generate (cw_rand demo_cworld) (cw_sha demo_cworld) budget_campaign 7 = Inr plan \<and>
         budgets_kept budget_campaign plan [demo_adapter ''a'', demo_adapter ''b''])
     else replayed tr = [])"
  by (rule campaign_within_budgets [OF budget_accepted demo_cworld_random budget_bounds(1) budget_replays_fit budget_bounds(2,3)])

end
