(* ===== verification/Spec2Isabelle.thy ===== *)
theory Spec2Isabelle
  imports Registry ControlPlane Dns_Server Fleet Measurement Scenario Run_Liveness Campaign_Run
begin

text \<open>
  A verification library for uptime-bench, the benchmark harness for uptime monitoring services. All
  paths below are relative to \<open>src/internal/\<close>.

  The program. A harness reads a fleet file (targets, nameservers), a services file and scenario files. To run
  a scenario it registers the target's URL with every monitoring service, then walks a
  timeline of failures: each is switched on and off over an HTTP control plane on the fleet members that
  serve the target (web servers and authoritative DNS servers). A member keeps the failures it was told
  about in a registry and consults it for every request. What the harness did is logged as ground
  truth; what the services reported is fetched at the end. The measurement engine compares the two
  logs and stores the metrics.

  Theories, in the order of the calls.

    \<^item> \<open>Prelude\<close>, \<open>Float64\<close>, \<open>GoTime\<close>: the Go the code relies on. Errors as sums (with a bind, guards and a
      monadic map), strings and bytes, decimal numbers, 64-bit wrap-around, IEEE doubles with
      their rounding, instants and durations (parser and printer of \<open>time.Duration\<close>).
    \<^item> \<open>Registry\<close>: \<open>control/registry.go\<close>, \<open>control/wire.go\<close>. The map of active failures with expiry, fractional
      rates (a stream of draws per failure) and source ranges. The abstract state is the history of the
      operations; the locale of a failure store is interpreted on the registry.
    \<^item> \<open>ControlPlane\<close>: \<open>control/server.go\<close>, \<open>control/client.go\<close>, \<open>control/auth.go\<close>. The handlers as functions on
      requests, and a client whose requests reach them.
    \<^item> \<open>Fleet\<close>, \<open>Services\<close>, \<open>Scenario\<close>: \<open>fleet/fleet.go\<close>, \<open>serviceconfig/serviceconfig.go\<close>,
      \<open>scenario/scenario.go\<close>. Decoded TOML in, validated configuration or the first error out.
    \<^item> \<open>Dns_Wire\<close>, \<open>Dns_Txt\<close>, \<open>Dns_Zones\<close>, \<open>Dns_Server\<close>: \<open>dnsserver/\<close>. Messages byte by byte, the store of ACME
      challenges, the zones built from the fleet with their generated host ranges, and the answer to a query.
    \<^item> \<open>Measurement\<close>: \<open>measurement/measurement.go\<close> with the queries of \<open>db/db.go\<close> it uses.
    \<^item> \<open>Run_Targets\<close>, \<open>Run_Schedule\<close>: the pure parts of \<open>runner/runner.go\<close> and \<open>runner/dns_failure.go\<close>: endpoints,
      URLs, parameters, members, and the failure timeline with the expiry sent to members.
    \<^item> \<open>Dns_Probe\<close>, \<open>Dns_Baseline\<close>: the exposure probe of \<open>runner/dns_failure.go\<close> and the resolver checks of
      \<open>runner/dns_baseline.go\<close>.
    \<^item> \<open>Runner\<close>: \<open>Run\<close> itself, as state passing over a trace of every call that leaves the process. What the outside
      answers is a \<open>world\<close>, a function from the trace so far, so that a theorem over all worlds covers
      every interleaving of outside behaviour with the run.
    \<^item> \<open>Runner_Logic\<close>: triples with a second postcondition for early returns, and the locales \<open>quiet_run\<close>,
      \<open>provision_run\<close> and \<open>run_invariant\<close>, in which every operation of a run is proved once.
    \<^item> \<open>Run_Guarantees\<close>, \<open>Run_Completion\<close>, \<open>Run_Liveness\<close>: their interpretations and the properties of whole runs.

  What is shown. The registry refines the history of its operations, isolates regions and expires failures.
  A control request has its effect on the registry or its documented error. A DNS answer is well
  formed, resolves every site of the fleet when nothing is injected, and shows the failure that the
  precedence selects; the probe of the runner reads back exactly that. Metrics: one outcome per
  service, coverage as a fraction of instants, latencies inside windows, derivation repeatable. Runs:
  the timeline is sorted and outlived by the expiry sent to members, members end up
  clean, ground truth rows follow the control calls they claim, every provisioned monitor is removed
  (or its removal failed three times), and every run row is closed once.

  Recursion and fuel. Every definition is total: loops over slices are structural, the name readers of the
  wire format count down the octets that are left, and the ticker of the baseline fires a
  number of times that the world gives for the wait. No fuel bounds a result.

  Arguments of the model. SHA-256, \<open>fmt.Sprintf\<close> with an operator's pattern, the CIDR and IP parsers, the JSON and TOML
  decoders, the pseudo-random draws, the order in which Go walks a map, and everything in a
  \<open>world\<close>: clock, waits, database, adapters, sockets, resolvers.

  Not modelled. The HTTP server of the targets (\<open>targetserver/\<close>), whose responses are mostly templates; the adapters
  of the monitoring services, which translate to vendor APIs; the commands under \<open>cmd/\<close> and the
  capacity benchmarks, which drive other programs; the reports, which print SQL aggregates; the
  generation of certificates. Goroutines of the cleanup touch one monitor each and are modelled one
  after the other.
\<close>

end
